(* ===== verification/Prelude.thy ===== *)
theory Prelude
  imports Main "HOL-Library.Word" "HOL-Library.Sublist"
begin

text \<open>
  Shared vocabulary of the development.

  \<^item> The machine types of the C sources: \<open>byte\<close> (\<^verbatim>\<open>uint8_t\<close>), \<open>u16\<close>, \<open>u32\<close>, \<open>u64\<close> and
    \<open>i32\<close> as words of their width.
  \<^item> Outcomes: a C function that may read outside an object, dereference a null pointer or keep
    looping is modelled in \<open>'a outcome\<close>, a sum whose left side is the \<open>fault\<close>. \<open>OutOfFuel\<close> is
    not an error of the program but "this many iterations were not enough"; a model that takes
    fuel always comes with a lemma that says how much is enough or that no amount is.
  \<^item> Bounds-checked access to byte buffers (\<open>byte_at\<close>, \<open>bytes_at\<close>) and the big- and
    little-endian readers and writers the components share.
  \<^item> The collections \<open>outcome_simps\<close>, \<open>byte_simps\<close> and \<open>cstr_simps\<close>, which later theories
    extend.
\<close>

unbundle bit_operations_syntax

named_theorems outcome_simps \<open>rewriting in the outcome monad\<close>
named_theorems byte_simps \<open>byte buffers and the integers read from them\<close>
named_theorems cstr_simps \<open>C strings and the string functions of the C library\<close>

section \<open>Machine types\<close>

type_synonym byte = "8 word"
type_synonym u16 = "16 word"
type_synonym u32 = "32 word"
type_synonym u64 = "64 word"
type_synonym i32 = "32 word"

text \<open>A conversion of a C integer to \<^verbatim>\<open>int\<close> on the platforms the program supports: two's
  complement of the low 32 bits.\<close>

definition to_int32 :: "int \<Rightarrow> int" where
  "to_int32 v = (v + 2147483648) mod 4294967296 - 2147483648"

lemma to_int32_id [simp]:
  "- 2147483648 \<le> v \<Longrightarrow> v \<le> 2147483647 \<Longrightarrow> to_int32 v = v"
  by (simp add: to_int32_def)

lemma to_int32_range: "- 2147483648 \<le> to_int32 v \<and> to_int32 v \<le> 2147483647"
proof -
  have "0 \<le> (v + 2147483648) mod 4294967296" "(v + 2147483648) mod 4294967296 < 4294967296"
    by simp_all
  then show ?thesis unfolding to_int32_def by linarith
qed

section \<open>Outcomes\<close>

datatype fault =
    OutOfBounds  \<comment> \<open>a read or write outside an object\<close>
  | NullDeref    \<comment> \<open>a null pointer dereferenced\<close>
  | SignedOverflow  \<comment> \<open>a signed integer overflows: undefined behaviour\<close>
  | OutOfFuel    \<comment> \<open>the loop has not stopped within the fuel\<close>

type_synonym 'a outcome = "fault + 'a"

definition and_then :: "'a outcome \<Rightarrow> ('a \<Rightarrow> 'b outcome) \<Rightarrow> 'b outcome" where
  "and_then m f = (case m of Inl e \<Rightarrow> Inl e | Inr a \<Rightarrow> f a)"

lemma and_then_Inl [simp, outcome_simps]: "and_then (Inl e) f = Inl e"
  by (simp add: and_then_def)

lemma and_then_Inr [simp, outcome_simps]: "and_then (Inr a) f = f a"
  by (simp add: and_then_def)

lemma and_then_assoc: "and_then (and_then m f) g = and_then m (\<lambda>x. and_then (f x) g)"
  by (simp add: and_then_def split: sum.splits)

lemma and_then_eq_Inr [outcome_simps]:
  "and_then m f = Inr y \<longleftrightarrow> (\<exists>x. m = Inr x \<and> f x = Inr y)"
  by (cases m) auto

lemma and_then_eq_Inl:
  "and_then m f = Inl e \<longleftrightarrow> m = Inl e \<or> (\<exists>x. m = Inr x \<and> f x = Inl e)"
  by (cases m) auto

lemma and_then_total: "\<exists>x. m = Inr x \<Longrightarrow> (\<And>x. \<exists>y. f x = Inr y) \<Longrightarrow> \<exists>y. and_then m f = Inr y"
  by auto

text \<open>An outcome that is not a memory fault: it returns, or it is still running.\<close>

definition mem_safe :: "'a outcome \<Rightarrow> bool" where
  "mem_safe m \<longleftrightarrow> m \<noteq> Inl OutOfBounds \<and> m \<noteq> Inl NullDeref \<and> m \<noteq> Inl SignedOverflow"

lemma mem_safe_Inr [simp]: "mem_safe (Inr x)"
  by (simp add: mem_safe_def)

lemma mem_safe_fuel [simp]: "mem_safe (Inl OutOfFuel)"
  by (simp add: mem_safe_def)

lemma mem_safe_and_then:
  "mem_safe m \<Longrightarrow> (\<And>x. m = Inr x \<Longrightarrow> mem_safe (f x)) \<Longrightarrow> mem_safe (and_then m f)"
  by (cases m) (auto simp: mem_safe_def)

section \<open>Byte buffers\<close>

definition byte_at :: "byte list \<Rightarrow> nat \<Rightarrow> byte outcome" where
  "byte_at d i = (if i < length d then Inr (d ! i) else Inl OutOfBounds)"

definition bytes_at :: "byte list \<Rightarrow> nat \<Rightarrow> nat \<Rightarrow> byte list outcome" where
  "bytes_at d i n = (if i + n \<le> length d then Inr (take n (drop i d)) else Inl OutOfBounds)"

lemma byte_at_in [simp, byte_simps]: "i < length d \<Longrightarrow> byte_at d i = Inr (d ! i)"
  by (simp add: byte_at_def)

lemma bytes_at_in [simp, byte_simps]:
  "i + n \<le> length d \<Longrightarrow> bytes_at d i n = Inr (take n (drop i d))"
  by (simp add: bytes_at_def)

lemma byte_at_append1 [simp]: "i < length xs \<Longrightarrow> byte_at (xs @ ys) i = Inr (xs ! i)"
  by (simp add: byte_at_def nth_append)

text \<open>Big-endian 16-bit values, \<^verbatim>\<open>(uint16_t)(p[0] << 8 | p[1])\<close>.\<close>

definition be16 :: "byte \<Rightarrow> byte \<Rightarrow> u16" where
  "be16 a b = push_bit 8 (ucast a) OR ucast b"

definition be16_at :: "byte list \<Rightarrow> nat \<Rightarrow> u16 outcome" where
  "be16_at d i = and_then (byte_at d i) (\<lambda>a. and_then (byte_at d (i + 1)) (\<lambda>b. Inr (be16 a b)))"

definition put_be16 :: "u16 \<Rightarrow> byte list" where
  "put_be16 v = [ucast (drop_bit 8 v), ucast v]"

text \<open>Little-endian 16-, 32- and 64-bit values.\<close>

definition le16 :: "byte \<Rightarrow> byte \<Rightarrow> u16" where
  "le16 a b = ucast a OR push_bit 8 (ucast b)"

definition le16_at :: "byte list \<Rightarrow> nat \<Rightarrow> u16 outcome" where
  "le16_at d i = and_then (byte_at d i) (\<lambda>a. and_then (byte_at d (i + 1)) (\<lambda>b. Inr (le16 a b)))"

lemma be16_at_in [simp, byte_simps]:
  "i + 1 < length d \<Longrightarrow> be16_at d i = Inr (be16 (d ! i) (d ! (i + 1)))"
  by (simp add: be16_at_def)

lemma le16_at_in [simp, byte_simps]:
  "i + 1 < length d \<Longrightarrow> le16_at d i = Inr (le16 (d ! i) (d ! (i + 1)))"
  by (simp add: le16_at_def)

lemma be16_put_be16 [simp, byte_simps]: "be16 (ucast (drop_bit 8 v)) (ucast v) = v"
  unfolding be16_def
  by (rule bit_word_eqI) (auto simp: bit_simps)

lemma le16_put [simp, byte_simps]: "le16 (ucast v) (ucast (drop_bit 8 v)) = v"
  unfolding le16_def
  by (rule bit_word_eqI) (auto simp: bit_simps)

lemma unat_byte_less [simp]: "unat (b :: byte) < 256"
  using unsigned_less [of b, where ?'a = nat] by simp

lemma unat_u16_less [simp]: "unat (v :: u16) < 65536"
  using unsigned_less [of v, where ?'a = nat] by simp

lemma unat_ucast_byte16 [simp]: "unat (ucast (b :: byte) :: u16) = unat b"
proof -
  have "unat b < 65536" using unat_byte_less [of b] by linarith
  then show ?thesis by (simp add: unsigned_ucast_eq take_bit_eq_mod)
qed

lemma unat_be16: "unat (be16 a b) = 256 * unat a + unat b"
proof -
  have disj: "push_bit 8 (ucast a :: u16) AND ucast b = 0"
    by (rule bit_word_eqI) (auto simp: bit_simps dest: bit_imp_le_length)
  have "be16 a b = push_bit 8 (ucast a) + ucast b"
    unfolding be16_def by (rule disjunctive_add_eq_or [OF disj, symmetric])
  moreover have "unat (push_bit 8 (ucast a :: u16)) = 256 * unat a"
    using unat_byte_less [of a]
    by (simp add: push_bit_eq_mult unat_word_ariths)
  moreover have "unat (ucast b :: u16) = unat b" by simp
  moreover have "256 * unat a + unat b < 65536"
    using unat_byte_less [of a] unat_byte_less [of b] by linarith
  ultimately show ?thesis by (simp add: unat_word_ariths)
qed

end
