(* ===== verification/CLib.thy ===== *)
theory CLib
  imports Prelude
begin

text \<open>
  The part of the C library the sources use, on C strings modelled as \<open>string\<close> (a list of
  characters, none of them NUL): \<^verbatim>\<open>snprintf\<close> into a buffer of a given capacity, the
  \<^verbatim>\<open>strtol\<close> family, \<^verbatim>\<open>strchr\<close>/\<^verbatim>\<open>strrchr\<close>/\<^verbatim>\<open>strstr\<close> (as indices), \<^verbatim>\<open>strtok_r\<close>, the decimal
  and hexadecimal conversions of \<^verbatim>\<open>printf\<close>, and \<^verbatim>\<open>inet_ntop\<close>. \<^verbatim>\<open>long\<close> has 64 bits.
\<close>

section \<open>Bytes and characters\<close>

definition chr8 :: "byte \<Rightarrow> char" where
  "chr8 b = char_of (unat b)"

definition ord8 :: "char \<Rightarrow> byte" where
  "ord8 c = of_char c"

text \<open>The C string held by a byte buffer: the bytes before the first NUL.\<close>

definition cstr :: "byte list \<Rightarrow> string" where
  "cstr bs = map chr8 (takeWhile (\<lambda>b. b \<noteq> 0) bs)"

lemma ord8_chr8 [simp, cstr_simps]: "ord8 (chr8 b) = b"
proof -
  have "of_char (char_of (unat b)) = (of_nat (unat b) :: byte)"
  proof -
    have "(of_char (char_of (unat b)) :: nat) = unat b"
      using unat_byte_less [of b] by (simp only: of_char_of) simp
    then show ?thesis by (metis of_nat_of_char)
  qed
  then show ?thesis by (simp add: ord8_def chr8_def)
qed

lemma of_char_chr8 [simp]: "(of_char (chr8 b) :: nat) = unat b"
  using unat_byte_less [of b] by (simp only: chr8_def of_char_of) simp

lemma chr8_inj [simp]: "chr8 a = chr8 b \<longleftrightarrow> a = b"
  by (metis ord8_chr8)

lemma chr8_ord8 [simp, cstr_simps]: "chr8 (ord8 c) = c"
proof -
  have "unat (ord8 c) = of_char c"
  proof -
    have "(of_char c :: nat) < 256" by (rule nat_of_char_less_256)
    moreover have "(of_char c :: byte) = of_nat (of_char c)" by (simp only: of_nat_of_char)
    ultimately show ?thesis unfolding ord8_def by (simp only: unsigned_of_nat) (simp add: take_bit_eq_mod)
  qed
  then show ?thesis by (simp add: chr8_def)
qed

lemma chr8_0 [simp, cstr_simps]: "chr8 0 = CHR 0x00"
proof -
  have "chr8 0 = char_of (of_char (CHR 0x00) :: nat)" by (simp add: chr8_def)
  then show ?thesis by (simp only: char_of_char)
qed

lemma length_cstr_le: "length (cstr bs) \<le> length bs"
  by (simp add: cstr_def length_takeWhile_le)

lemma cstr_map_ord8 [simp]: "CHR 0x00 \<notin> set s \<Longrightarrow> cstr (map ord8 s) = s"
proof -
  assume nz: "CHR 0x00 \<notin> set s"
  have "ord8 c \<noteq> 0" if "c \<in> set s" for c
  proof
    assume "ord8 c = 0"
    then have "c = chr8 0" by (metis chr8_ord8)
    then show False using nz that chr8_0 by simp
  qed
  then have "takeWhile (\<lambda>b. b \<noteq> 0) (map ord8 s) = map ord8 s"
    by (simp add: takeWhile_eq_all_conv)
  then have "cstr (map ord8 s) = map (chr8 \<circ> ord8) s"
    by (simp only: cstr_def map_map)
  then show ?thesis by (simp add: map_idI)
qed

section \<open>Bounded formatting\<close>

text \<open>\<^verbatim>\<open>snprintf(dst, cap, "%s", s)\<close> with \<open>cap > 0\<close>: at most \<open>cap - 1\<close> characters and a NUL.\<close>

definition snprintf_s :: "nat \<Rightarrow> string \<Rightarrow> string" where
  "snprintf_s cap s = take (cap - 1) s"

lemma snprintf_s_fits [simp, cstr_simps]: "length s < cap \<Longrightarrow> snprintf_s cap s = s"
  by (simp add: snprintf_s_def)

lemma length_snprintf_s: "length (snprintf_s cap s) \<le> cap - 1"
  by (simp add: snprintf_s_def)

lemma snprintf_s_less: "0 < cap \<Longrightarrow> length (snprintf_s cap s) < cap"
  using length_snprintf_s [of cap s] by simp

abbreviation NL :: string where "NL \<equiv> [CHR 0x0A]"

definition pad_right :: "nat \<Rightarrow> string \<Rightarrow> string" where
  "pad_right n s = s @ replicate (n - length s) CHR '' ''"

definition pad_left :: "nat \<Rightarrow> string \<Rightarrow> string" where
  "pad_left n s = replicate (n - length s) CHR '' '' @ s"

definition digit_char :: "nat \<Rightarrow> char" where
  "digit_char n = (if n < 10 then char_of (48 + n) else char_of (87 + n))"

fun show_base :: "nat \<Rightarrow> nat \<Rightarrow> string" where
  "show_base b n =
     (if b < 2 \<or> n < b then [digit_char n] else show_base b (n div b) @ [digit_char (n mod b)])"

declare show_base.simps [simp del]

abbreviation dec_nat :: "nat \<Rightarrow> string" where
  "dec_nat \<equiv> show_base 10"

abbreviation hex_nat :: "nat \<Rightarrow> string" where
  "hex_nat \<equiv> show_base 16"

definition dec_int :: "int \<Rightarrow> string" where
  "dec_int i = (if i < 0 then CHR ''-'' # dec_nat (nat (- i)) else dec_nat (nat i))"

definition zero_pad :: "nat \<Rightarrow> string \<Rightarrow> string" where
  "zero_pad n s = replicate (n - length s) CHR ''0'' @ s"

section \<open>Character classes\<close>

definition isspace :: "char \<Rightarrow> bool" where
  "isspace c \<longleftrightarrow> c \<in> set [CHR '' '', CHR 0x09, CHR 0x0A, CHR 0x0B, CHR 0x0C, CHR 0x0D]"

definition isdigit :: "char \<Rightarrow> bool" where
  "isdigit c \<longleftrightarrow> 48 \<le> (of_char c :: nat) \<and> (of_char c :: nat) \<le> 57"

definition hex_val :: "char \<Rightarrow> nat option" where
  "hex_val c = (let n = (of_char c :: nat) in
     if 48 \<le> n \<and> n \<le> 57 then Some (n - 48)
     else if 97 \<le> n \<and> n \<le> 102 then Some (n - 87)
     else if 65 \<le> n \<and> n \<le> 70 then Some (n - 55)
     else None)"

definition toupper :: "char \<Rightarrow> char" where
  "toupper c = (let n = (of_char c :: nat) in if 97 \<le> n \<and> n \<le> 122 then char_of (n - 32) else c)"

section \<open>The strtol family\<close>

definition num_of :: "nat \<Rightarrow> nat list \<Rightarrow> nat" where
  "num_of b ds = foldl (\<lambda>a d. b * a + d) 0 ds"

definition dec_val :: "char \<Rightarrow> nat" where
  "dec_val c = of_char c - 48"

fun split_sign :: "string \<Rightarrow> bool \<times> string" where
  "split_sign [] = (False, [])"
| "split_sign (c # cs) =
     (if c = CHR ''-'' then (True, cs) else if c = CHR ''+'' then (False, cs) else (False, c # cs))"

definition long_max :: int where "long_max = 9223372036854775807"
definition ulong_max :: int where "ulong_max = 18446744073709551615"

text \<open>\<^verbatim>\<open>strtol(s, &e, 10)\<close>: the value, the rest at \<open>e\<close> (all of \<open>s\<close> when there is no number),
  and whether \<^verbatim>\<open>errno\<close> is \<^verbatim>\<open>ERANGE\<close>.\<close>

definition strtol10 :: "string \<Rightarrow> int \<times> string \<times> bool" where
  "strtol10 s =
     (let (neg, u) = split_sign (dropWhile isspace s);
          ds = takeWhile isdigit u;
          v = int (num_of 10 (map dec_val ds));
          w = (if neg then - v else v)
      in if ds = [] then (0, s, False)
         else if w > long_max then (long_max, dropWhile isdigit u, True)
         else if w < - long_max - 1 then (- long_max - 1, dropWhile isdigit u, True)
         else (w, dropWhile isdigit u, False))"

definition atoi :: "string \<Rightarrow> int" where
  "atoi s = to_int32 (fst (strtol10 s))"

text \<open>\<^verbatim>\<open>strtoul(s, &e, base)\<close>: a leading minus negates modulo \<open>2\<^sup>6\<^sup>4\<close>, an overflow saturates.\<close>

definition strtoul_value :: "bool \<Rightarrow> nat \<Rightarrow> int" where
  "strtoul_value neg v =
     (if int v > ulong_max then ulong_max
      else if neg then (- int v) mod (ulong_max + 1) else int v)"

definition strtoul10 :: "string \<Rightarrow> int \<times> string" where
  "strtoul10 s =
     (let (neg, u) = split_sign (dropWhile isspace s); ds = takeWhile isdigit u
      in if ds = [] then (0, s)
         else (strtoul_value neg (num_of 10 (map dec_val ds)), dropWhile isdigit u))"

definition ishex :: "char \<Rightarrow> bool" where
  "ishex c \<longleftrightarrow> hex_val c \<noteq> None"

text \<open>The optional \<^verbatim>\<open>0x\<close> prefix counts only when a hexadecimal digit follows it.\<close>

fun skip_0x :: "string \<Rightarrow> string" where
  "skip_0x (a # b # c # cs) =
     (if a = CHR ''0'' \<and> (b = CHR ''x'' \<or> b = CHR ''X'') \<and> ishex c then c # cs else a # b # c # cs)"
| "skip_0x s = s"

definition strtoul16 :: "string \<Rightarrow> int \<times> string" where
  "strtoul16 s =
     (let (neg, u0) = split_sign (dropWhile isspace s); u = skip_0x u0; ds = takeWhile ishex u
      in if ds = [] then (0, s)
         else (strtoul_value neg (num_of 16 (map (the \<circ> hex_val) ds)), dropWhile ishex u))"

section \<open>Searching and splitting\<close>

text \<open>\<^verbatim>\<open>strchr\<close>, \<^verbatim>\<open>strrchr\<close> and \<^verbatim>\<open>strstr\<close> as the index of the match; \<open>None\<close> is the null pointer.\<close>

fun strchr :: "string \<Rightarrow> char \<Rightarrow> nat option" where
  "strchr [] c = None"
| "strchr (x # xs) c = (if x = c then Some 0 else map_option Suc (strchr xs c))"

fun strrchr :: "string \<Rightarrow> char \<Rightarrow> nat option" where
  "strrchr [] c = None"
| "strrchr (x # xs) c =
     (case strrchr xs c of Some i \<Rightarrow> Some (Suc i) | None \<Rightarrow> if x = c then Some 0 else None)"

fun strstr :: "string \<Rightarrow> string \<Rightarrow> nat option" where
  "strstr [] p = (if p = [] then Some 0 else None)"
| "strstr (x # xs) p = (if prefix p (x # xs) then Some 0 else map_option Suc (strstr xs p))"

text \<open>The tokens \<^verbatim>\<open>strtok_r\<close> yields one after the other: the maximal non-empty runs of
  characters that are not delimiters.\<close>

fun strtok_acc :: "(char \<Rightarrow> bool) \<Rightarrow> string \<Rightarrow> string \<Rightarrow> string list" where
  "strtok_acc p acc [] = (if acc = [] then [] else [rev acc])"
| "strtok_acc p acc (c # cs) =
     (if p c then (if acc = [] then strtok_acc p [] cs else rev acc # strtok_acc p [] cs)
      else strtok_acc p (c # acc) cs)"

definition strtok :: "string \<Rightarrow> string \<Rightarrow> string list" where
  "strtok delims s = strtok_acc (\<lambda>c. c \<in> set delims) [] s"

definition trim_left :: "(char \<Rightarrow> bool) \<Rightarrow> string \<Rightarrow> string" where
  "trim_left p s = dropWhile p s"

definition trim_right :: "(char \<Rightarrow> bool) \<Rightarrow> string \<Rightarrow> string" where
  "trim_right p s = rev (dropWhile p (rev s))"

definition is_blank :: "char \<Rightarrow> bool" where
  "is_blank c \<longleftrightarrow> c = CHR '' '' \<or> c = CHR 0x09"

section \<open>inet_ntop\<close>

definition inet_ntop4 :: "byte list \<Rightarrow> string" where
  "inet_ntop4 ip =
     dec_nat (unat (ip ! 0)) @ ''.'' @ dec_nat (unat (ip ! 1)) @ ''.'' @
     dec_nat (unat (ip ! 2)) @ ''.'' @ dec_nat (unat (ip ! 3))"

definition ip6_words :: "byte list \<Rightarrow> u16 list" where
  "ip6_words ip = map (\<lambda>i. be16 (ip ! (2 * i)) (ip ! (2 * i + 1))) [0..<8]"

definition zero_run :: "u16 list \<Rightarrow> nat \<Rightarrow> nat" where
  "zero_run ws i = length (takeWhile (\<lambda>w. w = 0) (drop i ws))"

text \<open>The first longest run of zero words, if it has at least two words.\<close>

definition best_run :: "u16 list \<Rightarrow> (nat \<times> nat) option" where
  "best_run ws =
     (let b = foldl (\<lambda>(bi, bl) i. if zero_run ws i > bl then (i, zero_run ws i) else (bi, bl))
                (0, 0) [0..<8]
      in if snd b < 2 then None else Some b)"

definition ip6_word_text :: "u16 list \<Rightarrow> byte list \<Rightarrow> nat \<times> nat \<Rightarrow> nat \<Rightarrow> string" where
  "ip6_word_text ws ip run i =
     (let (b, n) = run; quad = (b = 0 \<and> (n = 6 \<or> (n = 5 \<and> ws ! 5 = 0xffff)))
      in if b \<le> i \<and> i < b + n then (if i = b then '':'' else '''')
         else if quad \<and> i = 7 then ''''
         else (if i = 0 then '''' else '':'') @
              (if quad \<and> i = 6 then inet_ntop4 (drop 12 ip) else hex_nat (unat (ws ! i))))"

definition inet_ntop6 :: "byte list \<Rightarrow> string" where
  "inet_ntop6 ip =
     (let ws = ip6_words ip;
          run = (case best_run ws of None \<Rightarrow> (8, 0) | Some r \<Rightarrow> r)
      in concat (map (ip6_word_text ws ip run) [0..<8]) @
         (if snd run > 0 \<and> fst run + snd run = 8 then '':'' else ''''))"

section \<open>Facts about the library functions\<close>

lemma of_char_digit [simp]: "n < 10 \<Longrightarrow> (of_char (digit_char n) :: nat) = 48 + n"
  by (simp add: digit_char_def)

lemma isdigit_digit_char [simp]: "n < 10 \<Longrightarrow> isdigit (digit_char n)"
  by (simp add: isdigit_def)

lemma dec_val_digit_char [simp]: "n < 10 \<Longrightarrow> dec_val (digit_char n) = n"
  by (simp add: dec_val_def)

lemma show_base_nonempty [simp]: "show_base b n \<noteq> []"
  by (subst show_base.simps) simp

lemma dec_nat_digits: "c \<in> set (dec_nat n) \<Longrightarrow> isdigit c"
proof (induction "10 :: nat" n rule: show_base.induct)
  case (1 n)
  then show ?case by (subst (asm) (2) show_base.simps) (auto split: if_splits)
qed

lemma num_of_snoc [simp]: "num_of b (ds @ [d]) = b * num_of b ds + d"
  by (simp add: num_of_def)

lemma num_of_Nil [simp]: "num_of b [] = 0"
  by (simp add: num_of_def)

lemma num_of_less: "(\<forall>d \<in> set ds. d < b) \<Longrightarrow> num_of b ds < b ^ length ds"
proof (induction ds rule: rev_induct)
  case (snoc d ds)
  then have "num_of b ds + 1 \<le> b ^ length ds" "d < b" by auto
  then have "b * (num_of b ds + 1) \<le> b * b ^ length ds" by (intro mult_le_mono2)
  then show ?case using \<open>d < b\<close> by (simp add: algebra_simps)
qed simp

lemma hex_val_less: "ishex c \<Longrightarrow> the (hex_val c) < 16"
  by (auto simp: ishex_def hex_val_def Let_def split: if_splits)

lemma num_of_dec_nat [simp]: "num_of 10 (map dec_val (dec_nat n)) = n"
proof (induction "10 :: nat" n rule: show_base.induct)
  case (1 n)
  show ?case
  proof (cases "n < 10")
    case True
    then show ?thesis by (subst show_base.simps) (simp add: num_of_def)
  next
    case False
    with 1 have "num_of 10 (map dec_val (dec_nat (n div 10))) = n div 10" by simp
    with False show ?thesis by (subst show_base.simps) simp
  qed
qed

lemma isdigit_not_space: "isdigit c \<Longrightarrow> \<not> isspace c"
  by (auto simp: isdigit_def isspace_def)

lemma isdigit_not_sign: "isdigit c \<Longrightarrow> c \<noteq> CHR ''-'' \<and> c \<noteq> CHR ''+''"
  by (auto simp: isdigit_def)

lemma takeWhile_dropWhile_run:
  "(\<And>c. c \<in> set xs \<Longrightarrow> p c) \<Longrightarrow> (ys = [] \<or> \<not> p (hd ys)) \<Longrightarrow>
   takeWhile p (xs @ ys) = xs \<and> dropWhile p (xs @ ys) = ys"
  by (cases ys) (auto simp: takeWhile_append dropWhile_append)

text \<open>\<^verbatim>\<open>strtol\<close> reads back what \<^verbatim>\<open>%d\<close> printed and stops at the first character that is no digit.\<close>

lemma split_sign_digit: "isdigit c \<Longrightarrow> split_sign (c # cs) = (False, c # cs)"
  using isdigit_not_sign [of c] by simp

lemma dropWhile_space_digit: "isdigit c \<Longrightarrow> dropWhile isspace (c # cs) = c # cs"
  using isdigit_not_space [of c] by simp

lemma strtol10_dec_nat:
  assumes "int n \<le> long_max" and "rest = [] \<or> \<not> isdigit (hd rest)"
  shows "strtol10 (dec_nat n @ rest) = (int n, rest, False)"
proof -
  obtain c cs where c: "dec_nat n = c # cs" using show_base_nonempty [of 10 n] by (cases "dec_nat n") auto
  have dig: "isdigit c" using dec_nat_digits [of c n] c by simp
  have run: "takeWhile isdigit (dec_nat n @ rest) = dec_nat n \<and> dropWhile isdigit (dec_nat n @ rest) = rest"
    using takeWhile_dropWhile_run [of "dec_nat n" isdigit rest] dec_nat_digits assms(2) by blast
  have "split_sign (dropWhile isspace (dec_nat n @ rest)) = (False, dec_nat n @ rest)"
    using dig c by (simp only: c append_Cons dropWhile_space_digit split_sign_digit)
  moreover have "- long_max - 1 \<le> int n" by (simp add: long_max_def)
  ultimately show ?thesis
    using assms(1) run by (simp add: strtol10_def Let_def not_less)
qed

lemma strtol10_dec_nat_all [simp]: "int n \<le> long_max \<Longrightarrow> strtol10 (dec_nat n) = (int n, [], False)"
  using strtol10_dec_nat [of n "[]"] by simp

lemma strtoul10_dec_nat: "n \<le> 18446744073709551615 \<Longrightarrow> strtoul10 (dec_nat n) = (int n, [])"
proof -
  assume n: "n \<le> 18446744073709551615"
  have d: "isdigit c" if "c \<in> set (dec_nat n)" for c using dec_nat_digits [OF that] .
  obtain a r where s: "dec_nat n = a # r" using show_base_nonempty [of 10 n] by (cases "dec_nat n") auto
  have 1: "dropWhile isspace (dec_nat n) = dec_nat n" "split_sign (dec_nat n) = (False, dec_nat n)"
    using d [of a] isdigit_not_space [of a] isdigit_not_sign [of a] by (auto simp: s)
  have 2: "takeWhile isdigit (dec_nat n) = dec_nat n" "dropWhile isdigit (dec_nat n) = []"
    using d by (simp_all add: takeWhile_eq_all_conv)
  show ?thesis unfolding strtoul10_def Let_def 1 prod.case 2 using n by (simp add: strtoul_value_def ulong_max_def)
qed

lemma atoi_dec_nat: "n \<le> 2147483647 \<Longrightarrow> rest = [] \<or> \<not> isdigit (hd rest) \<Longrightarrow> atoi (dec_nat n @ rest) = int n"
  using strtol10_dec_nat [of n rest] by (simp add: atoi_def long_max_def)

lemma strtok_acc_nondelim:
  "(\<And>c. c \<in> set t \<Longrightarrow> \<not> p c) \<Longrightarrow> strtok_acc p acc (t @ s) = strtok_acc p (rev t @ acc) s"
  by (induction t arbitrary: acc) auto

lemma strtok_token:
  assumes "t \<noteq> []" "\<And>c. c \<in> set t \<Longrightarrow> c \<notin> set ds" "d \<in> set ds"
  shows "strtok ds (t @ d # s) = t # strtok ds s"
  using assms by (simp add: strtok_def strtok_acc_nondelim)

lemma strtok_last:
  assumes "t \<noteq> []" "\<And>c. c \<in> set t \<Longrightarrow> c \<notin> set ds"
  shows "strtok ds t = [t]"
  using assms strtok_acc_nondelim [of t "\<lambda>c. c \<in> set ds" "[]" "[]"] by (simp add: strtok_def)

lemma strtok_acc_nonempty: "t \<in> set (strtok_acc p acc s) \<Longrightarrow> t \<noteq> []"
  by (induction s arbitrary: acc) (auto split: if_splits)

lemma strtok_delim [simp]: "d \<in> set ds \<Longrightarrow> strtok ds (d # s) = strtok ds s"
  by (simp add: strtok_def)

lemma strchr_None [simp]: "strchr s c = None \<longleftrightarrow> c \<notin> set s"
  by (induction s) auto

lemma strchr_append: "c \<notin> set s \<Longrightarrow> strchr (s @ c # r) c = Some (length s)"
  by (induction s) auto

lemma strrchr_None [simp]: "strrchr s c = None \<longleftrightarrow> c \<notin> set s"
  by (induction s) (auto split: option.splits)

lemma strrchr_append: "c \<notin> set r \<Longrightarrow> strrchr (s @ c # r) c = Some (length s)"
proof (induction s)
  case Nil
  then show ?case by (simp add: option.case_eq_if)
qed auto

lemma strchr_less: "strchr s c = Some i \<Longrightarrow> i < length s \<and> s ! i = c \<and> c \<notin> set (take i s)"
  by (induction s arbitrary: i) (auto split: if_splits)

lemma strrchr_less: "strrchr s c = Some i \<Longrightarrow> i < length s \<and> s ! i = c"
  by (induction s arbitrary: i) (auto split: if_splits option.splits)

lemma strstr_absent: "a \<notin> set s \<Longrightarrow> strstr s (a # q) = None"
  by (induction s) auto

lemma strstr_less: "strstr s p = Some i \<Longrightarrow> i \<le> length s \<and> prefix p (drop i s)"
proof (induction s arbitrary: i)
  case (Cons a s)
  then show ?case by (cases i) (auto split: if_splits)
qed (auto split: if_splits)

lemma length_show_base: "1 < b \<Longrightarrow> n < b ^ Suc k \<Longrightarrow> length (show_base b n) \<le> Suc k"
proof (induction k arbitrary: n)
  case 0
  then show ?case by (subst show_base.simps) simp
next
  case (Suc k)
  have "n div b < b ^ Suc k" using Suc.prems by (simp add: less_mult_imp_div_less mult.commute)
  from Suc.IH [OF Suc.prems(1) this] show ?case by (subst show_base.simps) simp
qed

lemma length_dec_nat: "n < 10 ^ Suc k \<Longrightarrow> length (dec_nat n) \<le> Suc k"
  by (rule length_show_base) simp

lemma length_byte_text: "length (dec_nat (unat (b :: byte))) \<le> 3"
  using length_show_base [of 10 "unat b" 2] unat_byte_less [of b] by simp

lemma length_inet_ntop4: "length (inet_ntop4 ip) \<le> 15"
  using length_byte_text [of "ip ! 0"] length_byte_text [of "ip ! 1"] length_byte_text [of "ip ! 2"] length_byte_text [of "ip ! 3"]
  by (simp add: inet_ntop4_def)

lemma length_hex_word: "length (hex_nat (unat (w :: u16))) \<le> 4"
  using length_show_base [of 16 "unat w" 3] unat_u16_less [of w] by simp

lemma length_ip6_word_text:
  "length (ip6_word_text ws ip (b, n) i) \<le>
     (if b = 0 \<and> (n = 6 \<or> n = 5 \<and> ws ! 5 = 0xffff) then (if i = 0 then 1 else if i = 6 then 16 else if i = 7 then 1 else 5) else 5)"
  using length_hex_word [of "ws ! i"] length_inet_ntop4 [of "drop 12 ip"]
  by (auto simp: ip6_word_text_def Let_def)

lemma length_inet_ntop6: "length (inet_ntop6 ip) < 46"
proof -
  obtain b n where r: "(case best_run (ip6_words ip) of None \<Rightarrow> (8, 0) | Some r \<Rightarrow> r) = (b, n)" by fastforce
  let ?f = "\<lambda>i. length (ip6_word_text (ip6_words ip) ip (b, n) i)"
  have sum: "length (concat (map (ip6_word_text (ip6_words ip) ip (b, n)) [0..<8])) = ?f 0 + ?f 1 + ?f 2 + ?f 3 + ?f 4 + ?f 5 + ?f 6 + ?f 7"
    by (simp add: upt_rec numeral_eq_Suc)
  have "?f 0 + ?f 1 + ?f 2 + ?f 3 + ?f 4 + ?f 5 + ?f 6 + ?f 7 < 45"
    using length_ip6_word_text [of "ip6_words ip" ip b n 0] length_ip6_word_text [of "ip6_words ip" ip b n 1]
      length_ip6_word_text [of "ip6_words ip" ip b n 2] length_ip6_word_text [of "ip6_words ip" ip b n 3]
      length_ip6_word_text [of "ip6_words ip" ip b n 4] length_ip6_word_text [of "ip6_words ip" ip b n 5]
      length_ip6_word_text [of "ip6_words ip" ip b n 6] length_ip6_word_text [of "ip6_words ip" ip b n 7]
    by (simp split: if_splits)
  then show ?thesis using sum r by (simp add: inet_ntop6_def Let_def)
qed

lemma split_at:
  "a @ c # b = a' @ c # b' \<Longrightarrow> c \<notin> set a \<Longrightarrow> c \<notin> set a' \<Longrightarrow> a = a' \<and> b = b'"
  by (induction a arbitrary: a') (auto simp: Cons_eq_append_conv)

lemma dec_nat_inj: "dec_nat m = dec_nat n \<longleftrightarrow> m = n"
  using num_of_dec_nat [of m] num_of_dec_nat [of n] by metis

lemma no_sep_dec [simp]: "\<not> isdigit c \<Longrightarrow> c \<notin> set (dec_nat n)"
  using dec_nat_digits by blast

lemma not_digit_seps [simp]: "\<not> isdigit (CHR ''.'')" "\<not> isdigit (CHR '':'')" "\<not> isdigit (CHR ''|'')"
  by (simp_all add: isdigit_def)

lemma dec_int_inj: "dec_int a = dec_int b \<longleftrightarrow> a = b"
proof
  have minus: "CHR ''-'' \<notin> set (dec_nat n)" for n by (simp add: isdigit_def)
  assume "dec_int a = dec_int b"
  then show "a = b" using minus [of "nat a"] minus [of "nat b"] by (auto simp: dec_int_def dec_nat_inj split: if_splits)
      (metis list.set_intros(1))+
qed simp

lemma length_dec_int: "\<bar>p\<bar> < 10 ^ Suc k \<Longrightarrow> length (dec_int p) \<le> Suc (Suc k)"
  using length_dec_nat [of "nat \<bar>p\<bar>" k] by (auto simp: dec_int_def nat_less_iff split: if_splits)

lemma no_sep_dec_int: "\<not> isdigit c \<Longrightarrow> c \<noteq> CHR ''-'' \<Longrightarrow> c \<notin> set (dec_int n)"
  by (simp add: dec_int_def)

end
