(* ===== verification/Common.thy ===== *)
theory Common
  imports CLib
begin

text \<open>
  \<^verbatim>\<open>src/c/common.c\<close>: colour decision, ANSI colouring and shell quoting.

  The text a call produces is a pure function (\<open>clr\<close>, \<open>shquote\<close>); where that text lives, a
  rotating pool of sixteen 1 KB buffers indexed by a static \<^verbatim>\<open>int\<close>, is modelled separately
  (\<open>pool\<close>, \<open>pool_put\<close>). The lemmas show that sixteen results coexist, what a POSIX shell reads
  back from a quoted word, and where the buffer size shows through.
\<close>

section \<open>Definitions\<close>

subsection \<open>Colour decision\<close>

text \<open>The stream's file status: \<open>None\<close> for a null \<^verbatim>\<open>FILE *\<close> or a failing \<^verbatim>\<open>fstat\<close>, otherwise
  whether \<^verbatim>\<open>S_ISCHR\<close> holds.\<close>

definition is_terminal :: "bool option \<Rightarrow> bool" where
  "is_terminal st = (case st of None \<Rightarrow> False | Some ischr \<Rightarrow> ischr)"

definition want_color :: "bool \<Rightarrow> bool option \<Rightarrow> string option \<Rightarrow> bool" where
  "want_color force f no_color = (if force then True else is_terminal f \<and> no_color = None)"

subsection \<open>The rotating pools\<close>

definition POOL_N :: nat where "POOL_N = 16"
definition POOL_SZ :: nat where "POOL_SZ = 1024"

record pool =
  slot :: int
  bufs :: "nat \<Rightarrow> string"

text \<open>\<^verbatim>\<open>pool[slot++ % POOL_N] = txt\<close>. \<^verbatim>\<open>slot\<close> is a static \<^verbatim>\<open>int\<close>; C's remainder takes the sign of the
  dividend, so a negative slot gives a negative index. The result is the index written.\<close>

definition pool_put :: "string \<Rightarrow> pool \<Rightarrow> (nat \<times> pool) outcome" where
  "pool_put txt p =
     (let r = (if slot p < 0 then - ((- slot p) mod int POOL_N) else slot p mod int POOL_N)
      in if r < 0 then Inl OutOfBounds
         else Inr (nat r, p\<lparr>slot := to_int32 (slot p + 1), bufs := (bufs p)(nat r := txt)\<rparr>))"

fun pool_puts :: "string list \<Rightarrow> pool \<Rightarrow> (nat list \<times> pool) outcome" where
  "pool_puts [] p = Inr ([], p)"
| "pool_puts (t # ts) p =
     and_then (pool_put t p) (\<lambda>(i, p'). and_then (pool_puts ts p') (\<lambda>(is, p''). Inr (i # is, p'')))"

subsection \<open>clr\<close>

definition esc :: string where "esc = [CHR 0x1B] @ ''[''"

text \<open>A null \<open>s\<close> is \<open>None\<close>.\<close>

definition clr :: "bool \<Rightarrow> string \<Rightarrow> string option \<Rightarrow> string" where
  "clr on code s =
     (case s of None \<Rightarrow> ''''
      | Some t \<Rightarrow> if \<not> on \<or> t = '''' then t
                  else snprintf_s POOL_SZ (esc @ code @ ''m'' @ t @ esc @ ''0m''))"

subsection \<open>shquote\<close>

definition sh_meta :: string where
  "sh_meta = ''`^#*[]=|'' @ [CHR 0x5C] @ ''?${}()'' @ [CHR 0x27, CHR 0x22] @ ''<>&;'' @ [CHR 0x7F]"

definition sh_safe :: "char \<Rightarrow> bool" where
  "sh_safe c \<longleftrightarrow> \<not> ((of_char c :: nat) \<le> 32 \<or> c \<in> set sh_meta)"

definition sq :: char where "sq = CHR 0x27"

definition shq_piece :: "char \<Rightarrow> string" where
  "shq_piece c =
     (if c = sq then [sq, CHR 0x5C, sq, sq]
      else if c = CHR 0x0A then [sq, CHR ''$'', sq, CHR 0x5C, CHR ''n'', sq, sq]
      else [c])"

text \<open>The copying loop; \<open>w\<close> is the write position.\<close>

fun shq_loop :: "nat \<Rightarrow> string \<Rightarrow> string" where
  "shq_loop w [] = []"
| "shq_loop w (c # cs) =
     (if w < POOL_SZ - 8 then shq_piece c @ shq_loop (w + length (shq_piece c)) cs else [])"

definition shquote :: "string option \<Rightarrow> string" where
  "shquote so =
     (case so of None \<Rightarrow> [sq, sq]
      | Some s \<Rightarrow>
          if s = '''' then [sq, sq]
          else if list_all sh_safe s then snprintf_s POOL_SZ s
          else (let b = sq # shq_loop 1 s
                in if length b < POOL_SZ - 1 then b @ [sq] else b))"

subsection \<open>What a shell reads\<close>

text \<open>The word a POSIX shell with \<^verbatim>\<open>$'...'\<close> quoting reads from an unquoted, single-quoted or
  backslash-escaped text; \<open>None\<close> when the text is not one word without expansions. A leading
  tilde is subject to tilde expansion.\<close>

definition sh_literal :: "char \<Rightarrow> bool" where
  "sh_literal c \<longleftrightarrow> \<not> isspace c \<and> c \<notin> set (''|&;<>()$`*?[#={}'' @ [CHR 0x22, CHR 0x27, CHR 0x5C])"

definition prep :: "char \<Rightarrow> string option \<Rightarrow> string option" where
  "prep c r = map_option ((#) c) r"

fun sh_word :: "bool \<Rightarrow> string \<Rightarrow> string option" where
  "sh_word inq [] = (if inq then None else Some [])"
| "sh_word True (c # cs) = (if c = sq then sh_word False cs else prep c (sh_word True cs))"
| "sh_word False (c # cs) =
     (if c = sq then sh_word True cs
      else if c = CHR 0x5C then (case cs of [] \<Rightarrow> None | x # r \<Rightarrow> prep x (sh_word False r))
      else if c = CHR ''$'' then
        (case cs of a # b # n # e # r \<Rightarrow>
             if a = sq \<and> b = CHR 0x5C \<and> n = CHR ''n'' \<and> e = sq then prep (CHR 0x0A) (sh_word False r)
             else None
         | _ \<Rightarrow> None)
      else if sh_literal c then prep c (sh_word False cs) else None)"

definition sh_read :: "string \<Rightarrow> string option" where
  "sh_read w = (if w \<noteq> [] \<and> hd w = CHR 0x7E then None else sh_word False w)"

definition shq_len :: "string \<Rightarrow> nat" where
  "shq_len s = length (concat (map shq_piece s))"

section \<open>The pools\<close>

lemma pool_put_nonneg:
  assumes "0 \<le> slot p"
  shows "pool_put t p = Inr (nat (slot p mod 16),
           p\<lparr>slot := to_int32 (slot p + 1), bufs := (bufs p)(nat (slot p mod 16) := t)\<rparr>)"
  using assms by (simp add: pool_put_def POOL_N_def Let_def)

lemma pool_puts_spec:
  assumes "0 \<le> slot p" and "slot p + int (length ts) \<le> 2147483647"
  shows "\<exists>p'. pool_puts ts p = Inr (map (\<lambda>k. nat ((slot p + int k) mod 16)) [0..<length ts], p')
           \<and> slot p' = slot p + int (length ts)
           \<and> (\<forall>i. (\<forall>k<length ts. i \<noteq> nat ((slot p + int k) mod 16)) \<longrightarrow> bufs p' i = bufs p i)
           \<and> (length ts \<le> 16 \<longrightarrow> (\<forall>k<length ts. bufs p' (nat ((slot p + int k) mod 16)) = ts ! k))"
  using assms
proof (induction ts arbitrary: p)
  case Nil
  then show ?case by simp
next
  case (Cons t ts)
  define q where "q = p\<lparr>slot := to_int32 (slot p + 1), bufs := (bufs p)(nat (slot p mod 16) := t)\<rparr>"
  have put: "pool_put t p = Inr (nat (slot p mod 16), q)"
    using pool_put_nonneg [of p t] Cons.prems(1) by (simp add: q_def)
  have sq: "slot q = slot p + 1" using Cons.prems by (simp add: q_def)
  obtain p' where
    run: "pool_puts ts q = Inr (map (\<lambda>k. nat ((slot q + int k) mod 16)) [0..<length ts], p')"
    and sl: "slot p' = slot q + int (length ts)"
    and frame: "\<And>i. (\<forall>k<length ts. i \<noteq> nat ((slot q + int k) mod 16)) \<Longrightarrow> bufs p' i = bufs q i"
    and here: "length ts \<le> 16 \<Longrightarrow> k < length ts \<Longrightarrow> bufs p' (nat ((slot q + int k) mod 16)) = ts ! k" for k
    using Cons.IH [of q] Cons.prems sq by auto
  have shift: "(slot q + int k) mod 16 = (slot p + int (Suc k)) mod 16" for k
    by (simp add: sq algebra_simps)
  have idx: "map (\<lambda>k. nat ((slot p + int k) mod 16)) [0..<length (t # ts)]
      = nat (slot p mod 16) # map (\<lambda>k. nat ((slot q + int k) mod 16)) [0..<length ts]"
    by (simp add: shift upt_rec [of 0] map_Suc_upt [symmetric] del: upt_Suc map_Suc_upt) 
  have fr: "bufs p' i = bufs p i" if "\<forall>k<length (t # ts). i \<noteq> nat ((slot p + int k) mod 16)" for i
  proof -
    have "i \<noteq> nat (slot p mod 16)" using that by (auto dest: spec [of _ 0])
    moreover have "\<forall>k<length ts. i \<noteq> nat ((slot q + int k) mod 16)"
      using that by (auto simp: shift)
    ultimately show ?thesis using frame [of i] by (simp add: q_def)
  qed
  have hit: "bufs p' (nat ((slot p + int k) mod 16)) = (t # ts) ! k"
    if "length (t # ts) \<le> 16" "k < length (t # ts)" for k
  proof (cases k)
    case 0
    have "nat (slot p mod 16) \<noteq> nat ((slot q + int j) mod 16)" if "j < length ts" for j
    proof -
      have "int j + 1 < 16" using that \<open>length (t # ts) \<le> 16\<close> by simp
      then have "(slot p + (1 + int j)) mod 16 \<noteq> slot p mod 16" by presburger
      then have "(slot q + int j) mod 16 \<noteq> slot p mod 16" by (simp add: sq algebra_simps)
      then show ?thesis
        by (metis eq_nat_nat_iff pos_mod_sign zero_less_numeral)
    qed
    then have "bufs p' (nat (slot p mod 16)) = bufs q (nat (slot p mod 16))"
      using frame by blast
    then show ?thesis using 0 by (simp add: q_def)
  next
    case (Suc j)
    then have "bufs p' (nat ((slot q + int j) mod 16)) = ts ! j" using here [of j] that by simp
    then show ?thesis using Suc by (simp only: shift nth_Cons_Suc)
  qed
  have "pool_puts (t # ts) p
      = Inr (map (\<lambda>k. nat ((slot p + int k) mod 16)) [0..<length (t # ts)], p')"
    using put run idx by simp
  moreover have "slot p' = slot p + int (length (t # ts))" using sl sq by simp
  ultimately show ?case using fr hit by blast
qed

section \<open>Shell quoting\<close>

lemma shq_piece_length: "length (shq_piece c) \<le> 7" "1 \<le> length (shq_piece c)"
  by (simp_all add: shq_piece_def)

lemma shq_len_Cons [simp]: "shq_len (c # s) = length (shq_piece c) + shq_len s"
  by (simp add: shq_len_def)

lemma shq_loop_copies:
  "\<exists>k \<le> length s. shq_loop w s = concat (map shq_piece (take k s))
     \<and> (w + shq_len s \<le> 1016 \<longrightarrow> k = length s)"
proof (induction s arbitrary: w)
  case Nil
  then show ?case by simp
next
  case (Cons c s)
  show ?case
  proof (cases "w < 1016")
    case True
    obtain k where "k \<le> length s"
      "shq_loop (w + length (shq_piece c)) s = concat (map shq_piece (take k s))"
      "w + length (shq_piece c) + shq_len s \<le> 1016 \<longrightarrow> k = length s"
      using Cons.IH [of "w + length (shq_piece c)"] by blast
    with True show ?thesis
      by (intro exI [of _ "Suc k"]) (simp add: POOL_SZ_def)
  next
    case False
    then have "\<not> w + shq_len (c # s) \<le> 1016" using shq_piece_length(2) [of c] by simp
    with False show ?thesis by (intro exI [of _ 0]) (simp add: POOL_SZ_def)
  qed
qed

lemma shq_loop_bound: "w \<le> 1022 \<Longrightarrow> w + length (shq_loop w s) \<le> 1022"
proof (induction s arbitrary: w)
  case Nil
  then show ?case by simp
next
  case (Cons c s)
  show ?case
  proof (cases "w < 1016")
    case True
    then have "w + length (shq_piece c) \<le> 1022" using shq_piece_length(1) [of c] by linarith
    from Cons.IH [OF this] True show ?thesis by (simp add: POOL_SZ_def)
  next
    case False
    with Cons.prems show ?thesis by (simp add: POOL_SZ_def)
  qed
qed

lemma sh_safe_plain:
  "sh_safe c \<Longrightarrow> c \<noteq> sq \<and> c \<noteq> CHR 0x5C \<and> c \<noteq> CHR ''$''"
  by (auto simp: sh_safe_def sh_meta_def sq_def)

lemma shq_piece_safe: "sh_safe c \<Longrightarrow> shq_piece c = [c]"
proof -
  assume safe: "sh_safe c"
  have "\<not> sh_safe (CHR 0x0A)" by (simp add: sh_safe_def)
  with safe have "c \<noteq> CHR 0x0A" by blast
  with sh_safe_plain [OF safe] show ?thesis by (simp add: shq_piece_def)
qed

lemma sh_safe_literal: "sh_safe c \<Longrightarrow> sh_literal c"
proof -
  have "list_all (\<lambda>c. \<not> sh_safe c) (''|&;<>()$`*?[#={}'' @ [CHR 0x22, CHR 0x27, CHR 0x5C])"
    by (simp add: sh_safe_def sh_meta_def)
  moreover have "list_all (\<lambda>c. \<not> sh_safe c) [CHR '' '', CHR 0x09, CHR 0x0A, CHR 0x0B, CHR 0x0C, CHR 0x0D]"
    by (simp add: sh_safe_def)
  ultimately show "sh_safe c \<Longrightarrow> sh_literal c"
    unfolding list_all_iff sh_literal_def isspace_def by blast
qed

lemma sh_word_safe: "list_all sh_safe s \<Longrightarrow> sh_word False s = Some s"
  by (induction s) (auto simp: prep_def sh_safe_literal dest: sh_safe_plain)

lemma sh_word_piece:
  "sh_word True (shq_piece c @ r) = prep c (sh_word True r)"
  by (auto simp: shq_piece_def sq_def)

lemma sh_word_quoted:
  "sh_word True (concat (map shq_piece s) @ [sq]) = Some s"
  by (induction s) (auto simp: sh_word_piece prep_def)

lemma shquote_unsafe:
  assumes "\<not> list_all sh_safe s"
  shows "shquote (Some s) = sq # shq_loop 1 s @ [sq]"
proof -
  have "length (shq_loop 1 s) < 1022" using shq_loop_bound [of 1 s] by simp
  moreover have "s \<noteq> []" using assms by auto
  ultimately show ?thesis using assms by (simp add: shquote_def POOL_SZ_def)
qed

text \<open>
  C22. Quoting is sound for the shell: whatever the word, what a POSIX shell reads back from
  \<^verbatim>\<open>shquote(s)\<close> is a prefix of \<open>s\<close>, also when the 1 KB buffer cuts the word short, so the
  quoted text is never unbalanced and never expands; and it is all of \<open>s\<close> whenever the quoted
  form needs at most 1015 characters. The hypothesis excludes the one word the test for safe
  characters lets through although a shell expands it: one that starts with a tilde.
\<close>

theorem shquote_roundtrip:
  assumes "\<not> (list_all sh_safe s \<and> s \<noteq> [] \<and> hd s = CHR 0x7E)"
  shows "\<exists>k \<le> length s. sh_read (shquote (Some s)) = Some (take k s)
           \<and> (shq_len s \<le> 1015 \<longrightarrow> k = length s)"
proof (cases "list_all sh_safe s")
  case True
  have "map shq_piece s = map (\<lambda>c. [c]) s" using True shq_piece_safe by (auto simp: list_all_iff)
  then have "shq_len s = length (concat (map (\<lambda>c. [c]) s))" by (simp only: shq_len_def)
  then have len: "shq_len s = length s" by simp
  show ?thesis
  proof (cases s)
    case Nil
    then show ?thesis by (simp add: shquote_def sh_read_def sq_def)
  next
    case (Cons c t)
    with True assms have "c \<noteq> CHR 0x7E" by simp
    moreover have "list_all sh_safe (take 1023 s)" using True by (auto simp: list_all_iff dest: in_set_takeD)
    ultimately have "sh_read (shquote (Some s)) = Some (take 1023 s)"
      using True Cons sh_word_safe [of "take 1023 s"]
      by (simp add: shquote_def sh_read_def snprintf_s_def POOL_SZ_def)
    then have "sh_read (shquote (Some s)) = Some (take (min 1023 (length s)) s)"
      by (simp add: min_def)
    then show ?thesis using len by (intro exI [of _ "min 1023 (length s)"]) auto
  qed
next
  case False
  obtain k where "k \<le> length s" and k: "shq_loop 1 s = concat (map shq_piece (take k s))"
    and full: "1 + shq_len s \<le> 1016 \<longrightarrow> k = length s"
    using shq_loop_copies [of s 1] by blast
  have "sh_read (shquote (Some s)) = sh_word True (concat (map shq_piece (take k s)) @ [sq])"
    using shquote_unsafe [OF False] k by (simp add: sh_read_def sq_def)
  also have "\<dots> = Some (take k s)" by (rule sh_word_quoted)
  finally show ?thesis using \<open>k \<le> length s\<close> full by auto
qed

theorem shquote_roundtrip_witness:
  "sh_read (shquote (Some (''it'' @ [sq] ))) = Some (''it'' @ [sq])"
proof -
  have "\<not> (list_all sh_safe (''it'' @ [sq]) \<and> ''it'' @ [sq] \<noteq> [] \<and> hd (''it'' @ [sq]) = CHR 0x7E)"
    by simp
  from shquote_roundtrip [OF this] show ?thesis
    by (simp add: shq_len_def shq_piece_def sq_def)
qed

text \<open>
  The buffer size shows through: a word of safe characters longer than 1023 is printed without
  its end, so the shell reads a different word, and a tilde is not quoted at all. The header
  promises a rendering identical to the Go tracer's byte for byte.
\<close>

theorem shquote_cuts_long_words:
  "list_all sh_safe s \<Longrightarrow> 1023 < length s \<Longrightarrow> hd s \<noteq> CHR 0x7E \<Longrightarrow>
     length (shquote (Some s)) = 1023 \<and> sh_read (shquote (Some s)) \<noteq> Some s
     \<and> sh_read (shquote (Some ''~root'')) = None"
proof -
  assume safe: "list_all sh_safe s" and long: "1023 < length s" and hd: "hd s \<noteq> CHR 0x7E"
  have q: "shquote (Some s) = take 1023 s"
    using safe long by (auto simp: shquote_def snprintf_s_def POOL_SZ_def)
  have "list_all sh_safe (take 1023 s)" using safe by (auto simp: list_all_iff dest: in_set_takeD)
  then have "sh_read (shquote (Some s)) = Some (take 1023 s)"
    using q hd long sh_word_safe by (simp add: sh_read_def)
  moreover have "take 1023 s \<noteq> s" using long by (metis length_take min.absorb4 nat_neq_iff)
  moreover have "sh_read (shquote (Some ''~root'')) = None"
    by (simp add: shquote_def sh_read_def sh_safe_def sh_meta_def POOL_SZ_def)
  ultimately show ?thesis using q long by simp
qed

theorem shquote_cuts_long_words_witness:
  "length (shquote (Some (replicate 2000 (CHR ''a'')))) = 1023"
  using shquote_cuts_long_words [of "replicate 2000 (CHR ''a'')"]
  by (simp add: list_all_iff sh_safe_def sh_meta_def)

text \<open>Neither function writes past its buffer of 1024 bytes.\<close>

lemma shquote_fits: "length (shquote so) \<le> 1023"
proof (cases so)
  case None
  then show ?thesis by (simp add: shquote_def)
next
  case (Some s)
  show ?thesis
  proof (cases "list_all sh_safe s")
    case True
    then show ?thesis using Some by (simp add: shquote_def snprintf_s_def POOL_SZ_def)
  next
    case False
    then show ?thesis using Some shquote_unsafe [OF False] shq_loop_bound [of 1 s] by simp
  qed
qed

text \<open>A coloured field is the text between its escape sequences, unless it is so long that the
  buffer drops the reset.\<close>

lemma clr_fits:
  "t \<noteq> [] \<Longrightarrow> length code + length t \<le> 1016 \<Longrightarrow>
   clr True code (Some t) = esc @ code @ ''m'' @ t @ esc @ ''0m''"
  by (simp add: clr_def esc_def POOL_SZ_def)

lemma clr_off [simp]: "clr False code (Some t) = t"
  by (simp add: clr_def)

lemma clr_empty [simp]: "clr on code (Some []) = []"
  by (simp add: clr_def)

text \<open>
  Sixteen results coexist: starting from any slot that is not negative, the texts of up to
  sixteen calls are all still in their buffers after the last of them, which is what lets one
  \<^verbatim>\<open>printf\<close> take several coloured fields.
\<close>

theorem pool_results_coexist:
  assumes "0 \<le> slot p" and "slot p + int (length ts) \<le> 2147483647" and "length ts \<le> 16"
  shows "\<exists>is p'. pool_puts ts p = Inr (is, p') \<and> length is = length ts
           \<and> (\<forall>k<length ts. is ! k < POOL_N \<and> bufs p' (is ! k) = ts ! k)"
proof -
  obtain p' where run: "pool_puts ts p = Inr (map (\<lambda>k. nat ((slot p + int k) mod 16)) [0..<length ts], p')"
    and hit: "\<forall>k<length ts. bufs p' (nat ((slot p + int k) mod 16)) = ts ! k"
    using pool_puts_spec [OF assms(1,2)] assms(3) by blast
  have "nat ((slot p + int k) mod 16) < POOL_N" for k
    by (simp add: POOL_N_def nat_less_iff)
  with run hit show ?thesis
    by (intro exI [of _ "map (\<lambda>k. nat ((slot p + int k) mod 16)) [0..<length ts]"] exI [of _ p']) simp
qed

theorem pool_results_coexist_witness:
  "\<exists>is p'. pool_puts [''a'', ''b''] \<lparr>slot = 15, bufs = \<lambda>_. ''''\<rparr> = Inr (is, p') \<and> length is = 2
     \<and> (\<forall>k<2. is ! k < POOL_N \<and> bufs p' (is ! k) = [''a'', ''b''] ! k)"
  using pool_results_coexist [of "\<lparr>slot = 15, bufs = \<lambda>_. ''''\<rparr>" "[''a'', ''b'']"] 
  by (simp add: numeral_2_eq_2 del: pool_puts.simps)

text \<open>
  The pool index is a static \<^verbatim>\<open>int\<close> that is only ever incremented: once it has wrapped to a
  negative value that is no multiple of sixteen, the remainder is negative and the next call
  writes before the pool.
\<close>

theorem pool_wraps_out_of_bounds:
  "pool_put t \<lparr>slot = to_int32 (2147483647 + 2), bufs = b\<rparr> = Inl OutOfBounds"
  by (simp add: pool_put_def POOL_N_def to_int32_def Let_def)

end
