(* ===== verification/Dispatch.thy ===== *)
theory Dispatch
  imports Common
begin

text \<open>
  \<^verbatim>\<open>src/c/tracep.c\<close>: the table of subcommands and the dispatcher. The five entry points are an
  argument of \<open>tracep_main\<close> (each tracer has its own theory); what the dispatcher writes to
  stdout and stderr is part of its result.
\<close>

section \<open>Definitions\<close>

datatype subcommand = Net | Tls | Dns | Exec | Ca

definition subcommands :: "(string \<times> string \<times> subcommand) list" where
  "subcommands =
     [(''net'',  ''trace per-process network connections'', Net),
      (''tls'',  ''trace per-process TLS handshakes'',      Tls),
      (''dns'',  ''trace per-process DNS queries'',         Dns),
      (''exec'', ''trace per-process exec syscalls'',       Exec),
      (''ca'',   ''fetch a host'' @ [sq] @ ''s TLS CA chain'', Ca)]"

definition em_dash :: string where "em_dash = [CHR 0xE2, CHR 0x80, CHR 0x94]"
definition newline :: string where "newline = [CHR 0x0A]"

definition usage :: "string \<Rightarrow> string" where
  "usage version =
     ''tracep '' @ version @ '' '' @ em_dash @ '' trace a process'' @ [sq] @
       ''s net, TLS, DNS & exec activity'' @ newline @ newline @
     ''usage: tracep <command> [flags]'' @ newline @ newline @ ''commands:'' @ newline @
     concat (map (\<lambda>(n, d, _). ''  '' @ pad_right 6 n @ '' '' @ d @ newline) subcommands) @
     newline @ ''run '' @ [sq] @ ''tracep <command> -h'' @ [sq] @ '' for command-specific flags'' @ newline"

record result =
  stdout :: string
  stderr :: string
  status :: int

text \<open>\<^verbatim>\<open>argv\<close> has the program name first; \<open>run\<close> gives a subcommand's result for its own \<^verbatim>\<open>argv\<close>.\<close>

fun find_sub :: "(string \<times> string \<times> subcommand) list \<Rightarrow> string \<Rightarrow> subcommand option" where
  "find_sub [] s = None"
| "find_sub ((n, d, c) # rest) s = (if n \<noteq> s then find_sub rest s else Some c)"

definition tracep_main :: "string \<Rightarrow> (subcommand \<Rightarrow> string list \<Rightarrow> result) \<Rightarrow> string list \<Rightarrow> result" where
  "tracep_main version run argv =
     (if length argv < 2 then \<lparr>stdout = [], stderr = usage version, status = 2\<rparr>
      else
        let sub = argv ! 1 in
        if sub = ''-h'' \<or> sub = ''--help'' \<or> sub = ''help'' then
          \<lparr>stdout = [], stderr = usage version, status = 0\<rparr>
        else if sub = ''-v'' \<or> sub = ''--version'' \<or> sub = ''version'' then
          \<lparr>stdout = ''tracep '' @ version @ newline, stderr = [], status = 0\<rparr>
        else case find_sub subcommands sub of
            Some c \<Rightarrow> run c (snprintf_s 64 (''tracep '' @ sub) # drop 2 argv)
          | None \<Rightarrow> \<lparr>stdout = [],
                     stderr = ''tracep: unknown command '' @ [CHR 0x22] @ sub @ [CHR 0x22] @
                              newline @ newline @ usage version,
                     status = 2\<rparr>)"

section \<open>Facts\<close>

lemma find_sub_complete: "(n, d, c) \<in> set subcommands \<Longrightarrow> find_sub subcommands n = Some c"
  by (auto simp: subcommands_def)

lemma find_sub_sound: "find_sub tab s = Some c \<Longrightarrow> \<exists>d. (s, d, c) \<in> set tab"
  by (induction tab s rule: find_sub.induct) (auto split: if_splits)

text \<open>
  Dispatch: each of the five names runs exactly its own tracer, with \<^verbatim>\<open>argv[0]\<close> rewritten to
  \<^verbatim>\<open>"tracep <name>"\<close> and the remaining arguments passed on unchanged; whenever the dispatcher does
  not run a tracer it exits with 0 or 2, and 0 only for the help and version words.
\<close>

theorem dispatch_runs_named_tracer:
  assumes "(n, d, c) \<in> set subcommands"
  shows "tracep_main v run (prog # n # args) = run c ((''tracep '' @ n) # args)"
proof -
  have len: "length n \<le> 4" and "n \<noteq> ''-h''" "n \<noteq> ''--help''" "n \<noteq> ''help''" "n \<noteq> ''-v''"
    "n \<noteq> ''--version''" "n \<noteq> ''version''"
    using assms by (auto simp: subcommands_def)
  moreover have "snprintf_s 64 (''tracep '' @ n) = ''tracep '' @ n" using len by simp
  ultimately show ?thesis
    using find_sub_complete [OF assms] by (simp add: tracep_main_def)
qed

theorem dispatch_runs_named_tracer_witness:
  "tracep_main ''dev'' (\<lambda>c a. \<lparr>stdout = concat a, stderr = [], status = 0\<rparr>) [''tracep'', ''dns'', ''-j'']
     = \<lparr>stdout = ''tracep dns-j'', stderr = [], status = 0\<rparr>"
  using dispatch_runs_named_tracer [of "''dns''" "''trace per-process DNS queries''" Dns]
  by (simp add: subcommands_def)

text \<open>
  No tracer is started for any other first argument: the exit status is 2 without a command or
  with an unknown one, and 0 exactly for the help and version words.
\<close>

theorem dispatch_other_words:
  assumes "\<forall>n d c. (n, d, c) \<in> set subcommands \<longrightarrow> argv ! 1 \<noteq> n"
  shows "status (tracep_main v run argv) =
           (if 2 \<le> length argv \<and> argv ! 1 \<in> set [''-h'', ''--help'', ''help'', ''-v'', ''--version'', ''version'']
            then 0 else 2)"
proof -
  have "find_sub subcommands (argv ! 1) = None"
    using assms find_sub_sound [of subcommands "argv ! 1"] by (cases "find_sub subcommands (argv ! 1)") auto
  then show ?thesis by (simp add: tracep_main_def Let_def)
qed

theorem dispatch_other_words_witness:
  "status (tracep_main ''dev'' (\<lambda>c a. \<lparr>stdout = [], stderr = [], status = 7\<rparr>) [''tracep'', ''bogus'']) = 2"
  using dispatch_other_words [of "[''tracep'', ''bogus'']" "''dev''"] by (simp add: subcommands_def)

end
