(* ===== verification/Probe.thy ===== *)
theory Probe
  imports Prelude
begin

text \<open>
  Open addressing with linear probing over 16384 slots, the scheme of the process tables of
  \<^verbatim>\<open>src/c/exec.c\<close> (\<^verbatim>\<open>pidDB\<close> on Linux, \<^verbatim>\<open>macDB\<close> on macOS). The two tables share their code up to
  the fields an entry has beyond \<^verbatim>\<open>used\<close> and \<^verbatim>\<open>pid\<close>, so the operations are stated once over an
  extensible record; the field-dependent statements (zeroing a fresh entry, clearing a freed one,
  copying a reinserted one) are their arguments, and the locale \<open>probe_entry\<close> states what they
  promise. The locale \<open>pid_map\<close> is the interface the event handlers rely on.
\<close>

section \<open>Definitions\<close>

abbreviation CAP :: nat where "CAP \<equiv> 16384"

record probe_ent =
  used :: bool
  e_pid :: i32

record 'e ptable =
  tab :: "nat \<Rightarrow> 'e"
  plen :: int

text \<open>\<^verbatim>\<open>for (k = 0; k < n; k++) if (stop) break;\<close>: the first index that stops the loop.\<close>

function for_first :: "(nat \<Rightarrow> bool) \<Rightarrow> nat \<Rightarrow> nat \<Rightarrow> nat option" where
  "for_first stop n k = (if k < n then (if stop k then Some k else for_first stop n (Suc k)) else None)"
  by pat_completeness auto
termination
  by (relation "measure (\<lambda>(stop, n, k). n - k)") auto

declare for_first.simps [simp del]

text \<open>\<^verbatim>\<open>((unsigned)pid * 2654435761u) & (CAP - 1)\<close> and \<^verbatim>\<open>(i + probe) & (CAP - 1)\<close>.\<close>

definition pid_hash :: "i32 \<Rightarrow> u32" where
  "pid_hash p = (p * 2654435761) AND 16383"

definition probe_ix :: "u32 \<Rightarrow> nat \<Rightarrow> nat" where
  "probe_ix h k = unat ((h + of_nat k) AND 16383)"

text \<open>The entry a pointer points to is named by its slot; a null pointer is \<open>None\<close>.\<close>

definition probe_find :: "'a probe_ent_scheme ptable \<Rightarrow> i32 \<Rightarrow> nat option" where
  "probe_find db p =
     (let h = pid_hash p; slot = (\<lambda>k. tab db (probe_ix h k))
      in case for_first (\<lambda>k. \<not> used (slot k) \<or> e_pid (slot k) = p) CAP 0 of
           None \<Rightarrow> None
         | Some k \<Rightarrow> if \<not> used (slot k) then None else Some (probe_ix h k))"

definition probe_get ::
  "(i32 \<Rightarrow> 'a probe_ent_scheme) \<Rightarrow> 'a probe_ent_scheme ptable \<Rightarrow> i32
     \<Rightarrow> (nat \<times> bool \<times> 'a probe_ent_scheme ptable) option" where
  "probe_get fresh db p =
     (let h = pid_hash p; slot = (\<lambda>k. tab db (probe_ix h k))
      in case for_first (\<lambda>k. (used (slot k) \<and> e_pid (slot k) = p) \<or> \<not> used (slot k)) CAP 0 of
           None \<Rightarrow> None
         | Some k \<Rightarrow>
             if used (slot k) then Some (probe_ix h k, False, db)
             else Some (probe_ix h k, True,
                        db\<lparr>tab := (tab db)(probe_ix h k := fresh p), plen := plen db + 1\<rparr>))"

text \<open>Reinserting the cluster behind a hole; the loop runs until it meets an unused slot.\<close>

fun probe_rehash ::
  "(i32 \<Rightarrow> 'a probe_ent_scheme) \<Rightarrow> ('a probe_ent_scheme \<Rightarrow> 'a probe_ent_scheme)
     \<Rightarrow> ('a probe_ent_scheme \<Rightarrow> 'a probe_ent_scheme \<Rightarrow> 'a probe_ent_scheme)
     \<Rightarrow> nat \<Rightarrow> nat \<Rightarrow> 'a probe_ent_scheme ptable \<Rightarrow> 'a probe_ent_scheme ptable outcome" where
  "probe_rehash fresh clear copy 0 j db = Inl OutOfFuel"
| "probe_rehash fresh clear copy (Suc fuel) j db =
     (let j' = probe_ix (of_nat j) 1; tmp = tab db j'
      in if \<not> used tmp then Inr db
         else case probe_get fresh (db\<lparr>tab := (tab db)(j' := clear tmp), plen := plen db - 1\<rparr>) (e_pid tmp) of
             None \<Rightarrow> Inl NullDeref
           | Some (i, created, db') \<Rightarrow>
               probe_rehash fresh clear copy fuel j' (db'\<lparr>tab := (tab db')(i := copy tmp (tab db' i))\<rparr>))"

definition probe_delete ::
  "(i32 \<Rightarrow> 'a probe_ent_scheme) \<Rightarrow> ('a probe_ent_scheme \<Rightarrow> 'a probe_ent_scheme)
     \<Rightarrow> ('a probe_ent_scheme \<Rightarrow> 'a probe_ent_scheme \<Rightarrow> 'a probe_ent_scheme)
     \<Rightarrow> 'a probe_ent_scheme ptable \<Rightarrow> i32 \<Rightarrow> 'a probe_ent_scheme ptable outcome" where
  "probe_delete fresh clear copy db p =
     (case probe_find db p of
        None \<Rightarrow> Inr db
      | Some s \<Rightarrow>
          probe_rehash fresh clear copy CAP s
            (db\<lparr>tab := (tab db)(s := clear (tab db s)), plen := plen db - 1\<rparr>))"

subsection \<open>Invariant and abstraction\<close>

definition home :: "'a probe_ent_scheme \<Rightarrow> nat" where
  "home e = unat (pid_hash (e_pid e))"

definition dist :: "nat \<Rightarrow> nat \<Rightarrow> nat" where
  "dist a b = (b + CAP - a) mod CAP"

text \<open>Every slot from \<open>h\<close> up to, and not including, \<open>i\<close> is used.\<close>

definition path_used :: "(nat \<Rightarrow> 'a probe_ent_scheme) \<Rightarrow> nat \<Rightarrow> nat \<Rightarrow> bool" where
  "path_used T h i \<longleftrightarrow> (\<forall>s < CAP. dist h s < dist h i \<longrightarrow> used (T s))"

definition path_ok :: "(nat \<Rightarrow> 'a probe_ent_scheme) \<Rightarrow> nat \<Rightarrow> bool" where
  "path_ok T i \<longleftrightarrow> path_used T (home (T i)) i"

definition keys_distinct :: "(nat \<Rightarrow> 'a probe_ent_scheme) \<Rightarrow> bool" where
  "keys_distinct T \<longleftrightarrow>
     (\<forall>i < CAP. \<forall>j < CAP. used (T i) \<and> used (T j) \<and> e_pid (T i) = e_pid (T j) \<longrightarrow> i = j)"

definition used_slots :: "(nat \<Rightarrow> 'a probe_ent_scheme) \<Rightarrow> nat set" where
  "used_slots T = {i. i < CAP \<and> used (T i)}"

definition probe_ok :: "'a probe_ent_scheme ptable \<Rightarrow> bool" where
  "probe_ok db \<longleftrightarrow> (\<forall>i < CAP. used (tab db i) \<longrightarrow> path_ok (tab db) i) \<and> keys_distinct (tab db)
     \<and> plen db = int (card (used_slots (tab db)))"

definition entries :: "(nat \<Rightarrow> 'a probe_ent_scheme) \<Rightarrow> 'a probe_ent_scheme set" where
  "entries T = T ` used_slots T"

definition lookup :: "'a probe_ent_scheme ptable \<Rightarrow> i32 \<Rightarrow> 'a probe_ent_scheme option" where
  "lookup db p = map_option (tab db) (probe_find db p)"

definition not_full :: "'a probe_ent_scheme ptable \<Rightarrow> bool" where
  "not_full db \<longleftrightarrow> plen db < int CAP"

section \<open>Index arithmetic\<close>

lemma for_first_Some_iff:
  "for_first stop n k = Some m \<longleftrightarrow> k \<le> m \<and> m < n \<and> stop m \<and> (\<forall>j. k \<le> j \<and> j < m \<longrightarrow> \<not> stop j)"
proof (induction stop n k rule: for_first.induct)
  case (1 stop n k)
  show ?case
  proof (cases "k < n \<and> \<not> stop k")
    case True
    then have "for_first stop n k = Some m \<longleftrightarrow> for_first stop n (Suc k) = Some m"
      by (subst for_first.simps) simp
    also have "\<dots> \<longleftrightarrow> Suc k \<le> m \<and> m < n \<and> stop m \<and> (\<forall>j. Suc k \<le> j \<and> j < m \<longrightarrow> \<not> stop j)"
      using 1 True by simp
    also have "\<dots> \<longleftrightarrow> k \<le> m \<and> m < n \<and> stop m \<and> (\<forall>j. k \<le> j \<and> j < m \<longrightarrow> \<not> stop j)"
      using True by (metis Suc_leD Suc_leI le_neq_implies_less)
    finally show ?thesis .
  next
    case False
    then show ?thesis by (subst for_first.simps) (auto intro: le_neq_implies_less)
  qed
qed

lemma for_first_None_iff: "for_first stop n k = None \<longleftrightarrow> (\<forall>j. k \<le> j \<and> j < n \<longrightarrow> \<not> stop j)"
proof (induction stop n k rule: for_first.induct)
  case (1 stop n k)
  show ?case
  proof (cases "k < n \<and> \<not> stop k")
    case True
    then have "for_first stop n k = None \<longleftrightarrow> for_first stop n (Suc k) = None"
      by (subst for_first.simps) simp
    also have "\<dots> \<longleftrightarrow> (\<forall>j. Suc k \<le> j \<and> j < n \<longrightarrow> \<not> stop j)" using 1 True by simp
    also have "\<dots> \<longleftrightarrow> (\<forall>j. k \<le> j \<and> j < n \<longrightarrow> \<not> stop j)"
      using True by (metis Suc_leD Suc_leI le_neq_implies_less)
    finally show ?thesis .
  next
    case False
    then show ?thesis by (subst for_first.simps) auto
  qed
qed

lemma unat_mask14: "unat (w AND 16383 :: u32) = unat w mod CAP"
proof -
  have "w AND 16383 = take_bit 14 w" by (simp add: take_bit_eq_mask mask_eq_exp_minus_1)
  also have "unat (take_bit 14 w) = take_bit 14 (unat w)" by (rule unsigned_take_bit_eq)
  also have "take_bit 14 (unat w) = unat w mod CAP" by (simp add: take_bit_eq_mod)
  finally show ?thesis .
qed

lemma probe_ix_mod: "probe_ix h k = (unat h + k) mod CAP"
proof -
  have "unat (h + of_nat k) = (unat h + k) mod 4294967296"
    by (simp add: unat_word_ariths unsigned_of_nat take_bit_eq_mod mod_simps)
  then show ?thesis unfolding probe_ix_def unat_mask14 by (simp add: mod_mod_cancel)
qed

lemma home_less [simp]: "home e < CAP"
  unfolding home_def pid_hash_def unat_mask14 by simp

lemma probe_ix_hash: "probe_ix (pid_hash (e_pid e)) k = (home e + k) mod CAP"
  by (simp add: probe_ix_mod home_def)

lemma probe_ix_succ: "j < CAP \<Longrightarrow> probe_ix (of_nat j) 1 = (j + 1) mod CAP"
  by (simp add: probe_ix_mod unsigned_of_nat take_bit_eq_mod)

lemma probe_ix_less [simp]: "probe_ix h k < CAP"
  by (simp add: probe_ix_mod)

lemma mod_CAP: "a < CAP \<Longrightarrow> k < CAP \<Longrightarrow> (a + k) mod CAP = (if a + k < CAP then a + k else a + k - CAP)"
  by (simp add: mod_if)

lemma dist_if: "a < CAP \<Longrightarrow> b < CAP \<Longrightarrow> dist a b = (if a \<le> b then b - a else b + CAP - a)"
  unfolding dist_def by (simp add: mod_if)

lemma dist_less [simp]: "dist a b < CAP"
  by (simp add: dist_def)

lemma dist_add: "a < CAP \<Longrightarrow> b < CAP \<Longrightarrow> (a + dist a b) mod CAP = b"
  by (simp add: mod_CAP) (simp add: dist_if)

lemma dist_unique: "a < CAP \<Longrightarrow> k < CAP \<Longrightarrow> dist a ((a + k) mod CAP) = k"
  by (simp add: mod_CAP dist_if) arith

lemma slots_apart: "j < CAP \<Longrightarrow> x < CAP \<Longrightarrow> y < CAP \<Longrightarrow> (j + x) mod CAP = (j + y) mod CAP \<Longrightarrow> x = y"
  by (metis dist_unique)

text \<open>
  A used path from \<open>home\<close> to a slot beyond \<open>j\<close> cannot run over an unused slot: if \<open>j\<close> lies on the
  path of slot \<open>i\<close> and the slot \<open>n\<close> steps behind \<open>j\<close> does not, then \<open>i\<close> is less than \<open>n\<close> steps
  behind \<open>j\<close>.
\<close>

lemma on_path_near:
  assumes "h < CAP" "i < CAP" "j < CAP" "0 < n" "n < CAP"
    and "dist h j < dist h i" "\<not> dist h ((j + n) mod CAP) \<le> dist h i"
  shows "0 < dist j i \<and> dist j i < n"
  using assms by (simp add: mod_CAP dist_if split: if_splits; arith)

section \<open>Lookup and insertion\<close>

lemma probe_okD:
  assumes "probe_ok db"
  shows "\<And>i. i < CAP \<Longrightarrow> used (tab db i) \<Longrightarrow> path_ok (tab db) i"
    and "keys_distinct (tab db)"
    and "plen db = int (card (used_slots (tab db)))"
  using assms by (auto simp: probe_ok_def)

lemma keys_distinctD:
  "keys_distinct T \<Longrightarrow> used (T i) \<Longrightarrow> used (T j) \<Longrightarrow> e_pid (T i) = e_pid (T j) \<Longrightarrow> i < CAP \<Longrightarrow> j < CAP \<Longrightarrow> i = j"
  by (auto simp: keys_distinct_def)

lemma probe_slot_dist: "dist (unat (pid_hash p)) (probe_ix (pid_hash p) k) = k" if "k < CAP"
  using that home_less [of "\<lparr>used = True, e_pid = p\<rparr>"]
  by (simp add: probe_ix_mod dist_unique home_def)

lemma probe_slot_of: "probe_ix (pid_hash p) (dist (unat (pid_hash p)) i) = i" if "i < CAP"
  using that home_less [of "\<lparr>used = True, e_pid = p\<rparr>"]
  by (simp add: probe_ix_mod dist_add home_def)

lemma first_slot:
  assumes "for_first (\<lambda>k. stop (probe_ix (pid_hash p) k)) CAP 0 = Some k"
  shows "stop (probe_ix (pid_hash p) k) \<and>
    (\<forall>s < CAP. dist (unat (pid_hash p)) s < dist (unat (pid_hash p)) (probe_ix (pid_hash p) k) \<longrightarrow> \<not> stop s)"
proof -
  have k: "k < CAP" "stop (probe_ix (pid_hash p) k)" "\<And>j. j < k \<Longrightarrow> \<not> stop (probe_ix (pid_hash p) j)"
    using assms by (auto simp: for_first_Some_iff)
  then show ?thesis by (metis probe_slot_dist probe_slot_of)
qed

lemma first_slotI:
  assumes "i < CAP" "stop i" "\<And>s. s < CAP \<Longrightarrow> dist (unat (pid_hash p)) s < dist (unat (pid_hash p)) i \<Longrightarrow> \<not> stop s"
  shows "for_first (\<lambda>k. stop (probe_ix (pid_hash p) k)) CAP 0 = Some (dist (unat (pid_hash p)) i)"
  unfolding for_first_Some_iff
  using assms by (auto simp: probe_slot_of) (metis dist_less less_trans probe_ix_less probe_slot_dist)

lemma path_used_pid:
  assumes "probe_ok db" "i < CAP" "used (tab db i)" "e_pid (tab db i) = p"
  shows "path_used (tab db) (unat (pid_hash p)) i"
  using probe_okD(1) [OF assms(1-3)] assms(4) by (simp add: path_ok_def home_def)

lemma other_key_before:
  assumes "probe_ok db" "i < CAP" "used (tab db i)" "e_pid (tab db i) = p"
    and "s < CAP" "dist (unat (pid_hash p)) s < dist (unat (pid_hash p)) i"
  shows "used (tab db s) \<and> e_pid (tab db s) \<noteq> p"
  using path_used_pid [OF assms(1-4)] keys_distinctD [OF probe_okD(2) [OF assms(1)], of s i] assms
  by (auto simp: path_used_def)

lemma probe_find_iff:
  assumes "probe_ok db"
  shows "probe_find db p = Some i \<longleftrightarrow> i < CAP \<and> used (tab db i) \<and> e_pid (tab db i) = p"
proof
  assume "probe_find db p = Some i"
  then show "i < CAP \<and> used (tab db i) \<and> e_pid (tab db i) = p"
    by (auto simp: probe_find_def Let_def for_first_Some_iff split: option.splits if_splits) (metis probe_ix_less)
next
  assume i: "i < CAP \<and> used (tab db i) \<and> e_pid (tab db i) = p"
  with other_key_before [OF assms, of i p]
  have "for_first (\<lambda>k. \<not> used (tab db (probe_ix (pid_hash p) k)) \<or> e_pid (tab db (probe_ix (pid_hash p) k)) = p)
      CAP 0 = Some (dist (unat (pid_hash p)) i)"
    by (intro first_slotI [where stop = "\<lambda>s. \<not> used (tab db s) \<or> e_pid (tab db s) = p"]) auto
  with i show "probe_find db p = Some i" by (simp add: probe_find_def Let_def probe_slot_of)
qed

lemma probe_get_present:
  assumes "probe_ok db" "i < CAP" "used (tab db i)" "e_pid (tab db i) = p"
  shows "probe_get fresh db p = Some (i, False, db)"
proof -
  let ?st = "\<lambda>s. (used (tab db s) \<and> e_pid (tab db s) = p) \<or> \<not> used (tab db s)"
  have "for_first (\<lambda>k. ?st (probe_ix (pid_hash p) k)) CAP 0 = Some (dist (unat (pid_hash p)) i)"
    using other_key_before [OF assms] assms by (intro first_slotI [where stop = ?st]) auto
  with assms show ?thesis by (simp add: probe_get_def Let_def probe_slot_of)
qed

lemma probe_get_absent:
  assumes absent: "\<And>s. s < CAP \<Longrightarrow> used (tab db s) \<Longrightarrow> e_pid (tab db s) \<noteq> p"
    and unused: "u < CAP" "\<not> used (tab db u)"
  shows "\<exists>i < CAP. \<not> used (tab db i) \<and> path_used (tab db) (unat (pid_hash p)) i \<and>
    probe_get fresh db p = Some (i, True, db\<lparr>tab := (tab db)(i := fresh p), plen := plen db + 1\<rparr>)"
proof -
  let ?st = "\<lambda>s. (used (tab db s) \<and> e_pid (tab db s) = p) \<or> \<not> used (tab db s)"
  have "?st (probe_ix (pid_hash p) (dist (unat (pid_hash p)) u))" using unused by (simp add: probe_slot_of)
  then obtain k where k: "for_first (\<lambda>k. ?st (probe_ix (pid_hash p) k)) CAP 0 = Some k"
    using for_first_None_iff [of "\<lambda>k. ?st (probe_ix (pid_hash p) k)" CAP 0] dist_less [of "unat (pid_hash p)" u]
    by (cases "for_first (\<lambda>k. ?st (probe_ix (pid_hash p) k)) CAP 0") auto
  define i where "i = probe_ix (pid_hash p) k"
  have "\<not> used (tab db i)" "path_used (tab db) (unat (pid_hash p)) i"
    using first_slot [where stop = ?st, OF k] absent by (auto simp: i_def path_used_def)
  with k show ?thesis by (intro exI [of _ i]) (auto simp: i_def probe_get_def Let_def)
qed

section \<open>Deletion\<close>

text \<open>
  The loop invariant of the reinsertion: the slot \<open>n\<close> steps behind \<open>j\<close> is unused, the slots between
  hold the cluster that is still to be moved, no path of the cluster runs over the unused slot, and
  every entry outside the cluster can be found.
\<close>

definition cluster :: "nat \<Rightarrow> nat \<Rightarrow> nat \<Rightarrow> bool" where
  "cluster j n i \<longleftrightarrow> 0 < dist j i \<and> dist j i < n"

definition rehash_inv :: "nat \<Rightarrow> nat \<Rightarrow> (nat \<Rightarrow> 'a probe_ent_scheme) \<Rightarrow> bool" where
  "rehash_inv j n T \<longleftrightarrow> j < CAP \<and> 0 < n \<and> n < CAP \<and> \<not> used (T ((j + n) mod CAP)) \<and> keys_distinct T \<and>
     (\<forall>i < CAP. cluster j n i \<longrightarrow>
        used (T i) \<and> dist (home (T i)) i < dist (home (T i)) ((j + n) mod CAP)) \<and>
     (\<forall>i < CAP. used (T i) \<and> \<not> cluster j n i \<longrightarrow> path_ok T i)"

lemma cluster_step:
  assumes "j < CAP" "i < CAP" "1 < n" "n < CAP"
  shows "cluster j n i \<longleftrightarrow> i = (j + 1) mod CAP \<or> cluster ((j + 1) mod CAP) (n - 1) i"
proof (cases "j + 1 = CAP")
  case True
  then have "(j + 1) mod CAP = 0" "j = CAP - 1" by simp_all
  then show ?thesis using assms by (auto simp: cluster_def dist_if)
next
  case False
  then have "(j + 1) mod CAP = j + 1" "j + 1 < CAP" using assms by simp_all
  then show ?thesis using assms by (auto simp: cluster_def dist_if)
qed

lemma end_step: "1 < n \<Longrightarrow> ((j + 1) mod CAP + (n - 1)) mod CAP = (j + n) mod CAP"
  unfolding mod_add_left_eq by simp

lemma outside_path:
  assumes "h < CAP" "i < CAP" "j < CAP" "0 < n" "n < CAP"
    and "path_used T h i" "used (T i)" "\<not> used (T ((j + n) mod CAP))" "\<not> cluster j n i"
  shows "\<not> dist h j < dist h i"
proof
  assume "dist h j < dist h i"
  moreover have "\<not> dist h ((j + n) mod CAP) < dist h i"
    using assms(6,8) by (auto simp: path_used_def)
  moreover have "dist h ((j + n) mod CAP) \<noteq> dist h i"
    using assms(1,2,7,8) by (metis dist_add mod_less_divisor zero_less_numeral)
  ultimately show False
    using on_path_near [OF assms(1-5)] assms(9) by (auto simp: cluster_def)
qed

lemma rehash_done: "rehash_inv j 1 T \<Longrightarrow> i < CAP \<Longrightarrow> used (T i) \<Longrightarrow> path_ok T i"
  by (auto simp: rehash_inv_def cluster_def)

text \<open>One round: the entry behind the hole is taken out and put into the first unused slot of its path.\<close>

lemma rehash_step:
  assumes inv: "rehash_inv j n T" and n: "1 < n"
    and j': "j' = (j + 1) mod CAP" and clr: "\<not> used c" and T1: "T1 = T(j' := c)"
    and i: "i < CAP" "\<not> used (T1 i)" "path_used T1 (home (T j')) i"
  shows "rehash_inv j' (n - 1) (T1(i := T j'))"
proof -
  let ?e = "(j + n) mod CAP" and ?T = "T1(i := T j')"
  have jn: "j < CAP" "n < CAP" "\<not> used (T ?e)" "keys_distinct T"
    and cl: "\<And>i. i < CAP \<Longrightarrow> cluster j n i \<Longrightarrow> used (T i) \<and> dist (home (T i)) i < dist (home (T i)) ?e"
    and out: "\<And>i. i < CAP \<Longrightarrow> used (T i) \<Longrightarrow> \<not> cluster j n i \<Longrightarrow> path_ok T i"
    using inv by (auto simp: rehash_inv_def)
  have j'_less: "j' < CAP" by (simp add: j')
  note step = cluster_step [OF jn(1) _ n jn(2), folded j'] and e = end_step [OF n, of j, folded j']
  have uj: "used (T j')" "dist (home (T j')) j' < dist (home (T j')) ?e"
    using cl [OF j'_less] step [OF j'_less] by auto
  have "\<not> dist (home (T j')) j' < dist (home (T j')) i"
    using i(3) clr j'_less by (auto simp: path_used_def T1)
  then have ie: "i \<noteq> ?e" using uj by auto
  have old: "?T m = T m" "used (T m)" "m \<noteq> j'" if "used (?T m)" "m \<noteq> i" for m
    using that clr by (auto simp: T1 split: if_splits)
  have "\<not> used (?T ?e)" using ie jn uj by (auto simp: T1)
  moreover have "keys_distinct ?T"
    unfolding keys_distinct_def
    using old keys_distinctD [OF jn(4)] j'_less uj(1) by (metis fun_upd_same)
  moreover have "used (?T m) \<and> dist (home (?T m)) m < dist (home (?T m)) ?e"
    if "m < CAP" "cluster j' (n - 1) m" for m
  proof -
    have "m \<noteq> j'" using that j'_less by (auto simp: cluster_def dist_def)
    moreover have "m \<noteq> i" using that step [OF that(1)] cl [OF that(1)] i(2) \<open>m \<noteq> j'\<close> by (auto simp: T1)
    ultimately show ?thesis using cl [OF that(1)] step [OF that(1)] that by (simp add: T1)
  qed
  moreover have "path_ok ?T m" if m: "m < CAP" "used (?T m)" "\<not> cluster j' (n - 1) m" for m
  proof (cases "m = i")
    case True
    then show ?thesis using i(3) uj(1) by (auto simp: path_ok_def path_used_def)
  next
    case False
    note om = old [OF m(2) False]
    have "path_ok T m" using out [OF m(1) om(2)] step [OF m(1)] om(3) m(3) by blast
    then have pu: "path_used T (home (T m)) m" by (simp add: path_ok_def)
    have "\<not> dist (home (T m)) j' < dist (home (T m)) m"
      by (rule outside_path [OF home_less m(1) j'_less _ _ pu om(2) _ m(3)]) (use n jn e in simp_all)
    then have "path_used ?T (home (T m)) m"
      using pu uj(1) by (auto simp: path_used_def T1)
    then show ?thesis using om(1) by (simp add: path_ok_def)
  qed
  ultimately show ?thesis using n jn e j'_less by (simp add: rehash_inv_def)
qed

lemma card_entries: "keys_distinct T \<Longrightarrow> card (entries T) = card (used_slots T)"
  unfolding entries_def
  by (rule card_image) (simp add: inj_on_def used_slots_def keys_distinct_def)

lemma probe_ok_entries:
  "probe_ok db \<longleftrightarrow> (\<forall>i < CAP. used (tab db i) \<longrightarrow> path_ok (tab db) i) \<and> keys_distinct (tab db)
     \<and> plen db = int (card (entries (tab db)))"
  using card_entries [of "tab db"] by (auto simp: probe_ok_def)

lemma entries_clear:
  assumes "keys_distinct T" "s < CAP" "used (T s)" "\<not> used c"
  shows "entries (T(s := c)) = entries T - {T s}"
  using assms keys_distinctD [OF assms(1) _ assms(3)] by (auto simp: entries_def used_slots_def split: if_splits)

lemma entries_fill:
  assumes "s < CAP" "\<not> used (T s)" "used v"
  shows "entries (T(s := v)) = insert v (entries T)"
  using assms by (auto simp: entries_def used_slots_def image_iff)

lemma entries_move:
  assumes "keys_distinct T" "j < CAP" "used (T j)" "\<not> used c" "i < CAP" "\<not> used ((T(j := c)) i)"
  shows "entries ((T(j := c))(i := T j)) = entries T"
  using entries_fill [where T = "T(j := c)", OF assms(5,6,3)] entries_clear [OF assms(1-4)] assms(2,3)
  by (auto simp: entries_def used_slots_def)

lemma card_used_full: "(\<And>u. u < CAP \<Longrightarrow> used (T u)) \<Longrightarrow> card (used_slots T) = CAP"
proof -
  assume "\<And>u. u < CAP \<Longrightarrow> used (T u)"
  then have "used_slots T = {..<CAP}" by (auto simp: used_slots_def)
  then show "card (used_slots T) = CAP" by simp
qed

lemma unused_if_not_full: "probe_ok db \<Longrightarrow> not_full db \<Longrightarrow> \<exists>u < CAP. \<not> used (tab db u)"
  using card_used_full [of "tab db"] probe_okD(3) [of db] by (force simp: not_full_def)

lemma lookup_iff:
  assumes "probe_ok db"
  shows "lookup db p = Some e \<longleftrightarrow> e \<in> entries (tab db) \<and> e_pid e = p"
  using probe_find_iff [OF assms] by (auto simp: lookup_def entries_def used_slots_def)

lemma lookup_None_iff:
  assumes "probe_ok db"
  shows "lookup db p = None \<longleftrightarrow> (\<forall>e \<in> entries (tab db). e_pid e \<noteq> p)"
  using lookup_iff [OF assms, of p] by (cases "lookup db p") auto

lemma lookup_eqI:
  assumes "probe_ok db" "\<And>e p. e \<in> entries (tab db) \<and> e_pid e = p \<longleftrightarrow> f p = Some e"
  shows "lookup db = f"
proof
  fix p
  have "lookup db p = Some e \<longleftrightarrow> f p = Some e" for e using lookup_iff [OF assms(1)] assms(2) by simp
  then show "lookup db p = f p" by (metis option.exhaust)
qed

lemma plen_dom: "probe_ok db \<Longrightarrow> plen db = int (card (dom (lookup db)))"
proof -
  assume ok: "probe_ok db"
  have "dom (lookup db) = e_pid ` entries (tab db)" using lookup_iff [OF ok] by auto
  moreover have "inj_on e_pid (entries (tab db))"
    using keys_distinctD [OF probe_okD(2) [OF ok]] by (auto simp: inj_on_def entries_def used_slots_def)
  ultimately show "plen db = int (card (dom (lookup db)))"
    using ok by (simp add: card_image probe_ok_entries)
qed

lemma same_keys:
  assumes "\<And>s. used (T' s) = used (T s)" "\<And>s. e_pid (T' s) = e_pid (T s)"
  shows "path_ok T' = path_ok T" "keys_distinct T' = keys_distinct T" "used_slots T' = used_slots T"
  by (auto simp: fun_eq_iff path_ok_def path_used_def home_def keys_distinct_def used_slots_def assms)

subsection \<open>The interface of a process table\<close>

locale pid_map =
  fixes ok room :: "'s \<Rightarrow> bool" and look :: "'s \<Rightarrow> i32 \<Rightarrow> 'e option"
    and get :: "'s \<Rightarrow> i32 \<Rightarrow> (nat \<times> bool \<times> 's) option" and del :: "'s \<Rightarrow> i32 \<Rightarrow> 's outcome"
    and rd :: "'s \<Rightarrow> nat \<Rightarrow> 'e" and wr :: "'s \<Rightarrow> nat \<Rightarrow> 'e \<Rightarrow> 's"
    and fresh :: "i32 \<Rightarrow> 'e" and good :: "i32 \<Rightarrow> 'e \<Rightarrow> bool"
  assumes get_old: "ok db \<Longrightarrow> look db p = Some e \<Longrightarrow>
        \<exists>i. get db p = Some (i, False, db) \<and> rd db i = e"
    and get_new: "ok db \<Longrightarrow> room db \<Longrightarrow> look db p = None \<Longrightarrow>
        \<exists>i db'. get db p = Some (i, True, db') \<and> ok db' \<and> look db' = (look db)(p \<mapsto> fresh p) \<and> rd db' i = fresh p"
    and write_got: "ok db \<Longrightarrow> get db p = Some (i, c, db') \<Longrightarrow> good p e \<Longrightarrow>
        ok (wr db' i e) \<and> look (wr db' i e) = (look db)(p \<mapsto> e)"
    and del_removes: "ok db \<Longrightarrow> room db \<Longrightarrow> \<exists>db'. del db p = Inr db' \<and> ok db' \<and> look db' = (look db)(p := None)"
begin

text \<open>Fetch-or-create followed by an update of the entry through the returned pointer.\<close>

lemma upsert:
  assumes "ok db" "room db"
  obtains i db' where "get db p = Some (i, look db p = None, db')" "ok db'"
    "look db' = (look db)(p \<mapsto> (case look db p of None \<Rightarrow> fresh p | Some e \<Rightarrow> e))"
    "rd db' i = (case look db p of None \<Rightarrow> fresh p | Some e \<Rightarrow> e)"
    "\<And>e. good p e \<Longrightarrow> ok (wr db' i e) \<and> look (wr db' i e) = (look db)(p \<mapsto> e)"
proof (cases "look db p")
  case None
  with get_new [OF assms None] that write_got [OF assms(1)] show ?thesis by (metis (mono_tags) option.simps(4))
next
  case (Some e)
  then have "look db = (look db)(p \<mapsto> e)" by (simp add: fun_upd_idem)
  with Some get_old [OF assms(1) Some] that write_got [OF assms(1)] assms(1) show ?thesis
    by (metis (mono_tags, lifting) option.distinct(1) option.simps(5))
qed

lemma present_after_delete: "ok db \<Longrightarrow> room db \<Longrightarrow> del db p = Inr db' \<Longrightarrow> look db' p = None \<and> ok db'"
  using del_removes [of db p] by auto

lemma delete_other: "ok db \<Longrightarrow> room db \<Longrightarrow> del db p = Inr db' \<Longrightarrow> q \<noteq> p \<Longrightarrow> look db' q = look db q"
  using del_removes [of db p] by auto

end

text \<open>What an entry type has to provide for the scheme to work.\<close>

locale probe_entry =
  fixes fresh :: "i32 \<Rightarrow> 'a probe_ent_scheme"
    and clear :: "'a probe_ent_scheme \<Rightarrow> 'a probe_ent_scheme"
    and copy :: "'a probe_ent_scheme \<Rightarrow> 'a probe_ent_scheme \<Rightarrow> 'a probe_ent_scheme"
  assumes fresh_used: "used (fresh p)" and fresh_pid: "e_pid (fresh p) = p"
    and clear_unused: "\<not> used (clear e)"
    and copy_all: "used tmp \<Longrightarrow> e_pid e = e_pid tmp \<Longrightarrow> used e \<Longrightarrow> copy tmp e = tmp"
begin

lemma rehash_round:
  assumes inv: "rehash_inv j n (tab db)" and n: "1 < n"
  obtains db' where "probe_rehash fresh clear copy (Suc fuel) j db = probe_rehash fresh clear copy fuel ((j + 1) mod CAP) db'"
    and "rehash_inv ((j + 1) mod CAP) (n - 1) (tab db')" "entries (tab db') = entries (tab db)" "plen db' = plen db"
proof -
  let ?j = "(j + 1) mod CAP" and ?T = "tab db"
  let ?db = "db\<lparr>tab := ?T(?j := clear (?T ?j)), plen := plen db - 1\<rparr>"
  have j: "j < CAP" "n < CAP" "?j < CAP" and kd: "keys_distinct ?T" using inv by (auto simp: rehash_inv_def)
  have u: "used (?T ?j)" using inv cluster_step [OF j(1,3) n j(2)] j by (auto simp: rehash_inv_def)
  have absent: "e_pid (tab ?db s) \<noteq> e_pid (?T ?j)" if "s < CAP" "used (tab ?db s)" for s
    using that kd u j clear_unused keys_distinctD [OF kd _ u, of s] by (auto split: if_splits)
  obtain i where i: "i < CAP" "\<not> used (tab ?db i)" "path_used (tab ?db) (unat (pid_hash (e_pid (?T ?j)))) i"
    "probe_get fresh ?db (e_pid (?T ?j))
       = Some (i, True, ?db\<lparr>tab := (tab ?db)(i := fresh (e_pid (?T ?j))), plen := plen ?db + 1\<rparr>)"
    using probe_get_absent [OF absent j(3)] clear_unused by auto
  let ?db' = "db\<lparr>tab := (?T(?j := clear (?T ?j)))(i := ?T ?j)\<rparr>"
  have "probe_rehash fresh clear copy (Suc fuel) j db = probe_rehash fresh clear copy fuel ?j ?db'"
    using i(4) u copy_all [OF u, of "fresh (e_pid (?T ?j))"]
    by (simp add: Let_def probe_ix_succ [OF j(1), simplified] fresh_used fresh_pid)
  moreover have "rehash_inv ?j (n - 1) (tab ?db')"
    using rehash_step [OF inv n refl clear_unused refl] i by (simp add: home_def)
  moreover have "entries (tab ?db') = entries ?T"
    using entries_move [OF kd j(3) u clear_unused i(1)] i(2) by simp
  ultimately show ?thesis by (rule that) simp
qed

lemma rehash_total:
  assumes "rehash_inv j n (tab db)" "n \<le> fuel" "plen db = int (card (entries (tab db)))"
  shows "\<exists>db'. probe_rehash fresh clear copy fuel j db = Inr db' \<and> probe_ok db' \<and> entries (tab db') = entries (tab db)"
  using assms
proof (induction fuel arbitrary: j n db)
  case 0
  then show ?case by (simp add: rehash_inv_def)
next
  case (Suc fuel)
  show ?case
  proof (cases "n = 1")
    case True
    then have "j < CAP" "\<not> used (tab db ((j + 1) mod CAP))" "keys_distinct (tab db)"
      using Suc.prems(1) by (auto simp: rehash_inv_def)
    then show ?thesis
      using rehash_done [of j "tab db"] Suc.prems True
      by (simp add: Let_def probe_ix_succ [simplified] probe_ok_entries)
  next
    case False
    then have n: "1 < n" using Suc.prems(1) by (simp add: rehash_inv_def)
    from rehash_round [OF Suc.prems(1) n, of fuel] obtain db'
      where "probe_rehash fresh clear copy (Suc fuel) j db = probe_rehash fresh clear copy fuel ((j + 1) mod CAP) db'"
        "rehash_inv ((j + 1) mod CAP) (n - 1) (tab db')" "entries (tab db') = entries (tab db)" "plen db' = plen db"
      by blast
    then show ?thesis using Suc.IH [of "(j + 1) mod CAP" "n - 1" db'] Suc.prems by simp
  qed
qed

lemma delete_inv:
  assumes ok: "probe_ok db" and room: "not_full db" and s: "s < CAP" "used (tab db s)"
  obtains n where "n < CAP" "rehash_inv s n ((tab db)(s := clear (tab db s)))"
proof -
  let ?T = "tab db" let ?T1 = "?T(s := clear (?T s))"
  let ?P = "\<lambda>n. 0 < n \<and> \<not> used (?T ((s + n) mod CAP))"
  obtain u where u: "u < CAP" "\<not> used (?T u)"
    using unused_if_not_full [OF ok room] by blast
  have Pu: "?P (dist s u)" using u s dist_add [OF s(1) u(1)] by (metis add.right_neutral gr0I mod_less)
  define n where "n = (LEAST n. ?P n)"
  have n: "?P n" "n < CAP" and least: "\<And>m. 0 < m \<Longrightarrow> m < n \<Longrightarrow> used (?T ((s + m) mod CAP))"
    using LeastI [of ?P, OF Pu] le_less_trans [OF Least_le [of ?P, OF Pu] dist_less] not_less_Least [of _ ?P]
    by (auto simp: n_def)
  let ?e = "(s + n) mod CAP"
  have es: "?e \<noteq> s" using n s by metis
  have kd: "keys_distinct ?T" by (rule probe_okD(2) [OF ok])
  have cl: "used (?T i)" "i \<noteq> s" if "i < CAP" "cluster s n i" for i
    using that least [of "dist s i"] dist_add [OF s(1) that(1)] by (auto simp: cluster_def dist_def)
  have "dist (home (?T i)) i < dist (home (?T i)) ?e" if "i < CAP" "used (?T i)" for i
  proof -
    have "\<not> dist (home (?T i)) ?e < dist (home (?T i)) i"
      using probe_okD(1) [OF ok that] n(1) by (auto simp: path_ok_def path_used_def)
    moreover have "dist (home (?T i)) ?e \<noteq> dist (home (?T i)) i"
      using that n(1) by (metis dist_add home_less mod_less_divisor zero_less_numeral)
    ultimately show ?thesis by simp
  qed
  moreover have "path_ok ?T1 i" if "i < CAP" "used (?T1 i)" "\<not> cluster s n i" for i
  proof -
    have i: "i \<noteq> s" "used (?T i)" using that clear_unused by (auto split: if_splits)
    have pu: "path_used ?T (home (?T i)) i" using probe_okD(1) [OF ok that(1) i(2)] by (simp add: path_ok_def)
    have "\<not> dist (home (?T i)) s < dist (home (?T i)) i"
      by (rule outside_path [OF home_less that(1) s(1) _ _ pu i(2) _ that(3)]) (use n in simp_all)
    then show ?thesis using pu i(1) by (auto simp: path_ok_def path_used_def)
  qed
  moreover have "keys_distinct ?T1" using kd clear_unused by (auto simp: keys_distinct_def)
  ultimately have "rehash_inv s n ?T1" using n s es cl by (simp add: rehash_inv_def)
  with n(2) show ?thesis by (rule that)
qed

lemma delete_present:
  assumes "probe_ok db" "not_full db" "s < CAP" "used (tab db s)" "e_pid (tab db s) = p"
  shows "\<exists>db'. probe_delete fresh clear copy db p = Inr db' \<and> probe_ok db' \<and>
    entries (tab db') = entries (tab db) - {tab db s}"
proof -
  let ?db = "db\<lparr>tab := (tab db)(s := clear (tab db s)), plen := plen db - 1\<rparr>"
  obtain n where n: "n < CAP" "rehash_inv s n (tab ?db)" using delete_inv [OF assms(1-4)] by auto
  have e: "entries (tab ?db) = entries (tab db) - {tab db s}"
    using entries_clear [OF probe_okD(2) [OF assms(1)] assms(3,4) clear_unused] by simp
  moreover have "tab db s \<in> entries (tab db)" using assms(3,4) by (auto simp: entries_def used_slots_def)
  moreover have "finite (entries (tab db))" by (simp add: entries_def used_slots_def)
  ultimately have "plen ?db = int (card (entries (tab ?db)))"
    using assms(1) card_Suc_Diff1 [of "entries (tab db)" "tab db s"] by (simp add: probe_ok_entries del: card_Diff_insert)
  with rehash_total [OF n(2), of CAP] n(1) e show ?thesis
    using assms by (simp add: probe_delete_def probe_find_iff [OF assms(1), THEN iffD2])
qed

lemma get_absent_slot:
  assumes ok: "probe_ok db" and none: "lookup db p = None" and u: "u < CAP" "\<not> used (tab db u)"
  shows "\<exists>i < CAP. probe_get fresh db p = Some (i, True, db\<lparr>tab := (tab db)(i := fresh p), plen := plen db + 1\<rparr>) \<and>
    \<not> used (tab db i) \<and> path_used (tab db) (unat (pid_hash p)) i"
proof -
  have "e_pid (tab db s) \<noteq> p" if "s < CAP" "used (tab db s)" for s
    using none that lookup_None_iff [OF ok] by (auto simp: entries_def used_slots_def)
  then show ?thesis using probe_get_absent [of db p u fresh] u by blast
qed

lemma unused_if_got:
  assumes ok: "probe_ok db" and none: "lookup db p = None" and get: "probe_get fresh db p = Some r"
  shows "\<exists>u < CAP. \<not> used (tab db u)"
proof -
  obtain k where "used (tab db (probe_ix (pid_hash p) k)) \<longrightarrow> e_pid (tab db (probe_ix (pid_hash p) k)) = p"
    using get by (auto simp: probe_get_def Let_def for_first_Some_iff split: option.splits)
  moreover have "e_pid (tab db s) \<noteq> p" if "s < CAP" "used (tab db s)" for s
    using none that lookup_None_iff [OF ok] by (auto simp: entries_def used_slots_def)
  ultimately show ?thesis using probe_ix_less by blast
qed

text \<open>Putting any entry of process \<open>p\<close> into the slot that was found for it keeps the table well formed.\<close>

lemma fill_ok:
  assumes ok: "probe_ok db" and none: "lookup db p = None" and i: "i < CAP" "\<not> used (tab db i)"
    and path: "path_used (tab db) (unat (pid_hash p)) i" and e: "used e" "e_pid e = p"
  shows "probe_ok (db\<lparr>tab := (tab db)(i := e), plen := plen db + 1\<rparr>)"
    and "lookup (db\<lparr>tab := (tab db)(i := e), plen := plen db + 1\<rparr>) = (lookup db)(p \<mapsto> e)"
proof -
  let ?T = "(tab db)(i := e)"
  have fresh_key: "e_pid (tab db s) \<noteq> p" if "s < CAP" "used (tab db s)" for s
    using none that lookup_None_iff [OF ok] by (auto simp: entries_def used_slots_def)
  have kd: "keys_distinct ?T"
    using probe_okD(2) [OF ok] fresh_key e unfolding keys_distinct_def by (metis fun_upd_apply)
  have "path_ok ?T s" if "s < CAP" "used (?T s)" for s
    using that probe_okD(1) [OF ok, of s] path e by (auto simp: path_ok_def path_used_def home_def)
  moreover have "used_slots ?T = insert i (used_slots (tab db))" "i \<notin> used_slots (tab db)"
    using i e by (auto simp: used_slots_def)
  moreover have "finite (used_slots (tab db))" by (simp add: used_slots_def)
  ultimately show ok': "probe_ok (db\<lparr>tab := ?T, plen := plen db + 1\<rparr>)"
    using kd probe_okD(3) [OF ok] by (simp add: probe_ok_def)
  show "lookup (db\<lparr>tab := ?T, plen := plen db + 1\<rparr>) = (lookup db)(p \<mapsto> e)"
    by (rule lookup_eqI [OF ok'])
      (use entries_fill [where T = "tab db", OF i e(1)] none lookup_iff [OF ok] lookup_None_iff [OF ok] e in auto)
qed

lemma overwrite_ok:
  assumes ok: "probe_ok db" and i: "i < CAP" "used (tab db i)" "e_pid (tab db i) = p" and e: "used e" "e_pid e = p"
  shows "probe_ok (db\<lparr>tab := (tab db)(i := e)\<rparr>)"
    and "lookup (db\<lparr>tab := (tab db)(i := e)\<rparr>) = (lookup db)(p \<mapsto> e)"
proof -
  let ?T = "(tab db)(i := e)"
  have uk: "used (?T s) = used (tab db s)" "e_pid (?T s) = e_pid (tab db s)" for s using i e by auto
  have "tab (db\<lparr>tab := ?T\<rparr>) = ?T" "plen (db\<lparr>tab := ?T\<rparr>) = plen db" by simp_all
  then show ok': "probe_ok (db\<lparr>tab := ?T\<rparr>)"
    unfolding probe_ok_def by (simp only: same_keys [OF uk] uk(1)) (use ok in \<open>unfold probe_ok_def, blast\<close>)
  have "probe_find (db\<lparr>tab := ?T\<rparr>) q = probe_find db q" for q
    by (simp add: probe_find_def uk del: fun_upd_apply cong: option.case_cong if_cong)
  moreover have "probe_find db q = Some i \<longleftrightarrow> q = p" for q using probe_find_iff [OF ok] i by auto
  ultimately show "lookup (db\<lparr>tab := ?T\<rparr>) = (lookup db)(p \<mapsto> e)"
    by (intro ext) (auto simp: lookup_def intro!: option.map_cong0 split: option.splits)
qed

lemma delete_lookup:
  assumes ok: "probe_ok db" and room: "not_full db"
  shows "\<exists>db'. probe_delete fresh clear copy db p = Inr db' \<and> probe_ok db' \<and> lookup db' = (lookup db)(p := None)"
proof (cases "probe_find db p")
  case None
  then have "lookup db p = None" by (simp add: lookup_def)
  with None ok show ?thesis by (simp add: probe_delete_def fun_upd_idem)
next
  case (Some s)
  then have s: "s < CAP" "used (tab db s)" "e_pid (tab db s) = p" using probe_find_iff [OF ok] by auto
  obtain db' where d: "probe_delete fresh clear copy db p = Inr db'" and ok': "probe_ok db'"
    and ent: "entries (tab db') = entries (tab db) - {tab db s}"
    using delete_present [OF ok room s] by auto
  have "lookup db p = Some (tab db s)" using Some by (simp add: lookup_def)
  then have "e \<in> entries (tab db') \<and> e_pid e = q \<longleftrightarrow> ((lookup db)(p := None)) q = Some e" for e q
    unfolding ent using lookup_iff [OF ok, of q e] s(3) by (cases "q = p") force+
  then show ?thesis using d ok' lookup_eqI [OF ok'] by blast
qed

lemma write_lookup:
  assumes ok: "probe_ok db" and get: "probe_get fresh db p = Some (i, c, db')" and e: "used e" "e_pid e = p"
  shows "probe_ok (db'\<lparr>tab := (tab db')(i := e)\<rparr>) \<and> lookup (db'\<lparr>tab := (tab db')(i := e)\<rparr>) = (lookup db)(p \<mapsto> e)"
proof (cases "lookup db p")
  case None
  obtain u where "u < CAP" "\<not> used (tab db u)" using unused_if_got [OF ok None get] by auto
  from get_absent_slot [OF ok None this] get
  have i: "i < CAP" "\<not> used (tab db i)" "path_used (tab db) (unat (pid_hash p)) i"
    and db': "db' = db\<lparr>tab := (tab db)(i := fresh p), plen := plen db + 1\<rparr>" by auto
  have "db'\<lparr>tab := (tab db')(i := e)\<rparr> = db\<lparr>tab := (tab db)(i := e), plen := plen db + 1\<rparr>" by (simp add: db')
  then show ?thesis using fill_ok [OF ok None i e] by simp
next
  case (Some e0)
  then obtain s where s: "s < CAP" "used (tab db s)" "e_pid (tab db s) = p"
    using lookup_iff [OF ok, of p e0] by (auto simp: entries_def used_slots_def)
  with get probe_get_present [OF ok s, of fresh] have "i = s" "db' = db" by auto
  then show ?thesis using overwrite_ok [OF ok s e] by simp
qed

end

sublocale probe_entry \<subseteq> pm: pid_map probe_ok not_full lookup "probe_get fresh" "probe_delete fresh clear copy"
  "\<lambda>db i. tab db i" "\<lambda>db i e. db\<lparr>tab := (tab db)(i := e)\<rparr>" fresh "\<lambda>p e. used e \<and> e_pid e = p"
proof
  fix db :: "'a probe_ent_scheme ptable" and p e i c db'
  assume ok: "probe_ok db"
  have slot: "lookup db p = Some e \<Longrightarrow> \<exists>i < CAP. used (tab db i) \<and> e_pid (tab db i) = p \<and> tab db i = e" for e
    using lookup_iff [OF ok, of p e] by (auto simp: entries_def used_slots_def)
  show "\<exists>i. probe_get fresh db p = Some (i, False, db) \<and> tab db i = e" if "lookup db p = Some e"
    using slot [OF that] probe_get_present [OF ok] by blast
  show "\<exists>i db'. probe_get fresh db p = Some (i, True, db') \<and> probe_ok db' \<and>
      lookup db' = (lookup db)(p \<mapsto> fresh p) \<and> tab db' i = fresh p"
    if room: "not_full db" and none: "lookup db p = None"
    using unused_if_not_full [OF ok room] get_absent_slot [OF ok none]
      fill_ok [OF ok none _ _ _ fresh_used fresh_pid] by fastforce
  show "\<exists>db'. probe_delete fresh clear copy db p = Inr db' \<and> probe_ok db' \<and> lookup db' = (lookup db)(p := None)"
    if room: "not_full db"
    by (rule delete_lookup [OF ok room])
  show "probe_ok (db'\<lparr>tab := (tab db')(i := e)\<rparr>) \<and> lookup (db'\<lparr>tab := (tab db')(i := e)\<rparr>) = (lookup db)(p \<mapsto> e)"
    if get: "probe_get fresh db p = Some (i, c, db')" and e: "used e \<and> e_pid e = p"
    by (rule write_lookup [OF ok get]) (use e in auto)
qed

end
