(* ===== verification/Exec_Tables.thy ===== *)
theory Exec_Tables
  imports Probe
begin

text \<open>
  The two process tables of \<^verbatim>\<open>src/c/exec.c\<close>: \<^verbatim>\<open>pidDB\<close> of the Linux tracer (with depth, start time and
  command of each traced process) and \<^verbatim>\<open>macDB\<close> of the macOS tracer (with parent, owner, start time,
  command and depth of each live process). Both interpret the locale \<open>probe_entry\<close>, and through it
  the interface \<open>pid_map\<close>. A \<^verbatim>\<open>char *\<close> field is a string option, \<open>None\<close> for a null pointer.
\<close>

section \<open>Definitions\<close>

subsection \<open>pidDB\<close>

record pidEntry = probe_ent +
  depth :: int
  startNs :: u64
  cmdline :: "string option"

type_synonym pidDB = "pidEntry ptable"

definition piddb_fresh :: "i32 \<Rightarrow> pidEntry" where
  "piddb_fresh p = \<lparr>used = True, e_pid = p, depth = 0, startNs = 0, cmdline = None\<rparr>"

definition piddb_clear :: "pidEntry \<Rightarrow> pidEntry" where
  "piddb_clear e = e\<lparr>used := False, cmdline := None\<rparr>"

definition piddb_copy :: "pidEntry \<Rightarrow> pidEntry \<Rightarrow> pidEntry" where
  "piddb_copy tmp ne = ne\<lparr>depth := depth tmp, startNs := startNs tmp, cmdline := cmdline tmp\<rparr>"

definition piddb_find :: "pidDB \<Rightarrow> i32 \<Rightarrow> nat option" where
  "piddb_find = probe_find"

definition piddb_get :: "pidDB \<Rightarrow> i32 \<Rightarrow> (nat \<times> bool \<times> pidDB) option" where
  "piddb_get = probe_get piddb_fresh"

definition piddb_delete :: "pidDB \<Rightarrow> i32 \<Rightarrow> pidDB outcome" where
  "piddb_delete = probe_delete piddb_fresh piddb_clear piddb_copy"

definition empty_piddb :: pidDB where
  "empty_piddb = \<lparr>tab = (\<lambda>_. \<lparr>used = False, e_pid = 0, depth = 0, startNs = 0, cmdline = None\<rparr>), plen = 0\<rparr>"

subsection \<open>macDB\<close>

record macEntry = probe_ent +
  mac_ppid :: i32
  uid :: u32
  startSec :: u64
  startUsec :: u64
  argv0 :: "string option"
  mac_depth :: int

type_synonym macDB = "macEntry ptable"

definition macdb_fresh :: "i32 \<Rightarrow> macEntry" where
  "macdb_fresh p = \<lparr>used = True, e_pid = p, mac_ppid = 0, uid = 0, startSec = 0, startUsec = 0, argv0 = None,
     mac_depth = - 1\<rparr>"

definition macdb_clear :: "macEntry \<Rightarrow> macEntry" where
  "macdb_clear e = e\<lparr>used := False, argv0 := None\<rparr>"

definition macdb_copy :: "macEntry \<Rightarrow> macEntry \<Rightarrow> macEntry" where
  "macdb_copy tmp ne = ne\<lparr>mac_ppid := mac_ppid tmp, uid := uid tmp, startSec := startSec tmp,
     startUsec := startUsec tmp, argv0 := argv0 tmp, mac_depth := mac_depth tmp\<rparr>"

definition macdb_find :: "macDB \<Rightarrow> i32 \<Rightarrow> nat option" where
  "macdb_find = probe_find"

definition macdb_get :: "macDB \<Rightarrow> i32 \<Rightarrow> (nat \<times> bool \<times> macDB) option" where
  "macdb_get = probe_get macdb_fresh"

definition macdb_delete :: "macDB \<Rightarrow> i32 \<Rightarrow> macDB outcome" where
  "macdb_delete = probe_delete macdb_fresh macdb_clear macdb_copy"

definition empty_macdb :: macDB where
  "empty_macdb = \<lparr>tab = (\<lambda>_. \<lparr>used = False, e_pid = 0, mac_ppid = 0, uid = 0, startSec = 0, startUsec = 0,
     argv0 = None, mac_depth = 0\<rparr>), plen = 0\<rparr>"

section \<open>The tables implement maps from process ids\<close>

interpretation piddb: probe_entry piddb_fresh piddb_clear piddb_copy
  by unfold_locales (auto simp: piddb_fresh_def piddb_clear_def piddb_copy_def)

interpretation macdb: probe_entry macdb_fresh macdb_clear macdb_copy
  by unfold_locales (auto simp: macdb_fresh_def macdb_clear_def macdb_copy_def)

lemma probe_ok_empty:
  assumes "\<And>i. \<not> used (tab db i)" "plen db = 0"
  shows "probe_ok db \<and> not_full db \<and> lookup db = Map.empty"
proof -
  have "probe_ok db" using assms by (simp add: probe_ok_def keys_distinct_def used_slots_def)
  moreover from this have "lookup db = Map.empty"
    using assms(1) by (auto intro!: lookup_eqI simp: entries_def used_slots_def)
  ultimately show ?thesis using assms(2) by (simp add: not_full_def)
qed

lemma empty_piddb_ok [simp]: "probe_ok empty_piddb" "not_full empty_piddb" "lookup empty_piddb = Map.empty"
  using probe_ok_empty [of empty_piddb] by (simp_all add: empty_piddb_def)

lemma empty_macdb_ok [simp]: "probe_ok empty_macdb" "not_full empty_macdb" "lookup empty_macdb = Map.empty"
  using probe_ok_empty [of empty_macdb] by (simp_all add: empty_macdb_def)

lemmas piddb_defs = piddb_find_def piddb_get_def piddb_delete_def
lemmas macdb_defs = macdb_find_def macdb_get_def macdb_delete_def

lemma not_full_small: "probe_ok db \<Longrightarrow> lookup db = map_of xs \<Longrightarrow> length xs < CAP \<Longrightarrow> not_full db"
proof -
  assume a: "probe_ok db" "lookup db = map_of xs" "length xs < CAP"
  have "card (dom (map_of xs)) \<le> length xs"
    unfolding dom_map_of_conv_image_fst by (metis card_image_le card_length finite_set le_trans list.set_map length_map)
  with a plen_dom [of db] show "not_full db" by (simp add: not_full_def)
qed

text \<open>A table with two processes whose ids collide.\<close>

lemma two_entries:
  "\<exists>db. probe_ok db \<and> lookup db = [7 \<mapsto> piddb_fresh 7, 16391 \<mapsto> piddb_fresh 16391] \<and> not_full db"
proof -
  obtain db1 where 1: "probe_ok db1" "lookup db1 = [7 \<mapsto> piddb_fresh 7]"
    using piddb.pm.get_new [of empty_piddb 7] by auto
  then have "not_full db1" using not_full_small [of db1 "[(7, piddb_fresh 7)]"] by simp
  then obtain db where 2: "probe_ok db" "lookup db = [7 \<mapsto> piddb_fresh 7, 16391 \<mapsto> piddb_fresh 16391]"
    using piddb.pm.get_new [OF 1(1), of 16391] 1(2) by auto
  then have "not_full db" using not_full_small [of db "[(16391, piddb_fresh 16391), (7, piddb_fresh 7)]"] by simp
  with 2 show ?thesis by blast
qed

subsection \<open>Claims\<close>

text \<open>
  C19. \<^verbatim>\<open>piddb_delete\<close> on a well-formed table with a free slot returns, keeps the table well formed
  (every remaining entry is found again on its probe path, the counter counts the used slots) and
  removes exactly the given process: every other process keeps its entry, wherever the rehashing
  of the cluster moved it.
\<close>

theorem piddb_delete_removes:
  assumes "probe_ok db" "not_full db"
  shows "\<exists>db'. piddb_delete db p = Inr db' \<and> probe_ok db' \<and> lookup db' = (lookup db)(p := None)"
  unfolding piddb_delete_def by (rule piddb.pm.del_removes [OF assms])

theorem piddb_delete_removes_witness:
  "\<exists>db. probe_ok db \<and> not_full db \<and> lookup db = [7 \<mapsto> piddb_fresh 7, 16391 \<mapsto> piddb_fresh 16391] \<and>
     pid_hash 7 = pid_hash 16391 \<and>
     (\<exists>db'. piddb_delete db 7 = Inr db' \<and> probe_ok db' \<and> lookup db' = [16391 \<mapsto> piddb_fresh 16391])"
proof -
  obtain db where db: "probe_ok db" "lookup db = [7 \<mapsto> piddb_fresh 7, 16391 \<mapsto> piddb_fresh 16391]" "not_full db"
    using two_entries by blast
  have "lookup db = [7 \<mapsto> piddb_fresh 7, 16391 \<mapsto> piddb_fresh 16391]" by (rule db(2))
  then have "(lookup db)(7 := None) = [16391 \<mapsto> piddb_fresh 16391]" by (auto simp: fun_eq_iff)
  then show ?thesis using piddb_delete_removes [OF db(1,3), of 7] db by (auto simp: pid_hash_def)
qed

end
