(* ===== verification/Exec_Proc.thy ===== *)
theory Exec_Proc
  imports Common
begin

text \<open>
  How the Linux tracer of \<^verbatim>\<open>src/c/exec.c\<close> reads integers from messages and facts from \<^verbatim>\<open>/proc\<close>.

  The file system is a parameter: a record \<open>procfs\<close> of what \<^verbatim>\<open>fopen\<close>/\<^verbatim>\<open>fread\<close>, \<^verbatim>\<open>readlink\<close>,
  \<^verbatim>\<open>stat\<close> and \<^verbatim>\<open>getpwuid\<close> give for a process (\<open>None\<close> for a failing call). \<^verbatim>\<open>read_file\<close> returns the
  whole content, so a reader is a function of it. Allocation succeeds.
\<close>

section \<open>Definitions\<close>

subsection \<open>Little-endian integers\<close>

definition le32 :: "byte \<Rightarrow> byte \<Rightarrow> byte \<Rightarrow> byte \<Rightarrow> u32" where
  "le32 a b c d = ucast a OR push_bit 8 (ucast b) OR push_bit 16 (ucast c) OR push_bit 24 (ucast d)"

definition le32_at :: "byte list \<Rightarrow> nat \<Rightarrow> u32 outcome" where
  "le32_at p i =
     and_then (byte_at p i) (\<lambda>a. and_then (byte_at p (i + 1)) (\<lambda>b.
     and_then (byte_at p (i + 2)) (\<lambda>c. and_then (byte_at p (i + 3)) (\<lambda>d. Inr (le32 a b c d)))))"

definition le64_at :: "byte list \<Rightarrow> nat \<Rightarrow> u64 outcome" where
  "le64_at p i = and_then (le32_at p i) (\<lambda>l. and_then (le32_at p (i + 4)) (\<lambda>h.
     Inr (ucast l OR push_bit 32 (ucast h))))"

definition put32 :: "u32 \<Rightarrow> byte list" where
  "put32 v = [ucast (v AND 0xff), ucast (drop_bit 8 v AND 0xff), ucast (drop_bit 16 v AND 0xff),
     ucast (drop_bit 24 v AND 0xff)]"

definition put16 :: "u16 \<Rightarrow> byte list" where
  "put16 v = [ucast (v AND 0xff), ucast (drop_bit 8 v AND 0xff)]"

subsection \<open>The process file system\<close>

record procfs =
  f_cmdline :: "i32 \<Rightarrow> byte list option"
  f_comm :: "i32 \<Rightarrow> byte list option"
  f_environ :: "i32 \<Rightarrow> byte list option"
  f_stat :: "i32 \<Rightarrow> byte list option"
  l_exe :: "i32 \<Rightarrow> string option"
  l_cwd :: "i32 \<Rightarrow> (bool + string)"  \<comment> \<open>\<open>Inl eacces\<close> when \<^verbatim>\<open>readlink\<close> fails\<close>
  s_owner :: "i32 \<Rightarrow> u32 option"
  pw_name :: "u32 \<Rightarrow> string option"

text \<open>The NUL-separated vectors of \<^verbatim>\<open>cmdline\<close> and \<^verbatim>\<open>environ\<close>; \<open>acc\<close> holds the bytes since \<^verbatim>\<open>start\<close>.\<close>

fun split_nul :: "byte list \<Rightarrow> byte list \<Rightarrow> string list" where
  "split_nul acc [] = [map chr8 (rev acc)]"
| "split_nul acc (b # bs) = (if b = 0 then map chr8 (rev acc) # split_nul [] bs else split_nul (b # acc) bs)"

definition trim_nuls :: "byte list \<Rightarrow> byte list" where
  "trim_nuls d = rev (dropWhile (\<lambda>b. b = 0) (rev d))"

definition nul_vector :: "byte list option \<Rightarrow> string list" where
  "nul_vector f =
     (case f of None \<Rightarrow> []
      | Some d \<Rightarrow> if d = [] then [] else if trim_nuls d = [] then [] else split_nul [] (trim_nuls d))"

definition readCmdline :: "procfs \<Rightarrow> i32 \<Rightarrow> string list" where
  "readCmdline fs p = nul_vector (f_cmdline fs p)"

definition readEnviron :: "procfs \<Rightarrow> i32 \<Rightarrow> string list" where
  "readEnviron fs p = nul_vector (f_environ fs p)"

text \<open>A heap buffer read as a C string ends at its first NUL.\<close>

definition readComm :: "procfs \<Rightarrow> i32 \<Rightarrow> string" where
  "readComm fs p =
     (case f_comm fs p of None \<Rightarrow> ''''
      | Some d \<Rightarrow> cstr (rev (dropWhile (\<lambda>b. b = 10) (rev d))))"

text \<open>The pointer behind the last slash.\<close>

fun base_loop :: "string \<Rightarrow> string \<Rightarrow> string" where
  "base_loop base [] = base"
| "base_loop base (c # cs) = base_loop (if c = CHR ''/'' then cs else base) cs"

definition readFirstArg :: "procfs \<Rightarrow> i32 \<Rightarrow> string" where
  "readFirstArg fs p =
     (case readCmdline fs p of [] \<Rightarrow> readComm fs p
      | a0 # _ \<Rightarrow>
          let base = base_loop a0 a0
          in if base = '''' then (if a0 \<noteq> '''' then ''/'' else ''.'') else base)"

definition readExe :: "procfs \<Rightarrow> i32 \<Rightarrow> string" where
  "readExe fs p = (case l_exe fs p of None \<Rightarrow> '''' | Some t \<Rightarrow> snprintf_s 4096 t)"

definition procCwd :: "procfs \<Rightarrow> i32 \<Rightarrow> string" where
  "procCwd fs p =
     (case l_cwd fs p of Inl eacces \<Rightarrow> if eacces then ''EACCES'' else ''EUNKNOWN'' | Inr t \<Rightarrow> snprintf_s 4096 t)"

definition procUser :: "procfs \<Rightarrow> i32 \<Rightarrow> string" where
  "procUser fs p =
     (case s_owner fs p of None \<Rightarrow> ''?''
      | Some u \<Rightarrow> (case pw_name fs u of None \<Rightarrow> snprintf_s 256 (dec_nat (unat u)) | Some n \<Rightarrow> snprintf_s 256 n))"

subsection \<open>The parent in /proc/PID/stat\<close>

text \<open>The second field as a number: at most 31 characters, all of it a number that fits \<^verbatim>\<open>int32_t\<close>.\<close>

definition ppid_field :: "string \<Rightarrow> i32" where
  "ppid_field f =
     (if length f \<ge> 32 then - 1
      else let s = takeWhile (\<lambda>c. c \<noteq> CHR 0x00) f; (v, rest, erange) = strtol10 s
           in if rest = s \<or> rest \<noteq> [] \<or> erange \<or> v < - 2147483648 \<or> v > 2147483647 then - 1 else of_int v)"

function stat_fields :: "nat \<Rightarrow> string \<Rightarrow> i32" where
  "stat_fields field s =
     (let s1 = dropWhile isspace s; f = takeWhile (\<lambda>c. \<not> isspace c) s1
      in if s1 = [] then - 1
         else if field = 1 then ppid_field f
         else stat_fields (field + 1) (drop (length f) s1))"
  by pat_completeness auto
termination
proof (relation "measure (\<lambda>(field, s). length s)")
  fix field :: nat and s s1 f :: string
  assume s1: "s1 = dropWhile isspace s" and f: "f = takeWhile (\<lambda>c. \<not> isspace c) s1" and ne: "s1 \<noteq> []"
  have "f \<noteq> []" using hd_dropWhile [of isspace s] ne by (cases s1) (auto simp: s1 [symmetric] f)
  then have "0 < length f" by simp
  moreover have "length s1 \<le> length s" unfolding s1 by (rule length_dropWhile_le)
  moreover have "0 < length s1" using ne by simp
  ultimately have "length s1 - length f < length s" by linarith
  then show "((field + 1, drop (length f) s1), field, s) \<in> measure (\<lambda>(field, s). length s)" by simp
qed simp

declare stat_fields.simps [simp del]

definition statPPID :: "procfs \<Rightarrow> i32 \<Rightarrow> i32" where
  "statPPID fs p =
     (case f_stat fs p of None \<Rightarrow> - 1
      | Some d \<Rightarrow>
          let s = map chr8 d
          in case strrchr s (CHR '')'') of None \<Rightarrow> - 1
             | Some idx \<Rightarrow> stat_fields 0 (dropWhile (\<lambda>c. c = CHR '' '') (drop (idx + 1) s)))"

section \<open>Integers\<close>

lemma le32_at_in [simp, byte_simps]:
  "i + 3 < length p \<Longrightarrow> le32_at p i = Inr (le32 (p ! i) (p ! (i + 1)) (p ! (i + 2)) (p ! (i + 3)))"
  by (simp add: le32_at_def)

lemma le64_at_in [simp, byte_simps]: "i + 7 < length p \<Longrightarrow> \<exists>v. le64_at p i = Inr v"
  by (simp add: le64_at_def)

lemma length_put32 [simp]: "length (put32 v) = 4"
  by (simp add: put32_def)

lemma length_put16 [simp]: "length (put16 v) = 2"
  by (simp add: put16_def)

lemma ucast_low_byte: "ucast (w AND 0xff :: 'a::len word) = (ucast w :: byte)"
proof -
  have eq: "(0xff :: 'a word) = mask 8" by (simp add: mask_eq_exp_minus_1)
  show ?thesis unfolding eq by (rule bit_word_eqI) (auto simp: bit_simps dest: bit_imp_le_length)
qed

lemma le32_put32: "le32 (put32 v ! 0) (put32 v ! 1) (put32 v ! 2) (put32 v ! 3) = v"
proof -
  have "le32 (ucast v) (ucast (drop_bit 8 v)) (ucast (drop_bit 16 v)) (ucast (drop_bit 24 v)) = v"
  proof (unfold le32_def, rule bit_word_eqI)
    fix n :: nat
    assume "n < LENGTH(32)"
    moreover have "n < 8 \<or> 8 \<le> n \<and> n < 16 \<or> 16 \<le> n \<and> n < 24 \<or> 24 \<le> n" by linarith
    ultimately show "bit ((ucast (ucast v :: byte) :: u32) OR push_bit 8 (ucast (ucast (drop_bit 8 v) :: byte)) OR
        push_bit 16 (ucast (ucast (drop_bit 16 v) :: byte)) OR push_bit 24 (ucast (ucast (drop_bit 24 v) :: byte))) n = bit v n"
      by (elim disjE) (auto simp: bit_simps)
  qed
  then show ?thesis by (simp add: put32_def ucast_low_byte)
qed

text \<open>The reader of a 32-bit field finds what the writer put there.\<close>

lemma le32_at_put32 [simp, byte_simps]:
  assumes "i = length pre"
  shows "le32_at (pre @ put32 v @ post) i = Inr v"
proof -
  have "(pre @ put32 v @ post) ! (length pre + k) = put32 v ! k" if "k < 4" for k
    using that by (simp add: nth_append)
  from this [of 0] this [of 1] this [of 2] this [of 3] le32_put32 [of v] show ?thesis
    using assms by (simp add: le32_at_in)
qed

section \<open>Argument vectors\<close>

definition nul_encode :: "string list \<Rightarrow> byte list" where
  "nul_encode vs = concat (map (\<lambda>s. map ord8 s @ [0]) vs)"

lemma ord8_eq_0 [simp]: "ord8 c = 0 \<longleftrightarrow> c = CHR 0x00"
  by (metis chr8_0 chr8_ord8 ord8_chr8)

lemma map_chr8_ord8 [simp]: "map chr8 (map ord8 s) = s"
  by (simp add: map_idI)

lemma split_nul_token: "0 \<notin> set bs \<Longrightarrow> split_nul acc (bs @ 0 # r) = map chr8 (rev acc @ bs) # split_nul [] r"
  by (induction bs arbitrary: acc) auto

lemma split_nul_last: "0 \<notin> set bs \<Longrightarrow> split_nul acc bs = [map chr8 (rev acc @ bs)]"
  by (induction bs arbitrary: acc) auto

lemma split_nul_encode:
  assumes "\<forall>s \<in> set vs. CHR 0x00 \<notin> set s" "CHR 0x00 \<notin> set x"
  shows "split_nul [] (nul_encode vs @ map ord8 x) = vs @ [x]"
  using assms(1)
proof (induction vs)
  case Nil
  have "0 \<notin> set (map ord8 x)" using assms(2) by auto
  then show ?case using split_nul_last [of "map ord8 x" "[]"] by (simp add: nul_encode_def del: map_map)
next
  case (Cons v vs)
  have "0 \<notin> set (map ord8 v)" using Cons.prems by auto
  then show ?case
    using Cons split_nul_token [of "map ord8 v" "[]" "nul_encode vs @ map ord8 x"]
    by (simp add: nul_encode_def del: map_map)
qed

lemma trim_nuls_snoc [simp]: "trim_nuls (xs @ [0]) = trim_nuls xs"
  by (simp add: trim_nuls_def)

lemma trim_nuls_ends: "b \<noteq> 0 \<Longrightarrow> trim_nuls (xs @ [b]) = xs @ [b]"
  by (simp add: trim_nuls_def)

lemma nul_vector_trim: "nul_vector (Some d) = (if trim_nuls d = [] then [] else split_nul [] (trim_nuls d))"
  by (simp add: nul_vector_def trim_nuls_def)

lemma nul_vector_encode:
  assumes "\<forall>s \<in> set vs. CHR 0x00 \<notin> set s"
  shows "nul_vector (Some (nul_encode vs)) = rev (dropWhile (\<lambda>s. s = '''') (rev vs))"
  using assms
proof (induction vs rule: rev_induct)
  case Nil
  then show ?case by (simp add: nul_vector_def nul_encode_def)
next
  case (snoc x vs)
  have enc: "nul_encode (vs @ [x]) = nul_encode vs @ map ord8 x @ [0]" by (simp add: nul_encode_def)
  show ?case
  proof (cases "x = ''''")
    case True
    then have "nul_vector (Some (nul_encode (vs @ [x]))) = nul_vector (Some (nul_encode vs))"
      using enc by (simp only: nul_vector_trim) simp
    then show ?thesis using snoc True by simp
  next
    case False
    then obtain y c where x: "x = y @ [c]" by (metis rev_exhaust)
    have "c \<noteq> CHR 0x00" using snoc.prems x by auto
    then have "trim_nuls (nul_encode vs @ map ord8 x) = nul_encode vs @ map ord8 x"
      using trim_nuls_ends [of "ord8 c" "nul_encode vs @ map ord8 y"] x by simp
    then have "trim_nuls (nul_encode (vs @ [x])) = nul_encode vs @ map ord8 x"
      using trim_nuls_snoc [of "nul_encode vs @ map ord8 x"] enc by simp
    then show ?thesis using snoc.prems False split_nul_encode [of vs x] by (simp add: nul_vector_trim)
  qed
qed

section \<open>The parent of a process\<close>

lemma ppid_field_dec_nat: "n \<le> 2147483647 \<Longrightarrow> ppid_field (dec_nat n) = of_nat n"
proof -
  assume n: "n \<le> 2147483647"
  have "c \<noteq> CHR 0x00" if "c \<in> set (dec_nat n)" for c using dec_nat_digits [OF that] by (auto simp: isdigit_def)
  then have "takeWhile (\<lambda>c. c \<noteq> CHR 0x00) (dec_nat n) = dec_nat n" by (simp add: takeWhile_eq_all_conv)
  moreover have "length (dec_nat n) \<le> Suc 9" using n by (intro length_dec_nat) simp
  moreover have "strtol10 (dec_nat n) = (int n, [], False)" using n by (simp add: long_max_def)
  ultimately show "ppid_field (dec_nat n) = of_nat n"
    using n show_base_nonempty [of 10 n] by (simp only: ppid_field_def Let_def prod.case) (simp add: eq_commute)
qed

lemma stat_fields_at:
  assumes "f \<noteq> []" "\<And>c. c \<in> set f \<Longrightarrow> \<not> isspace c" "r = [] \<or> isspace (hd r)"
  shows "stat_fields field (f @ r) = (if field = 1 then ppid_field f else stat_fields (field + 1) r)"
proof -
  have "dropWhile isspace (f @ r) = f @ r" using assms(1,2) by (cases f) auto
  moreover have "takeWhile (\<lambda>c. \<not> isspace c) (f @ r) = f"
    using takeWhile_dropWhile_run [of f "\<lambda>c. \<not> isspace c" r] assms by blast
  ultimately show ?thesis using assms(1) by (subst stat_fields.simps) (simp add: Let_def)
qed

lemma stat_fields_skip: "stat_fields field (CHR '' '' # s) = stat_fields field s"
  by (subst (1 2) stat_fields.simps) (simp add: isspace_def)

lemma statPPID_record:
  assumes "f_stat fs p = Some (map ord8 (pre @ '') '' @ st @ '' '' @ dec_nat n @ '' '' @ rest))"
    and "st \<noteq> []" "\<And>c. c \<in> set st \<Longrightarrow> \<not> isspace c \<and> c \<noteq> CHR '')''" "CHR '')'' \<notin> set rest" "n \<le> 2147483647"
  shows "statPPID fs p = of_nat n"
proof -
  have nd: "\<not> isspace c \<and> c \<noteq> CHR '')''" if "c \<in> set (dec_nat n)" for c
    using dec_nat_digits [OF that] by (auto simp: isdigit_def isspace_def)
  let ?r = "'' '' @ st @ '' '' @ dec_nat n @ '' '' @ rest"
  have "strrchr (pre @ CHR '')'' # ?r) (CHR '')'') = Some (length pre)"
    using assms(3,4) nd by (intro strrchr_append) auto
  moreover have "dropWhile (\<lambda>c. c = CHR '' '') ?r = st @ '' '' @ dec_nat n @ '' '' @ rest"
    using assms(2,3) by (cases st) (auto simp: isspace_def)
  moreover have "stat_fields 0 (st @ '' '' @ dec_nat n @ '' '' @ rest) = ppid_field (dec_nat n)"
    using assms(2,3) nd stat_fields_at [of st "'' '' @ dec_nat n @ '' '' @ rest" 0]
      stat_fields_at [of "dec_nat n" "'' '' @ rest" 1] by (simp add: stat_fields_skip isspace_def)
  ultimately show ?thesis
    using assms(1,5) ppid_field_dec_nat by (simp add: statPPID_def Let_def del: map_map)
qed

section \<open>Claims\<close>

text \<open>
  Reading back an argument vector: when \<^verbatim>\<open>/proc/PID/cmdline\<close> holds the NUL-terminated arguments
  the kernel puts there, \<^verbatim>\<open>readCmdline\<close> returns exactly these arguments, empty ones in the middle
  included; only empty arguments at the very end are lost (the trailing NULs are trimmed).
\<close>

theorem readCmdline_reads_argv:
  assumes "\<forall>s \<in> set vs. CHR 0x00 \<notin> set s" and "f_cmdline fs p = Some (nul_encode vs)"
  shows "readCmdline fs p = rev (dropWhile (\<lambda>s. s = '''') (rev vs))"
  unfolding readCmdline_def assms(2) by (rule nul_vector_encode [OF assms(1)])

definition sample_fs :: procfs where
  "sample_fs = \<lparr>f_cmdline = (\<lambda>p. if p = 42 then Some (nul_encode [''sh'', '''', ''-c'', '''']) else None),
     f_comm = (\<lambda>p. if p = 43 then Some (map ord8 (''kworker'' @ [CHR 0x0A])) else None),
     f_environ = (\<lambda>p. if p = 42 then Some (nul_encode [''A=b c'']) else None),
     f_stat = (\<lambda>p. if p = 42 then Some (map ord8 (''42 (a) b) S '' @ dec_nat 17 @ '' 0 0'')) else
       if p = 17 then Some (map ord8 (''17 (init) S '' @ dec_nat 1 @ '' 0'')) else None),
     l_exe = (\<lambda>p. Some ''/bin/sh''), l_cwd = (\<lambda>p. Inr ''/tmp''), s_owner = (\<lambda>p. Some 0),
     pw_name = (\<lambda>u. if u = 0 then Some ''root'' else None)\<rparr>"

theorem readCmdline_reads_argv_witness:
  "readCmdline sample_fs 42 = [''sh'', '''', ''-c''] \<and> f_cmdline sample_fs 42 = Some (nul_encode [''sh'', '''', ''-c'', ''''])"
  using readCmdline_reads_argv [of "[''sh'', '''', ''-c'', '''']" sample_fs 42] by (simp add: sample_fs_def)

text \<open>
  \<^verbatim>\<open>statPPID\<close> finds the parent in \<^verbatim>\<open>PID (comm) STATE PPID ...\<close> whatever the command name is,
  parentheses and spaces in it included, as long as no parenthesis follows the name.
\<close>

theorem statPPID_any_comm:
  assumes "f_stat fs p = Some (map ord8 (dec_nat k @ '' ('' @ comm @ '') '' @ st @ '' '' @ dec_nat n @ '' '' @ rest))"
    and "st \<noteq> []" "\<forall>c \<in> set st. \<not> isspace c \<and> c \<noteq> CHR '')''" "CHR '')'' \<notin> set rest" "n \<le> 2147483647"
  shows "statPPID fs p = of_nat n"
  using statPPID_record [of fs p "dec_nat k @ '' ('' @ comm" st n rest] assms by simp

theorem statPPID_any_comm_witness:
  "statPPID \<lparr>f_cmdline = \<lambda>_. None, f_comm = \<lambda>_. None, f_environ = \<lambda>_. None,
     f_stat = \<lambda>_. Some (map ord8 (dec_nat 42 @ '' ('' @ ''a) S 1 (b'' @ '') '' @ ''R'' @ '' '' @ dec_nat 17 @ '' '' @ ''0 0'')),
     l_exe = \<lambda>_. None, l_cwd = \<lambda>_. Inl True, s_owner = \<lambda>_. None, pw_name = \<lambda>_. None\<rparr> 42 = 17"
  using statPPID_any_comm [of _ 42 42 "''a) S 1 (b''" "''R''" 17 "''0 0''"] by (simp add: isspace_def)

end
