(* ===== verification/Double.thy ===== *)
theory Double
  imports CLib
begin

text \<open>
  The floating-point arithmetic the tracers print durations with: non-negative IEEE 754 doubles as
  fractions \<open>(n, d)\<close>, every operation followed by rounding to 53 significant bits, ties to even
  (all values here are far from overflow and from the subnormal range), and \<^verbatim>\<open>%.pf\<close>, which prints
  the exact value rounded to \<open>p\<close> decimals, ties to even.
\<close>

section \<open>Definitions\<close>

text \<open>\<open>n / d\<close> rounded to an integer, ties to even.\<close>

definition rhe :: "nat \<Rightarrow> nat \<Rightarrow> nat" where
  "rhe n d = (let q = n div d; r = n mod d in if 2 * r > d \<or> (2 * r = d \<and> odd q) then q + 1 else q)"

text \<open>The scaling that brings a fraction into \<open>[2\<^sup>5\<^sup>2, 2\<^sup>5\<^sup>3)\<close>: by \<open>2\<^sup>k\<close> up or by \<open>2\<^sup>k\<close> down.\<close>

fun scale_up :: "nat \<Rightarrow> nat \<Rightarrow> nat \<Rightarrow> nat" where
  "scale_up 0 n d = 0"
| "scale_up (Suc b) n d = (if n < 2 ^ 52 * d then Suc (scale_up b (2 * n) d) else 0)"

fun scale_down :: "nat \<Rightarrow> nat \<Rightarrow> nat \<Rightarrow> nat" where
  "scale_down 0 n d = 0"
| "scale_down (Suc b) n d = (if n \<ge> 2 ^ 53 * d then Suc (scale_down b n (2 * d)) else 0)"

definition dbl :: "nat \<times> nat \<Rightarrow> nat \<times> nat" where
  "dbl x = (let (n, d) = x; u = scale_up 1074 n d; v = scale_down 1024 n d
     in if n = 0 then (0, 1) else (rhe (n * 2 ^ u) (d * 2 ^ v) * 2 ^ v, 2 ^ u))"

definition dbl_of_nat :: "nat \<Rightarrow> nat \<times> nat" where
  "dbl_of_nat n = dbl (n, 1)"

definition dbl_div :: "nat \<times> nat \<Rightarrow> nat \<Rightarrow> nat \<times> nat" where
  "dbl_div x k = dbl (fst x, snd x * k)"

definition dbl_add :: "nat \<times> nat \<Rightarrow> nat \<times> nat \<Rightarrow> nat \<times> nat" where
  "dbl_add x y = dbl (fst x * snd y + fst y * snd x, snd x * snd y)"

text \<open>\<^verbatim>\<open>x - y\<close>, clipped at zero as the callers do.\<close>

definition dbl_sub0 :: "nat \<times> nat \<Rightarrow> nat \<times> nat \<Rightarrow> nat \<times> nat" where
  "dbl_sub0 x y = dbl (fst x * snd y - fst y * snd x, snd x * snd y)"

definition fmt_fixed :: "nat \<Rightarrow> nat \<times> nat \<Rightarrow> string" where
  "fmt_fixed p x = (let q = rhe (fst x * 10 ^ p) (snd x)
     in dec_nat (q div 10 ^ p) @ (if p = 0 then '''' else ''.'' @ zero_pad p (dec_nat (q mod 10 ^ p))))"

section \<open>Accuracy\<close>

lemma rhe_near: "0 < d \<Longrightarrow> 2 * n \<le> 2 * d * rhe n d + d \<and> 2 * d * rhe n d \<le> 2 * n + d"
proof -
  assume d: "0 < d"
  define q r where "q = n div d" and "r = n mod d"
  have n: "n = d * q + r" and r: "r < d" using d by (simp_all add: q_def r_def)
  have "rhe n d = (if 2 * r > d \<or> (2 * r = d \<and> odd q) then q + 1 else q)" by (simp add: rhe_def q_def r_def Let_def)
  then show ?thesis using r by (auto simp: n algebra_simps)
qed

lemma rhe_exact [simp]: "0 < d \<Longrightarrow> rhe (d * q) d = q"
  by (simp add: rhe_def)

lemma scale_up_ge: "k \<le> b \<Longrightarrow> (0 < k \<Longrightarrow> n * 2 ^ (k - 1) < 2 ^ 52 * d) \<Longrightarrow> k \<le> scale_up b n d"
proof (induction b arbitrary: k n)
  case (Suc b)
  show ?case
  proof (cases k)
    case (Suc j)
    have "n * 1 \<le> n * 2 ^ j" by (rule mult_le_mono2) simp
    then have "n < 2 ^ 52 * d" using Suc.prems(2) Suc by (metis diff_Suc_1 le_less_trans mult.right_neutral zero_less_Suc)
    moreover have "j \<le> scale_up b (2 * n) d"
    proof (rule Suc.IH)
      show "2 * n * 2 ^ (j - 1) < 2 ^ 52 * d" if "0 < j"
        using Suc.prems(2) \<open>k = Suc j\<close> that by (cases j) (simp_all add: mult.assoc)
    qed (use Suc.prems \<open>k = Suc j\<close> in simp)
    ultimately show ?thesis using Suc by simp
  qed simp
qed simp

lemma scale_down_0: "n < 2 ^ 53 * d \<Longrightarrow> scale_down b n d = 0"
  by (cases b) auto

lemma dbl_small: "n < 2 ^ 53 * d \<Longrightarrow> dbl (n, d) = (if n = 0 then (0, 1) else (rhe (n * 2 ^ scale_up 1074 n d) d, 2 ^ scale_up 1074 n d))"
  by (simp only: dbl_def Let_def prod.case scale_down_0) simp

lemma dbl_of_nat_exact: "n < 2 ^ 53 \<Longrightarrow> \<exists>w. dbl_of_nat n = (n * 2 ^ w, 2 ^ w)"
proof -
  assume n: "n < 2 ^ 53"
  have "rhe m 1 = m" for m using rhe_exact [of 1 m] by simp
  then show ?thesis using dbl_small [of n 1] n by (auto simp: dbl_of_nat_def simp del: power_numeral intro: exI [of _ 0])
qed

text \<open>A duration in nanoseconds, converted to a \<^verbatim>\<open>double\<close>, divided by \<open>10\<^sup>9\<close> and printed with three
  decimals: the printed milliseconds.\<close>

definition ms_of_ns :: "nat \<Rightarrow> nat" where
  "ms_of_ns ns = (let x = dbl_div (dbl_of_nat ns) 1000000000 in rhe (fst x * 10 ^ 3) (snd x))"

lemma ms_bounds:
  fixes U m ms ns :: nat
  assumes "2048 \<le> U" "2 * (ns * U) \<le> 2 * 1000000000 * m + 1000000000" "2 * 1000000000 * m \<le> 2 * (ns * U) + 1000000000"
    and "2 * (m * 1000) \<le> 2 * U * ms + U" "2 * U * ms \<le> 2 * (m * 1000) + U"
  shows "ms * 1000000 < ns + 1000000" "ns < ms * 1000000 + 1000000"
proof -
  have "2 * U * (ms * 1000000) < 2 * U * (ns + 1000000)" using assms(1,3,5) by (simp add: algebra_simps)
  then show "ms * 1000000 < ns + 1000000" by simp
  have "2 * U * ns < 2 * U * (ms * 1000000 + 1000000)" using assms(1,2,4) by (simp add: algebra_simps)
  then show "ns < ms * 1000000 + 1000000" by simp
qed

lemma ms_of_ns_near:
  assumes "ns < 2 ^ 53"
  shows "ms_of_ns ns * 1000000 < ns + 1000000" "ns < ms_of_ns ns * 1000000 + 1000000"
proof -
  obtain w where w: "dbl_of_nat ns = (ns * 2 ^ w, 2 ^ w)" using dbl_of_nat_exact [OF assms] by blast
  define N D u where "N = ns * 2 ^ w" and "D = 2 ^ w * (1000000000 :: nat)" and "u = scale_up 1074 N D"
  define m where "m = rhe (N * 2 ^ u) D"
  have "ms_of_ns ns * 1000000 < ns + 1000000 \<and> ns < ms_of_ns ns * 1000000 + 1000000"
  proof (cases "ns = 0")
    case True
    then show ?thesis by (simp add: ms_of_ns_def dbl_of_nat_def dbl_div_def dbl_def rhe_def)
  next
    case False
    have small: "ns * k < K * 1000000000 \<Longrightarrow> N * k < K * D" for k K by (simp add: N_def D_def)
    have "dbl_div (dbl_of_nat ns) 1000000000 = (m, 2 ^ u)"
      using dbl_small [of N D] small [of 1 "2 ^ 53"] assms False
      by (simp add: dbl_div_def w N_def D_def u_def m_def)
    then have ms: "ms_of_ns ns = rhe (m * 1000) (2 ^ u)" by (simp add: ms_of_ns_def)
    have "11 \<le> u" unfolding u_def
      by (rule scale_up_ge) (use small [of "2 ^ 10" "2 ^ 52"] assms in simp_all)
    then have "(2 :: nat) ^ 11 \<le> 2 ^ u" by (rule power_increasing) simp
    then have U: "(2048 :: nat) \<le> 2 ^ u" by simp
    have "0 < D" by (simp add: D_def)
    from rhe_near [OF this, of "N * 2 ^ u"]
    have "2 ^ w * (2 * (ns * 2 ^ u)) \<le> 2 ^ w * (2 * 1000000000 * m + 1000000000)"
      "2 ^ w * (2 * 1000000000 * m) \<le> 2 ^ w * (2 * (ns * 2 ^ u) + 1000000000)"
      unfolding m_def [symmetric] by (simp_all add: N_def D_def algebra_simps)
    then have "2 * (ns * 2 ^ u) \<le> 2 * 1000000000 * m + 1000000000" "2 * 1000000000 * m \<le> 2 * (ns * 2 ^ u) + 1000000000"
      by (simp_all only: mult_le_cancel1) simp_all
    then show ?thesis
      using ms_bounds [OF U, of ns m "ms_of_ns ns"] rhe_near [of "2 ^ u" "m * 1000"] by (simp add: ms)
  qed
  then show "ms_of_ns ns * 1000000 < ns + 1000000" "ns < ms_of_ns ns * 1000000 + 1000000" by auto
qed

end
