(* ===== verification/Exec_Linux.thy ===== *)
theory Exec_Linux
  imports Exec_Tables Exec_Proc Double
begin

text \<open>
  The event side of the Linux exec tracer (\<^verbatim>\<open>src/c/exec.c\<close>): ancestry, output lines, the handlers of
  exec and exit events and the walk over a netlink datagram.

  The static variables are two records: the options, set once by \<^verbatim>\<open>exec_main\<close>, and the state, which
  holds the process table and what has been written to \<^verbatim>\<open>out\<close> and to the error stream. The process
  file system is read at one moment per event. The parent walk of \<^verbatim>\<open>pidDepth\<close> takes fuel, since
  nothing in the code bounds it.
\<close>

section \<open>Definitions\<close>

record exec_opts =
  watchPIDs :: "i32 list"
  showCwd :: bool
  showEnv :: bool
  flatMode :: bool
  fullPath :: bool
  showArgs :: bool
  showErrors :: bool
  showExit :: bool
  showUser :: bool
  colorMode :: bool
  colorForce :: bool

record exec_st =
  pdb :: pidDB
  outs :: string
  errs :: string

definition exec_c :: "exec_opts \<Rightarrow> string \<Rightarrow> string \<Rightarrow> string" where
  "exec_c cfg code s = clr (colorMode cfg) code (Some s)"

definition isWatchRoot :: "exec_opts \<Rightarrow> i32 \<Rightarrow> bool" where
  "isWatchRoot cfg p = list_ex (\<lambda>w. w = p) (watchPIDs cfg)"

definition runtimeErr :: "exec_opts \<Rightarrow> string \<Rightarrow> string" where
  "runtimeErr cfg msg = (if \<not> showErrors cfg then '''' else msg @ NL)"

definition sigNames :: "(nat \<times> string) list" where
  "sigNames =
     [(1, ''SIGHUP''), (2, ''SIGINT''), (3, ''SIGQUIT''), (4, ''SIGILL''),
      (5, ''SIGTRAP''), (6, ''SIGABRT''), (7, ''SIGBUS''), (8, ''SIGFPE''),
      (9, ''SIGKILL''), (10, ''SIGUSR1''), (11, ''SIGSEGV''), (12, ''SIGUSR2''),
      (13, ''SIGPIPE''), (14, ''SIGALRM''), (15, ''SIGTERM''), (17, ''SIGCHLD''),
      (18, ''SIGCONT''), (19, ''SIGSTOP''), (20, ''SIGTSTP''), (21, ''SIGTTIN''),
      (22, ''SIGTTOU''), (23, ''SIGURG''), (24, ''SIGXCPU''), (25, ''SIGXFSZ''),
      (26, ''SIGVTALRM''), (27, ''SIGPROF''), (28, ''SIGWINCH''), (29, ''SIGIO''),
      (30, ''SIGPWR''), (31, ''SIGSYS'')]"

definition sigName :: "nat \<Rightarrow> string" where
  "sigName sig = (case map_of sigNames sig of Some s \<Rightarrow> s | None \<Rightarrow> snprintf_s 16 (''SIG'' @ dec_nat sig))"

subsection \<open>Ancestry\<close>

text \<open>The depth and what was written to the error stream.\<close>

fun pidDepth :: "procfs \<Rightarrow> exec_opts \<Rightarrow> pidDB \<Rightarrow> nat \<Rightarrow> i32 \<Rightarrow> (int \<times> string) outcome" where
  "pidDepth fs cfg db 0 p = Inl OutOfFuel"
| "pidDepth fs cfg db (Suc fuel) p =
     (if isWatchRoot cfg p then Inr (0, '''')
      else let ppid = statPPID fs p
           in if sint ppid < 0 then
                Inr (- 1, runtimeErr cfg (''proc-trace-exec: process vanished before we found its parent: pid '' @ dec_int (sint p)))
              else if ppid = 0 then Inr (- 1, '''')
              else if isWatchRoot cfg ppid then Inr (0, '''')
              else case piddb_find db ppid of
                     Some i \<Rightarrow> Inr (depth (tab db i) + 1, '''')
                   | None \<Rightarrow> and_then (pidDepth fs cfg db fuel ppid) (\<lambda>(d, e).
                       if d < 0 then Inr (- 1, e) else Inr (d + 1, e)))"

subsection \<open>Output lines\<close>

text \<open>\<^verbatim>\<open>for (i = 0; i < depth && w + 2 < cap; i++) { dst[w++] = ' '; dst[w++] = ' '; }\<close>\<close>

function indent_loop :: "int \<Rightarrow> nat \<Rightarrow> int \<Rightarrow> nat \<Rightarrow> string" where
  "indent_loop d cap i w = (if i < d \<and> w + 2 < cap then ''  '' @ indent_loop d cap (i + 1) (w + 2) else '''')"
  by pat_completeness auto
termination
  by (relation "measure (\<lambda>(d, cap, i, w). cap - w)") auto

declare indent_loop.simps [simp del]

definition indentStr :: "exec_opts \<Rightarrow> int \<Rightarrow> nat \<Rightarrow> string" where
  "indentStr cfg d cap = (if flatMode cfg \<or> d \<le> 0 \<or> cap = 0 then '''' else indent_loop d cap 0 0)"

definition env_item :: "exec_opts \<Rightarrow> string \<Rightarrow> string" where
  "env_item cfg e =
     '' '' @ (case strchr e (CHR ''='') of
        Some k \<Rightarrow> exec_c cfg ''2'' (shquote (Some (take k e)) @ ''='' @ shquote (Some (drop (k + 1) e)))
      | None \<Rightarrow> exec_c cfg ''2'' (shquote (Some e)))"

definition arg_items :: "exec_opts \<Rightarrow> string list \<Rightarrow> string" where
  "arg_items cfg argv =
     (if showArgs cfg \<and> length argv > 1
      then concat (map (\<lambda>a. '' '' @ exec_c cfg ''2'' (shquote (Some a))) (tl argv)) else '''')"

definition exec_lead :: "procfs \<Rightarrow> exec_opts \<Rightarrow> i32 \<Rightarrow> int \<Rightarrow> string" where
  "exec_lead fs cfg p d =
     indentStr cfg d 1024 @ exec_c cfg ''33'' (snprintf_s 16 (dec_int (sint p)))
     @ (if showExit cfg then exec_c cfg ''32'' ''+'' else '''')
     @ (if showUser cfg
        then (let name = procUser fs p; wrapped = snprintf_s 300 ('' <'' @ name @ ''>'')
              in exec_c cfg (if name = ''root'' then ''91'' else ''92'') wrapped)
        else '''')
     @ '' ''
     @ (if showCwd cfg then exec_c cfg ''35'' (shquote (Some (procCwd fs p))) @ exec_c cfg ''2'' '' % '' else '''')"

definition exec_command :: "procfs \<Rightarrow> exec_opts \<Rightarrow> i32 \<Rightarrow> string option" where
  "exec_command fs cfg p =
     (let argv = readCmdline fs p
      in if argv = [] then
           (let comm = readComm fs p
            in if comm = '''' then None else Some (exec_c cfg ''2'' (snprintf_s 300 (''['' @ comm @ '']''))))
         else
           (let exe = readExe fs p;
                cmd = shquote (Some (if fullPath cfg \<and> exe \<noteq> '''' then exe else hd argv))
            in Some (exec_c cfg ''96'' cmd @ arg_items cfg argv)))"

definition printExec :: "procfs \<Rightarrow> exec_opts \<Rightarrow> i32 \<Rightarrow> int \<Rightarrow> string" where
  "printExec fs cfg p d =
     (case exec_command fs cfg p of None \<Rightarrow> ''''
      | Some cmd \<Rightarrow>
          exec_lead fs cfg p d @ cmd
          @ (if showEnv cfg then NL @ ''  '' @ concat (map (env_item cfg) (readEnviron fs p)) else '''') @ NL)"

definition opt_str :: "string option \<Rightarrow> string" where
  "opt_str so = (case so of None \<Rightarrow> '''' | Some s \<Rightarrow> s)"

definition buildExecedLine :: "exec_opts \<Rightarrow> pidEntry \<Rightarrow> i32 \<Rightarrow> string" where
  "buildExecedLine cfg ent p =
     indentStr cfg (depth ent) 1024
     @ snprintf_s 64 (exec_c cfg ''33'' (snprintf_s 16 (dec_int (sint p))))
     @ snprintf_s 64 (exec_c cfg ''31'' ''-'') @ '' ''
     @ exec_c cfg ''2'' (shquote (Some (opt_str (cmdline ent)))) @ '' execed'' @ NL"

definition exit_text :: "exec_opts \<Rightarrow> u32 \<Rightarrow> string" where
  "exit_text cfg exitCode =
     (if exitCode AND 0x7f = 0 then
        (let code = unat (drop_bit 8 exitCode AND 0xff)
         in if code = 0 then snprintf_s 64 (exec_c cfg ''32'' ''status=0'')
            else snprintf_s 64 (exec_c cfg ''31'' (snprintf_s 32 (''status='' @ dec_nat code))))
      else snprintf_s 64 (exec_c cfg ''91'' (snprintf_s 32 (''signal='' @ sigName (unat (exitCode AND 0x7f))))))"

definition elapsed_text :: "u64 \<Rightarrow> u64 \<Rightarrow> string" where
  "elapsed_text tsNs start =
     snprintf_s 32 (''time='' @ fmt_fixed 3 (dbl_div (dbl_of_nat (unat (tsNs - start))) 1000000000) @ ''s'')"

definition exit_line :: "exec_opts \<Rightarrow> pidEntry \<Rightarrow> i32 \<Rightarrow> u32 \<Rightarrow> u64 \<Rightarrow> string" where
  "exit_line cfg saved p exitCode tsNs =
     indentStr cfg (depth saved) 1024
     @ snprintf_s 64 (exec_c cfg ''33'' (snprintf_s 16 (dec_int (sint p))))
     @ snprintf_s 64 (exec_c cfg ''31'' ''-'') @ '' ''
     @ exec_c cfg ''2'' (shquote (Some (opt_str (cmdline saved)))) @ '' exited ''
     @ exit_text cfg exitCode @ '' ''
     @ snprintf_s 64 (exec_c cfg ''36'' (elapsed_text tsNs (startNs saved))) @ NL"

subsection \<open>Event handlers\<close>

definition set_entry :: "pidDB \<Rightarrow> nat \<Rightarrow> pidEntry \<Rightarrow> pidDB" where
  "set_entry db i e = db\<lparr>tab := (tab db)(i := e)\<rparr>"

definition handleExec :: "procfs \<Rightarrow> exec_opts \<Rightarrow> nat \<Rightarrow> byte list \<Rightarrow> u64 \<Rightarrow> exec_st \<Rightarrow> exec_st outcome" where
  "handleExec fs cfg fuel data tsNs st =
     (if length data < 8 then Inr st
      else and_then (le32_at data 0) (\<lambda>p.
           and_then (pidDepth fs cfg (pdb st) fuel p) (\<lambda>(d, e).
             let st1 = st\<lparr>errs := errs st @ e\<rparr>
             in if d < 0 then Inr st1
                else case piddb_get (pdb st1) p of
                  None \<Rightarrow> Inl NullDeref
                | Some (i, created, db) \<Rightarrow>
                    let ent = tab db i;
                        execed = (if showExit cfg \<and> \<not> created \<and> opt_str (cmdline ent) \<noteq> '''' then buildExecedLine cfg ent p else '''');
                        ent' = ent\<lparr>depth := d, startNs := tsNs, cmdline := Some (readFirstArg fs p)\<rparr>
                    in Inr (st1\<lparr>pdb := set_entry db i ent', outs := outs st1 @ execed @ printExec fs cfg p d\<rparr>))))"

definition handleExit :: "exec_opts \<Rightarrow> byte list \<Rightarrow> u64 \<Rightarrow> exec_st \<Rightarrow> exec_st outcome" where
  "handleExit cfg data tsNs st =
     (if length data < 24 then Inr st
      else and_then (le32_at data 0) (\<lambda>p. and_then (le32_at data 8) (\<lambda>exitCode.
        case piddb_find (pdb st) p of
          None \<Rightarrow> Inr st
        | Some i \<Rightarrow>
            let saved = tab (pdb st) i
            in and_then (piddb_delete (pdb st) p) (\<lambda>db.
                 Inr (st\<lparr>pdb := db,
                   outs := outs st @ (if showExit cfg then exit_line cfg saved p exitCode tsNs else '''')\<rparr>)))))"

subsection \<open>Netlink messages\<close>

definition sendMcastOp_buf :: "u32 \<Rightarrow> u32 \<Rightarrow> byte list" where
  "sendMcastOp_buf mypid op =
     put32 40 @ put16 3 @ put16 0 @ put32 0 @ put32 mypid
     @ put32 1 @ put32 1 @ put32 0 @ put32 0 @ put16 4 @ put16 0 @ put32 op"

definition nlmsg_align :: "u32 \<Rightarrow> nat" where
  "nlmsg_align len = unat ((len + 3) AND NOT 3)"

definition dispatch_event :: "procfs \<Rightarrow> exec_opts \<Rightarrow> nat \<Rightarrow> byte list \<Rightarrow> exec_st \<Rightarrow> exec_st outcome" where
  "dispatch_event fs cfg fuel d st =
     (if length d \<ge> 20 + 16 then
        and_then (le32_at d 0) (\<lambda>idx. and_then (le32_at d 4) (\<lambda>val.
          if idx = 1 \<and> val = 1 then
            and_then (le32_at d 20) (\<lambda>what. and_then (le64_at d (20 + 8)) (\<lambda>tsNs.
              let ev = drop (20 + 16) d
              in if what = 0x00000002 then handleExec fs cfg fuel ev tsNs st
                 else if what = 0x80000000 then handleExit cfg ev tsNs st
                 else Inr st))
          else Inr st))
      else Inr st)"

lemma and_then_cong [fundef_cong]:
  "m = m' \<Longrightarrow> (\<And>x. m' = Inr x \<Longrightarrow> f x = f' x) \<Longrightarrow> and_then m f = and_then m' f'"
  by (cases m') auto

function dispatchNlMsg :: "procfs \<Rightarrow> exec_opts \<Rightarrow> nat \<Rightarrow> byte list \<Rightarrow> nat \<Rightarrow> exec_st \<Rightarrow> exec_st outcome" where
  "dispatchNlMsg fs cfg fuel data off st =
     (if length data - off \<ge> 16 then
        and_then (le32_at data off) (\<lambda>len.
          if unat len < 16 \<or> unat len > length data - off then Inr st
          else and_then (dispatch_event fs cfg fuel (take (unat len - 16) (drop (off + 16) data)) st) (\<lambda>st'.
                 if nlmsg_align len = 0 \<or> nlmsg_align len > length data - off then Inr st'
                 else dispatchNlMsg fs cfg fuel data (off + nlmsg_align len) st'))
      else Inr st)"
  by pat_completeness auto
termination
  by (relation "measure (\<lambda>(fs, cfg, fuel, data, off, st). length data - off)") auto

declare dispatchNlMsg.simps [simp del]

section \<open>Ancestry\<close>

definition parent :: "procfs \<Rightarrow> i32 \<Rightarrow> i32 option" where
  "parent fs p = (let q = statPPID fs p in if sint q \<le> 0 then None else Some q)"

text \<open>The depth below the nearest watched ancestor; children of a watched process have depth 0, too.\<close>

inductive depth_of :: "procfs \<Rightarrow> exec_opts \<Rightarrow> i32 \<Rightarrow> int \<Rightarrow> bool" for fs cfg where
  root: "isWatchRoot cfg p \<Longrightarrow> depth_of fs cfg p 0"
| child: "\<not> isWatchRoot cfg p \<Longrightarrow> parent fs p = Some q \<Longrightarrow> isWatchRoot cfg q \<Longrightarrow> depth_of fs cfg p 0"
| deeper: "\<not> isWatchRoot cfg p \<Longrightarrow> parent fs p = Some q \<Longrightarrow> \<not> isWatchRoot cfg q \<Longrightarrow> depth_of fs cfg q d \<Longrightarrow>
    depth_of fs cfg p (d + 1)"

inductive_simps depth_of_iff: "depth_of fs cfg p d"

lemma depth_of_nonneg: "depth_of fs cfg p d \<Longrightarrow> 0 \<le> d"
  by (induction rule: depth_of.induct) auto

lemma depth_of_unique: "depth_of fs cfg p d \<Longrightarrow> depth_of fs cfg p d' \<Longrightarrow> d = d'"
proof (induction arbitrary: d' rule: depth_of.induct)
  case (root p)
  then show ?case unfolding depth_of_iff [of fs cfg p d'] by auto
next
  case (child p q)
  then show ?case unfolding depth_of_iff [of fs cfg p d'] by auto
next
  case (deeper p q d)
  from deeper.prems deeper.hyps obtain k where "d' = k + 1" "depth_of fs cfg q k"
    unfolding depth_of_iff [of fs cfg p d'] by auto
  then show ?case using deeper.IH by auto
qed

lemma depth_of_parent:
  "\<not> isWatchRoot cfg p \<Longrightarrow> parent fs p = Some q \<Longrightarrow> \<not> isWatchRoot cfg q \<Longrightarrow>
   depth_of fs cfg p d \<longleftrightarrow> depth_of fs cfg q (d - 1)"
  unfolding depth_of_iff [of fs cfg p d] by (auto intro: exI [of _ "d - 1"])

lemma depth_of_orphan: "\<not> isWatchRoot cfg p \<Longrightarrow> parent fs p = None \<Longrightarrow> \<not> depth_of fs cfg p d"
  unfolding depth_of_iff [of fs cfg p d] by auto

definition depths_true :: "procfs \<Rightarrow> exec_opts \<Rightarrow> pidDB \<Rightarrow> bool" where
  "depths_true fs cfg db \<longleftrightarrow> (\<forall>q e. lookup db q = Some e \<longrightarrow> depth_of fs cfg q (depth e))"

definition acyclic_parents :: "procfs \<Rightarrow> (i32 \<Rightarrow> nat) \<Rightarrow> bool" where
  "acyclic_parents fs rank \<longleftrightarrow> (\<forall>p q. parent fs p = Some q \<longrightarrow> rank q < rank p)"

lemma pidDepth_spec:
  assumes "acyclic_parents fs rank" "depths_true fs cfg db" "rank p < fuel"
  shows "\<exists>d e. pidDepth fs cfg db fuel p = Inr (d, e) \<and>
    (if \<exists>k. depth_of fs cfg p k then depth_of fs cfg p d else d = - 1)"
  using assms(3)
proof (induction fuel arbitrary: p)
  case (Suc fuel)
  let ?q = "statPPID fs p"
  consider (root) "isWatchRoot cfg p" | (none) "\<not> isWatchRoot cfg p" "parent fs p = None"
    | (child) "\<not> isWatchRoot cfg p" "parent fs p = Some ?q" "isWatchRoot cfg ?q"
    | (walk) "\<not> isWatchRoot cfg p" "parent fs p = Some ?q" "\<not> isWatchRoot cfg ?q"
    by (cases "sint ?q \<le> 0"; cases "isWatchRoot cfg p"; cases "isWatchRoot cfg ?q") (auto simp: parent_def Let_def)
  then show ?case
  proof cases
    case root
    then show ?thesis by (auto intro: depth_of.root)
  next
    case none
    then have "sint ?q < 0 \<or> ?q = 0" by (auto simp: parent_def Let_def split: if_splits) (metis le_less signed_eq_0_iff)
    then show ?thesis using none by (auto simp: Let_def depth_of_orphan)
  next
    case child
    then have "\<not> sint ?q < 0" "?q \<noteq> 0" by (auto simp: parent_def Let_def split: if_splits)
    then show ?thesis using child by (auto simp: Let_def intro: depth_of.child)
  next
    case walk
    then have pos: "\<not> sint ?q < 0" "?q \<noteq> 0" by (auto simp: parent_def Let_def split: if_splits)
    note up = depth_of_parent [OF walk]
    show ?thesis
    proof (cases "piddb_find db ?q")
      case (Some i)
      then have "depth_of fs cfg ?q (depth (tab db i))"
        using assms(2) by (simp add: depths_true_def lookup_def piddb_find_def)
      then have "depth_of fs cfg p (depth (tab db i) + 1)" using up by simp
      then show ?thesis using Some walk pos by (auto simp: Let_def)
    next
      case None
      have "rank ?q < fuel" using assms(1) walk(2) Suc.prems by (fastforce simp: acyclic_parents_def)
      from Suc.IH [OF this] obtain d e where ih: "pidDepth fs cfg db fuel ?q = Inr (d, e)"
        "if \<exists>k. depth_of fs cfg ?q k then depth_of fs cfg ?q d else d = - 1" by blast
      have ex: "(\<exists>k. depth_of fs cfg p k) \<longleftrightarrow> (\<exists>k. depth_of fs cfg ?q k)"
        using up by (metis add_diff_cancel)
      show ?thesis
      proof (cases "\<exists>k. depth_of fs cfg ?q k")
        case True
        then have "depth_of fs cfg ?q d" "0 \<le> d" using ih(2) depth_of_nonneg by auto
        moreover from this have "depth_of fs cfg p (d + 1)" using up by simp
        ultimately show ?thesis using ih(1) None walk pos by (auto simp: Let_def)
      next
        case False
        then show ?thesis using ih None walk pos ex by (auto simp: Let_def)
      qed
    qed
  qed
qed simp

section \<open>Handlers\<close>

definition traced :: "i32 \<Rightarrow> int \<Rightarrow> u64 \<Rightarrow> string \<Rightarrow> pidEntry" where
  "traced p d tsNs cmd = \<lparr>used = True, e_pid = p, depth = d, startNs = tsNs, cmdline = Some cmd\<rparr>"

lemma used_entry: "probe_ok db \<Longrightarrow> lookup db p = Some e \<Longrightarrow> used e \<and> e_pid e = p"
  by (auto simp: lookup_iff entries_def used_slots_def)

lemma piddb_find_lookup: "piddb_find db p = Some i \<Longrightarrow> lookup db p = Some (tab db i)"
  and piddb_find_None: "piddb_find db p = None \<longleftrightarrow> lookup db p = None"
  by (auto simp: lookup_def piddb_find_def)

text \<open>What the handler writes for a process that was already in the table.\<close>

definition execed_text :: "exec_opts \<Rightarrow> pidEntry option \<Rightarrow> i32 \<Rightarrow> string" where
  "execed_text cfg old p =
     (case old of None \<Rightarrow> ''''
      | Some ent \<Rightarrow> if showExit cfg \<and> opt_str (cmdline ent) \<noteq> '''' then buildExecedLine cfg ent p else '''')"

lemma handleExec_tracked:
  assumes ok: "probe_ok (pdb st)" and room: "not_full (pdb st)"
    and ev: "8 \<le> length data" "le32_at data 0 = Inr p"
    and depth: "pidDepth fs cfg (pdb st) fuel p = Inr (d, e)" "0 \<le> d"
  shows "\<exists>st'. handleExec fs cfg fuel data tsNs st = Inr st' \<and> probe_ok (pdb st') \<and>
    lookup (pdb st') = (lookup (pdb st))(p \<mapsto> traced p d tsNs (readFirstArg fs p)) \<and> errs st' = errs st @ e \<and>
    outs st' = outs st @ execed_text cfg (lookup (pdb st) p) p @ printExec fs cfg p d"
proof -
  define old where "old = (case lookup (pdb st) p of None \<Rightarrow> piddb_fresh p | Some x \<Rightarrow> x)"
  obtain i db where get: "piddb_get (pdb st) p = Some (i, lookup (pdb st) p = None, db)" and i: "tab db i = old"
    and wr: "\<And>x. used x \<and> e_pid x = p \<Longrightarrow>
      probe_ok (set_entry db i x) \<and> lookup (set_entry db i x) = (lookup (pdb st))(p \<mapsto> x)"
    unfolding piddb_get_def set_entry_def old_def by (rule piddb.pm.upsert [OF ok room, of p]) blast
  have "used old \<and> e_pid old = p"
    using used_entry [OF ok, of p] by (auto simp: old_def piddb_fresh_def split: option.splits)
  then have new: "old\<lparr>depth := d, startNs := tsNs, cmdline := Some (readFirstArg fs p)\<rparr> = traced p d tsNs (readFirstArg fs p)"
    by (cases old) (simp add: traced_def)
  have line: "(if showExit cfg \<and> \<not> lookup (pdb st) p = None \<and> opt_str (cmdline old) \<noteq> '''' then buildExecedLine cfg old p else '''')
      = execed_text cfg (lookup (pdb st) p) p"
    by (simp add: execed_text_def old_def split: option.splits)
  have "handleExec fs cfg fuel data tsNs st = Inr (st\<lparr>errs := errs st @ e,
      pdb := set_entry db i (old\<lparr>depth := d, startNs := tsNs, cmdline := Some (readFirstArg fs p)\<rparr>),
      outs := outs st @ (if showExit cfg \<and> \<not> lookup (pdb st) p = None \<and> opt_str (cmdline old) \<noteq> ''''
        then buildExecedLine cfg old p else '''') @ printExec fs cfg p d\<rparr>)"
    using get i ev depth by (auto simp: handleExec_def Let_def)
  note this [unfolded new line]
  moreover have "used (traced p d tsNs (readFirstArg fs p)) \<and> e_pid (traced p d tsNs (readFirstArg fs p)) = p"
    by (simp add: traced_def)
  ultimately show ?thesis using wr by simp
qed

lemma handleExec_untracked:
  assumes "8 \<le> length data" "le32_at data 0 = Inr p" "pidDepth fs cfg (pdb st) fuel p = Inr (d, e)" "d < 0"
  shows "handleExec fs cfg fuel data tsNs st = Inr (st\<lparr>errs := errs st @ e\<rparr>)"
  using assms by (simp add: handleExec_def Let_def)

lemma handleExit_spec:
  assumes ok: "probe_ok (pdb st)" and room: "not_full (pdb st)"
    and ev: "24 \<le> length data" "le32_at data 0 = Inr p" "le32_at data 8 = Inr code"
  shows "\<exists>st'. handleExit cfg data tsNs st = Inr st' \<and> probe_ok (pdb st') \<and>
    lookup (pdb st') = (lookup (pdb st))(p := None) \<and> errs st' = errs st \<and>
    outs st' = outs st @ (case lookup (pdb st) p of None \<Rightarrow> ''''
      | Some ent \<Rightarrow> if showExit cfg then exit_line cfg ent p code tsNs else '''')"
proof (cases "piddb_find (pdb st) p")
  case None
  then have "lookup (pdb st) p = None" by (simp add: piddb_find_None)
  then show ?thesis using None ok ev by (simp add: handleExit_def fun_upd_idem)
next
  case (Some i)
  obtain db where "piddb_delete (pdb st) p = Inr db" "probe_ok db" "lookup db = (lookup (pdb st))(p := None)"
    using piddb.pm.del_removes [OF ok room] unfolding piddb_delete_def by blast
  then show ?thesis using Some ev piddb_find_lookup [OF Some] by (simp add: handleExit_def Let_def)
qed

text \<open>A full table has no slot for another process, and the handler uses the null pointer.\<close>

lemma piddb_get_full:
  assumes "probe_ok db" "\<not> not_full db" "lookup db p = None"
  shows "piddb_get db p = None"
proof -
  have "card (used_slots (tab db)) = CAP"
    using assms(1,2) card_mono [of "{..<CAP}" "used_slots (tab db)"]
    by (auto simp: not_full_def probe_ok_def used_slots_def)
  then have "used_slots (tab db) = {..<CAP}" by (intro card_subset_eq) (auto simp: used_slots_def)
  then have all: "used (tab db s)" if "s < CAP" for s using that by (auto simp: used_slots_def)
  then have "e_pid (tab db s) \<noteq> p" if "s < CAP" for s
    using that assms(3) lookup_None_iff [OF assms(1)] by (auto simp: entries_def used_slots_def)
  then have "for_first (\<lambda>k. (used (tab db (probe_ix (pid_hash p) k)) \<and> e_pid (tab db (probe_ix (pid_hash p) k)) = p)
      \<or> \<not> used (tab db (probe_ix (pid_hash p) k))) CAP 0 = None"
    using all by (simp add: for_first_None_iff)
  then show ?thesis by (simp add: piddb_get_def probe_get_def Let_def)
qed

lemma handleExec_full:
  assumes "probe_ok (pdb st)" "\<not> not_full (pdb st)" "lookup (pdb st) p = None"
    and "8 \<le> length data" "le32_at data 0 = Inr p" "pidDepth fs cfg (pdb st) fuel p = Inr (d, e)" "0 \<le> d"
  shows "handleExec fs cfg fuel data tsNs st = Inl NullDeref"
  using assms piddb_get_full [OF assms(1-3)] by (simp add: handleExec_def Let_def)

end
