(* ===== verification/Exec_Main.thy ===== *)
theory Exec_Main
  imports Exec_Linux
begin

text \<open>
  The command line of the exec tracer and the Linux main program (\<^verbatim>\<open>exec_main\<close> of \<^verbatim>\<open>src/c/exec.c\<close>).
  The two platforms read the same flags; they differ in the white space \<^verbatim>\<open>-p\<close> trims and in \<^verbatim>\<open>-i\<close>, so
  the reader takes the platform. What the operating system answers is a parameter: which process ids
  do not exist, whether the log file opens, what each \<^verbatim>\<open>recvfrom\<close> returns.
\<close>

section \<open>Definitions\<close>

datatype platform = Linux | Darwin

record exec_args =
  x_opts :: exec_opts
  x_out :: "string option"
  x_poll :: int
  x_cmd :: "string list"

text \<open>How the program leaves while it reads its flags: a message and status 1, or the usage text.\<close>

datatype leave = Fatal string | UsageText

definition initial_opts :: exec_opts where
  "initial_opts = \<lparr>watchPIDs = [], showCwd = False, showEnv = False, flatMode = False, fullPath = False,
     showArgs = True, showErrors = True, showExit = False, showUser = False, colorMode = False,
     colorForce = False\<rparr>"

definition initial_args :: exec_args where
  "initial_args = \<lparr>x_opts = initial_opts, x_out = None, x_poll = 50, x_cmd = []\<rparr>"

subsection \<open>The -p list\<close>

definition trim_pid :: "platform \<Rightarrow> string \<Rightarrow> string" where
  "trim_pid pf s =
     (case pf of
        Linux \<Rightarrow> trim_right isspace (trim_left isspace s)
      | Darwin \<Rightarrow> trim_right (\<lambda>c. c \<in> set [CHR '' '', CHR 0x09, CHR 0x0A, CHR 0x0D]) (trim_left is_blank s))"

fun pid_items :: "platform \<Rightarrow> (int \<Rightarrow> bool) \<Rightarrow> string list \<Rightarrow> i32 list \<Rightarrow> leave + i32 list" where
  "pid_items pf esrch [] ws = Inr ws"
| "pid_items pf esrch (t # ts) ws =
     (let s = trim_pid pf t
      in if s = '''' then pid_items pf esrch ts ws
         else let (v, rest, erange) = strtol10 s
              in if rest = s \<or> rest \<noteq> [] \<or> erange \<or> v \<le> 0 then Inl (Fatal (''-p: invalid PID: '' @ s))
                 else if esrch (to_int32 v) then Inl (Fatal (''-p '' @ dec_int (to_int32 v) @ '': no such process''))
                 else pid_items pf esrch ts (if length ws < 256 then ws @ [of_int v] else ws))"

definition parse_p :: "platform \<Rightarrow> (int \<Rightarrow> bool) \<Rightarrow> string \<Rightarrow> i32 list \<Rightarrow> leave + i32 list" where
  "parse_p pf esrch arg ws = pid_items pf esrch (strtok '','' arg) ws"

subsection \<open>Flags\<close>

definition on_opts :: "(exec_opts \<Rightarrow> exec_opts) \<Rightarrow> exec_args \<Rightarrow> exec_args" where
  "on_opts f a = a\<lparr>x_opts := f (x_opts a)\<rparr>"

definition simple_flag :: "char \<Rightarrow> (exec_opts \<Rightarrow> exec_opts) option" where
  "simple_flag ch =
     (if ch = CHR ''c'' then Some (colorForce_update (\<lambda>_. True))
      else if ch = CHR ''d'' then Some (showCwd_update (\<lambda>_. True))
      else if ch = CHR ''e'' then Some (showEnv_update (\<lambda>_. True))
      else if ch = CHR ''f'' then Some (flatMode_update (\<lambda>_. True))
      else if ch = CHR ''l'' then Some (fullPath_update (\<lambda>_. True))
      else if ch = CHR ''q'' then Some (showArgs_update (\<lambda>_. False))
      else if ch = CHR ''Q'' then Some (showErrors_update (\<lambda>_. False))
      else if ch = CHR ''t'' then Some (showExit_update (\<lambda>_. True))
      else if ch = CHR ''u'' then Some (showUser_update (\<lambda>_. True))
      else None)"

text \<open>\<^verbatim>\<open>switch (ch)\<close>; \<open>rest\<close> are the arguments behind the current one.\<close>

definition parse_flag ::
  "platform \<Rightarrow> (int \<Rightarrow> bool) \<Rightarrow> char \<Rightarrow> string list \<Rightarrow> exec_args \<Rightarrow> leave + (string list \<times> exec_args)" where
  "parse_flag pf esrch ch rest a =
     (case simple_flag ch of
        Some f \<Rightarrow> Inr (rest, on_opts f a)
      | None \<Rightarrow>
          if ch = CHR ''p'' then
            (case rest of [] \<Rightarrow> Inl (Fatal ''flag -p requires an argument'')
             | v # rest' \<Rightarrow>
                 (case parse_p pf esrch v (watchPIDs (x_opts a)) of Inl l \<Rightarrow> Inl l
                  | Inr ws \<Rightarrow> Inr (rest', on_opts (\<lambda>cfg. cfg\<lparr>watchPIDs := ws\<rparr>) a)))
          else if ch = CHR ''o'' then
            (case rest of [] \<Rightarrow> Inl (Fatal ''flag -o requires an argument'')
             | v # rest' \<Rightarrow> Inr (rest', a\<lparr>x_out := Some v\<rparr>))
          else if ch = CHR ''i'' \<and> pf = Darwin then
            (case rest of [] \<Rightarrow> Inl (Fatal ''flag -i requires an argument (poll interval in ms)'')
             | v # rest' \<Rightarrow>
                 let (n, left, erange) = strtol10 v
                 in if left = v \<or> left \<noteq> [] \<or> erange \<or> n \<le> 0 then Inl (Fatal (''-i: invalid interval: '' @ v))
                    else Inr (rest', a\<lparr>x_poll := to_int32 n\<rparr>))
          else if ch = CHR ''h'' then Inl UsageText
          else Inl (Fatal (''unknown flag -'' @ [ch])))"

fun parse_letters ::
  "platform \<Rightarrow> (int \<Rightarrow> bool) \<Rightarrow> string \<Rightarrow> string list \<Rightarrow> exec_args \<Rightarrow> leave + (string list \<times> exec_args)" where
  "parse_letters pf esrch [] rest a = Inr (rest, a)"
| "parse_letters pf esrch (ch # chs) rest a =
     (case parse_flag pf esrch ch rest a of Inl l \<Rightarrow> Inl l
      | Inr (rest', a') \<Rightarrow> parse_letters pf esrch chs rest' a')"

lemma parse_flag_shorter: "parse_flag pf esrch ch rest a = Inr (rest', a') \<Longrightarrow> length rest' \<le> length rest"
  by (auto simp: parse_flag_def split: option.splits if_splits list.splits sum.splits prod.splits)

lemma parse_letters_shorter: "parse_letters pf esrch chs rest a = Inr (rest', a') \<Longrightarrow> length rest' \<le> length rest"
proof (induction chs arbitrary: rest a)
  case (Cons ch chs)
  from Cons.prems obtain r b where "parse_flag pf esrch ch rest a = Inr (r, b)" "parse_letters pf esrch chs r b = Inr (rest', a')"
    by (auto split: sum.splits)
  then show ?case using Cons.IH parse_flag_shorter le_trans by blast
qed simp

function parse_args :: "platform \<Rightarrow> (int \<Rightarrow> bool) \<Rightarrow> string list \<Rightarrow> exec_args \<Rightarrow> leave + exec_args" where
  "parse_args pf esrch [] a = Inr a"
| "parse_args pf esrch (w # ws) a =
     (if length w < 2 \<or> hd w \<noteq> CHR ''-'' then Inr (a\<lparr>x_cmd := w # ws\<rparr>)
      else case parse_letters pf esrch (tl w) ws a of Inl l \<Rightarrow> Inl l
           | Inr (rest, a') \<Rightarrow> parse_args pf esrch rest a')"
  by pat_completeness auto
termination
  by (relation "measure (\<lambda>(pf, esrch, ws, a). length ws)") (auto dest: parse_letters_shorter)

subsection \<open>Set-up and main loop\<close>

record exec_host =
  h_esrch :: "int \<Rightarrow> bool"
  h_opens :: "string \<Rightarrow> bool"
  h_strerror :: string
  h_tty :: "bool option"
  h_no_color :: "string option"
  h_getpid :: i32

definition default_watch :: "exec_opts \<Rightarrow> exec_opts" where
  "default_watch cfg = (if watchPIDs cfg = [] then cfg\<lparr>watchPIDs := [1]\<rparr> else cfg)"

definition decide_color :: "exec_host \<Rightarrow> exec_opts \<Rightarrow> exec_opts" where
  "decide_color h cfg =
     (if colorForce cfg then cfg\<lparr>colorMode := True\<rparr>
      else if h_no_color h = None then cfg\<lparr>colorMode := is_terminal (h_tty h)\<rparr> else cfg)"

definition cmd_watch :: "exec_host \<Rightarrow> string list \<Rightarrow> exec_opts \<Rightarrow> exec_opts" where
  "cmd_watch h cmd cfg = (if cmd \<noteq> [] then cfg\<lparr>watchPIDs := [h_getpid h]\<rparr> else cfg)"

definition exec_setup :: "platform \<Rightarrow> exec_host \<Rightarrow> string list \<Rightarrow> leave + exec_args" where
  "exec_setup pf h args =
     (case parse_args pf (h_esrch h) args initial_args of Inl l \<Rightarrow> Inl l
      | Inr a \<Rightarrow>
          let a1 = on_opts default_watch a
          in if x_out a1 \<noteq> None \<and> x_out a1 \<noteq> Some '''' \<and> \<not> h_opens h (the (x_out a1))
             then Inl (Fatal (''open '' @ the (x_out a1) @ '': '' @ h_strerror h))
             else Inr (on_opts (cmd_watch h (x_cmd a1)) (on_opts (decide_color h) a1)))"

text \<open>The signal handler: the children \<^verbatim>\<open>waitpid\<close> reports set the flag when the command is among them.\<close>

definition on_child :: "i32 \<Rightarrow> i32 list \<Rightarrow> bool \<Rightarrow> bool" where
  "on_child child reaped flag = fold (\<lambda>r f. if r = child then True else f) reaped flag"

text \<open>\<^verbatim>\<open>fatal\<close> and \<^verbatim>\<open>fatalf\<close>: what is written before the program exits with status 1.\<close>

definition fatal_text :: "platform \<Rightarrow> string \<Rightarrow> string" where
  "fatal_text pf msg = (case pf of Linux \<Rightarrow> ''proc-trace-exec: '' | Darwin \<Rightarrow> ''tracep exec: '') @ msg @ NL"

text \<open>The program on any other system: what it writes and its status.\<close>

definition exec_stub :: "string \<Rightarrow> string \<times> int" where
  "exec_stub os =
     (''tracep exec: exec() tracing is only supported on Linux and macOS (this is '' @ os @ '').'' @ NL
      @ ''Only `tracep ca` and `tracep dns` run on '' @ os @ ''.'' @ NL, 1)"

text \<open>The handler is installed only when a command was started (\<open>child\<close> is its process id then); otherwise nothing
  sets the flag.\<close>

definition child_flag :: "i32 option \<Rightarrow> i32 list \<Rightarrow> bool \<Rightarrow> bool" where
  "child_flag child reaped flag = (case child of None \<Rightarrow> flag | Some c \<Rightarrow> on_child c reaped flag)"

definition LISTEN :: u32 where "LISTEN = 1"
definition IGNORE :: u32 where "IGNORE = 2"

text \<open>
  One turn of the event loop: the children \<^verbatim>\<open>waitpid\<close> has reported to the handler since the turn before, the
  process file system, and what \<^verbatim>\<open>recvfrom\<close> gives. The result carries the messages the loop sends.
\<close>

datatype recv = Datagram "byte list" | Interrupted | RecvError string

datatype loop_end = Running | Exited nat string

fun exec_loop ::
  "exec_opts \<Rightarrow> nat \<Rightarrow> u32 \<Rightarrow> i32 option \<Rightarrow> bool \<Rightarrow> (i32 list \<times> procfs \<times> recv) list \<Rightarrow> exec_st
    \<Rightarrow> (loop_end \<times> byte list list \<times> exec_st) outcome" where
  "exec_loop cfg fuel self child flag [] st = Inr (Running, [], st)"
| "exec_loop cfg fuel self child flag ((reaped, fs, r) # turns) st =
     (let exited = child_flag child reaped flag
      in if exited then Inr (Exited 0 '''', [sendMcastOp_buf self IGNORE], st)
         else case r of
           Interrupted \<Rightarrow> exec_loop cfg fuel self child exited turns st
         | RecvError msg \<Rightarrow> Inr (Exited 1 (''recvfrom: '' @ msg), [], st)
         | Datagram d \<Rightarrow> and_then (dispatchNlMsg fs cfg fuel (take 65536 d) 0 st) (exec_loop cfg fuel self child exited turns))"

section \<open>The handler\<close>

lemma on_child_iff: "on_child c reaped flag \<longleftrightarrow> flag \<or> c \<in> set reaped"
  by (induction reaped arbitrary: flag) (auto simp: on_child_def)

section \<open>The -p list\<close>

lemma pid_token: "trim_pid pf (dec_nat n) = dec_nat n"
proof -
  have d: "\<not> isspace c" if "c \<in> set (dec_nat n)" for c using dec_nat_digits [OF that] isdigit_not_space by blast
  have trim: "trim_right p (trim_left q s) = s" if "\<And>c. c \<in> set s \<Longrightarrow> \<not> p c \<and> \<not> q c" for p q and s :: string
  proof -
    have "dropWhile q s = s" using that by (cases s) auto
    moreover have "dropWhile p (rev s) = rev s" using that by (cases "rev s") (auto simp flip: set_rev [of s])
    ultimately show ?thesis by (simp add: trim_right_def trim_left_def)
  qed
  show ?thesis
    by (cases pf) (use d in \<open>auto simp: trim_pid_def is_blank_def isspace_def intro!: trim\<close>)
qed

definition comma_list :: "nat list \<Rightarrow> string" where
  "comma_list ns = concat (map (\<lambda>n. dec_nat n @ '','') ns)"

lemma strtok_comma_list: "strtok '','' (comma_list ns) = map dec_nat ns"
proof (induction ns)
  case Nil
  show ?case by (simp add: comma_list_def strtok_def)
next
  case (Cons n ns)
  have "c \<notin> set '',''" if "c \<in> set (dec_nat n)" for c using dec_nat_digits [OF that] by (auto simp: isdigit_def)
  then show ?case
    using Cons strtok_token [of "dec_nat n" "'',''" "CHR '',''" "comma_list ns"] by (simp add: comma_list_def)
qed

lemma pid_items_numbers:
  assumes "\<And>n. n \<in> set ns \<Longrightarrow> 0 < n \<and> n \<le> 2147483647 \<and> \<not> esrch (int n)" "length ws \<le> 256"
  shows "pid_items pf esrch (map dec_nat ns) ws = Inr (ws @ take (256 - length ws) (map of_nat ns))"
  using assms
proof (induction ns arbitrary: ws)
  case (Cons n ns)
  have n: "0 < n" "n \<le> 2147483647" "\<not> esrch (int n)" using Cons.prems(1) by auto
  then have "strtol10 (dec_nat n) = (int n, [], False)" by (simp add: long_max_def)
  then have step: "pid_items pf esrch (map dec_nat (n # ns)) ws
      = pid_items pf esrch (map dec_nat ns) (if length ws < 256 then ws @ [of_nat n] else ws)"
    using n not_sym [OF show_base_nonempty [of 10 n]] by (simp add: pid_token Let_def)
  show ?case
  proof (cases "length ws < 256")
    case True
    then have "256 - length ws = Suc (255 - length ws)" by linarith
    then show ?thesis unfolding step using Cons.IH [of "ws @ [of_nat n]"] Cons.prems True by simp
  next
    case False
    then show ?thesis unfolding step using Cons.IH [of ws] Cons.prems by simp
  qed
qed simp

section \<open>Claims\<close>

text \<open>
  \<^verbatim>\<open>-p A,B,...\<close> watches exactly the listed processes, in the order given, when they exist; ids
  beyond the 256th are dropped without a message.
\<close>

theorem parse_p_watches:
  assumes "\<forall>n \<in> set ns. 0 < n \<and> n \<le> 2147483647 \<and> \<not> esrch (int n)" "length ws \<le> 256"
  shows "parse_p pf esrch (comma_list ns) ws = Inr (ws @ take (256 - length ws) (map of_nat ns))"
  unfolding parse_p_def strtok_comma_list by (rule pid_items_numbers) (use assms in auto)

theorem parse_p_watches_witness:
  "parse_p Linux (\<lambda>_. False) (comma_list [17, 42]) [1] = Inr [1, 17, 42]"
  using parse_p_watches [of "[17, 42]" "\<lambda>_. False" "[1]" Linux] by simp

text \<open>
  The number of a \<^verbatim>\<open>-p\<close> argument is a \<^verbatim>\<open>long\<close> and is not checked against the range of process
  ids: \<open>2\<^sup>3\<^sup>2 + n\<close> is accepted and watches process \<open>n\<close>.
\<close>

theorem parse_p_wraps:
  assumes "0 < n" "n \<le> 2147483647" "\<not> esrch (int n)"
  shows "parse_p pf esrch (dec_nat (4294967296 + n)) [] = Inr [of_nat n]"
proof -
  have "c \<notin> set '',''" if "c \<in> set (dec_nat (4294967296 + n))" for c
    using dec_nat_digits [OF that] by (auto simp: isdigit_def)
  then have tok: "strtok '','' (dec_nat (4294967296 + n)) = [dec_nat (4294967296 + n)]"
    by (intro strtok_last) simp_all
  have v: "strtol10 (dec_nat (4294967296 + n)) = (4294967296 + int n, [], False)"
    using assms strtol10_dec_nat_all [of "4294967296 + n"] by (simp add: long_max_def)
  have "(int n + 2147483648 + 4294967296) mod 4294967296 = (int n + 2147483648) mod 4294967296"
    by (rule mod_add_self2)
  then have t: "to_int32 (4294967296 + int n) = int n" using assms by (simp add: to_int32_def add_ac)
  have "(of_int (4294967296 + int n) :: i32) = of_nat n" by simp
  with v t tok assms not_sym [OF show_base_nonempty [of 10 "4294967296 + n"]] show ?thesis
    by (simp add: parse_p_def pid_token Let_def del: of_int_add)
qed

theorem parse_p_wraps_witness: "parse_p Linux (\<lambda>_. False) (dec_nat (4294967296 + 1)) [] = Inr [1]"
  using parse_p_wraps [of 1 "\<lambda>_. False" Linux] by simp

end
