(* ===== verification/Exec_Mac.thy ===== *)
theory Exec_Mac
  imports Exec_Main
begin

text \<open>
  The macOS exec tracer of \<^verbatim>\<open>src/c/exec.c\<close>: it polls the list of processes and compares it with its
  table. The process list, \<^verbatim>\<open>sysctl\<close>, \<^verbatim>\<open>libproc\<close>, the user database and the clock are parameters,
  read at one moment per tick (record \<open>mac_host\<close>). Allocation succeeds.
\<close>

section \<open>Definitions\<close>

record mac_host =
  lp_size :: int                       \<comment> \<open>\<^verbatim>\<open>proc_listallpids(NULL, 0)\<close>\<close>
  lp_ret :: int                        \<comment> \<open>\<^verbatim>\<open>proc_listallpids(pids, sz)\<close>\<close>
  lp_buf :: "i32 list"                 \<comment> \<open>what the second call left in the buffer\<close>
  kinfo :: "i32 \<Rightarrow> (i32 \<times> u32 \<times> u64 \<times> u64) option"
  procargs :: "i32 \<Rightarrow> byte list option"
  pidpath :: "i32 \<Rightarrow> string option"
  vnodecwd :: "i32 \<Rightarrow> (bool + string)" \<comment> \<open>\<open>Inl denied\<close> when \<^verbatim>\<open>proc_pidinfo\<close> fails\<close>
  getpw :: "u32 \<Rightarrow> string option"
  timeofday :: "nat \<times> nat"

record mac_st =
  mdb :: macDB
  mouts :: string

subsection \<open>Libproc and sysctl\<close>

text \<open>The list of processes; a null list is \<open>None\<close>. The result of the second call is divided by four.\<close>

definition procListAllPIDs :: "mac_host \<Rightarrow> i32 list option" where
  "procListAllPIDs h =
     (if lp_size h \<le> 0 then None else if lp_ret h \<le> 0 then None
      else Some (take (nat (lp_ret h div 4)) (lp_buf h)))"

definition bsdInfo :: "mac_host \<Rightarrow> i32 \<Rightarrow> (i32 \<times> u32 \<times> u64 \<times> u64) option" where
  "bsdInfo h p = kinfo h p"

definition pidPath :: "mac_host \<Rightarrow> i32 \<Rightarrow> string" where
  "pidPath h p = (case pidpath h p of None \<Rightarrow> '''' | Some s \<Rightarrow> s)"

definition pidCwd :: "mac_host \<Rightarrow> i32 \<Rightarrow> string" where
  "pidCwd h p = (case vnodecwd h p of Inl denied \<Rightarrow> if denied then ''EACCES'' else ''EUNKNOWN'' | Inr s \<Rightarrow> s)"

text \<open>The remaining bytes of the \<^verbatim>\<open>KERN_PROCARGS2\<close> buffer stand for the position \<^verbatim>\<open>p\<close>.\<close>

definition nul_token :: "byte list \<Rightarrow> string \<times> byte list" where
  "nul_token r = (map chr8 (takeWhile (\<lambda>b. b \<noteq> 0) r), drop 1 (dropWhile (\<lambda>b. b \<noteq> 0) r))"

fun argv_loop :: "nat \<Rightarrow> byte list \<Rightarrow> string list \<times> byte list" where
  "argv_loop 0 r = ([], r)"
| "argv_loop (Suc n) r =
     (if r = [] then ([], r)
      else let (s, r') = nul_token r; (vs, rest) = argv_loop n r' in (s # vs, rest))"

function env_loop :: "byte list \<Rightarrow> string list" where
  "env_loop r =
     (if r = [] then []
      else let (s, r') = nul_token r in (if s \<noteq> '''' then s # env_loop r' else env_loop r'))"
  by pat_completeness auto
termination
proof (relation "measure length")
  fix r r' :: "byte list" and x s
  assume "r \<noteq> []" "x = nul_token r" "(s, r') = x"
  then have "r' = drop 1 (dropWhile (\<lambda>b. b \<noteq> 0) r)" "0 < length r" by (auto simp: nul_token_def)
  moreover have "length (dropWhile (\<lambda>b. b \<noteq> 0) r) \<le> length r" by (rule length_dropWhile_le)
  ultimately have "length r' < length r" by (simp only: length_drop)
  then show "(r', r) \<in> measure length" "(r', r) \<in> measure length" by simp_all
qed simp

declare env_loop.simps [simp del]

definition pidArgvEnv :: "mac_host \<Rightarrow> i32 \<Rightarrow> (string list \<times> string list) option" where
  "pidArgvEnv h p =
     (case procargs h p of None \<Rightarrow> None
      | Some buf \<Rightarrow>
          if length buf < 4 then None
          else let argc = unat (le32 (buf ! 0) (buf ! 1) (buf ! 2) (buf ! 3));
                   r1 = dropWhile (\<lambda>b. b \<noteq> 0) (drop 4 buf);
                   r2 = dropWhile (\<lambda>b. b = 0) r1;
                   (argv, r3) = argv_loop argc r2
               in Some (argv, env_loop r3))"

definition mac_argv :: "mac_host \<Rightarrow> i32 \<Rightarrow> string list" where
  "mac_argv h p = (case pidArgvEnv h p of None \<Rightarrow> [] | Some (argv, env) \<Rightarrow> argv)"

definition mac_env :: "mac_host \<Rightarrow> i32 \<Rightarrow> string list" where
  "mac_env h p = (case pidArgvEnv h p of None \<Rightarrow> [] | Some (argv, env) \<Rightarrow> env)"

definition userOf :: "mac_host \<Rightarrow> u32 \<Rightarrow> string" where
  "userOf h u = (case getpw h u of Some n \<Rightarrow> n | None \<Rightarrow> snprintf_s 16 (dec_nat (unat u)))"

subsection \<open>Ancestry\<close>

fun macPidDepth :: "mac_host \<Rightarrow> exec_opts \<Rightarrow> macDB \<Rightarrow> nat \<Rightarrow> i32 \<Rightarrow> int outcome" where
  "macPidDepth h cfg db 0 p = Inl OutOfFuel"
| "macPidDepth h cfg db (Suc fuel) p =
     (if isWatchRoot cfg p then Inr 0
      else case bsdInfo h p of None \<Rightarrow> Inr (- 1)
      | Some (ppid, _, _, _) \<Rightarrow>
          if ppid = 0 \<or> ppid = p then Inr (- 1)
          else if isWatchRoot cfg ppid then Inr 0
          else let up = and_then (macPidDepth h cfg db fuel ppid) (\<lambda>d. Inr (if d < 0 then - 1 else d + 1))
               in case macdb_find db ppid of
                    Some i \<Rightarrow> if mac_depth (tab db i) \<ge> 0 then Inr (mac_depth (tab db i) + 1) else up
                  | None \<Rightarrow> up)"

subsection \<open>Output lines\<close>

definition macIndentStr :: "exec_opts \<Rightarrow> int \<Rightarrow> nat \<Rightarrow> string" where
  "macIndentStr cfg d cap = (if flatMode cfg \<or> d \<le> 0 \<or> cap = 0 then '''' else indent_loop d cap 0 0)"

definition mac_lead :: "mac_host \<Rightarrow> exec_opts \<Rightarrow> macEntry \<Rightarrow> string" where
  "mac_lead h cfg ent =
     macIndentStr cfg (mac_depth ent) 1024 @ exec_c cfg ''33'' (snprintf_s 16 (dec_int (sint (e_pid ent))))
     @ (if showExit cfg then exec_c cfg ''32'' ''+'' else '''')
     @ (if showUser cfg
        then (let name = userOf h (uid ent); wrapped = snprintf_s 300 ('' <'' @ name @ ''>'')
              in exec_c cfg (if name = ''root'' then ''91'' else ''92'') wrapped)
        else '''')
     @ '' ''
     @ (if showCwd cfg then exec_c cfg ''35'' (shquote (Some (pidCwd h (e_pid ent)))) @ exec_c cfg ''2'' '' % '' else '''')"

definition mac_command :: "mac_host \<Rightarrow> exec_opts \<Rightarrow> i32 \<Rightarrow> string option" where
  "mac_command h cfg p =
     (let argv = mac_argv h p; exe = pidPath h p
      in if argv = [] then
           (if exe = '''' then None
            else let base = base_loop exe exe
                 in Some (exec_c cfg ''2'' (snprintf_s 300 (''['' @ (if base \<noteq> '''' then base else exe) @ '']''))))
         else
           (let cmd = shquote (Some (if fullPath cfg then (if exe \<noteq> '''' then exe else hd argv) else hd argv))
            in Some (exec_c cfg ''96'' cmd @ arg_items cfg argv)))"

definition macEmitExec :: "mac_host \<Rightarrow> exec_opts \<Rightarrow> macEntry \<Rightarrow> string" where
  "macEmitExec h cfg ent =
     (case mac_command h cfg (e_pid ent) of None \<Rightarrow> ''''
      | Some cmd \<Rightarrow>
          mac_lead h cfg ent @ cmd
          @ (if showEnv cfg \<and> mac_env h (e_pid ent) \<noteq> []
             then NL @ ''  '' @ concat (map (env_item cfg) (mac_env h (e_pid ent))) else '''') @ NL)"

definition seconds :: "nat \<Rightarrow> nat \<Rightarrow> nat \<times> nat" where
  "seconds sec usec = dbl_add (dbl_of_nat sec) (dbl_div (dbl_of_nat usec) 1000000)"

definition macEmitExit :: "exec_opts \<Rightarrow> macEntry \<Rightarrow> nat \<times> nat \<Rightarrow> string" where
  "macEmitExit cfg ent now =
     (if \<not> showExit cfg then ''''
      else let elapsed = dbl_sub0 (seconds (fst now) (snd now)) (seconds (unat (startSec ent)) (unat (startUsec ent)));
               cmd = (if opt_str (argv0 ent) \<noteq> '''' then opt_str (argv0 ent) else ''?'')
           in macIndentStr cfg (mac_depth ent) 1024
              @ snprintf_s 64 (exec_c cfg ''33'' (snprintf_s 16 (dec_int (sint (e_pid ent)))))
              @ snprintf_s 64 (exec_c cfg ''31'' ''-'') @ '' ''
              @ exec_c cfg ''2'' (shquote (Some cmd)) @ '' exited ''
              @ snprintf_s 64 (exec_c cfg ''2'' ''status=?'') @ '' ''
              @ snprintf_s 64 (exec_c cfg ''36'' (snprintf_s 32 (''time='' @ fmt_fixed 3 elapsed @ ''s''))) @ NL)"

subsection \<open>Seeding and polling\<close>

definition set_mac :: "macDB \<Rightarrow> nat \<Rightarrow> macEntry \<Rightarrow> macDB" where
  "set_mac db i e = db\<lparr>tab := (tab db)(i := e)\<rparr>"

text \<open>What \<^verbatim>\<open>bsdInfo\<close> and \<^verbatim>\<open>pidArgvEnv\<close> tell about a process, stored in its entry.\<close>

definition with_argv0 :: "mac_host \<Rightarrow> macEntry \<Rightarrow> macEntry" where
  "with_argv0 h ent = (case mac_argv h (e_pid ent) of [] \<Rightarrow> ent | a # _ \<Rightarrow> ent\<lparr>argv0 := Some a\<rparr>)"

definition with_info :: "i32 \<times> u32 \<times> u64 \<times> u64 \<Rightarrow> macEntry \<Rightarrow> macEntry" where
  "with_info k ent = (case k of (pp, u, s, us) \<Rightarrow>
     ent\<lparr>mac_ppid := pp, uid := u, startSec := s, startUsec := us\<rparr>)"

fun seed_loop :: "mac_host \<Rightarrow> i32 list \<Rightarrow> macDB \<Rightarrow> macDB outcome" where
  "seed_loop h [] db = Inr db"
| "seed_loop h (p # ps) db =
     (case macdb_get db p of None \<Rightarrow> Inl NullDeref
      | Some (i, created, db1) \<Rightarrow>
          let ent = tab db1 i
          in case bsdInfo h p of
               None \<Rightarrow> seed_loop h ps (set_mac db1 i (ent\<lparr>mac_depth := - 1\<rparr>))
             | Some k \<Rightarrow> seed_loop h ps (set_mac db1 i (with_argv0 h ((with_info k ent)\<lparr>mac_depth := - 1\<rparr>))))"

definition seedMacDB :: "mac_host \<Rightarrow> macDB \<Rightarrow> macDB outcome" where
  "seedMacDB h db = seed_loop h (case procListAllPIDs h of None \<Rightarrow> [] | Some ps \<Rightarrow> ps) db"

text \<open>One process of the list: a new one is entered and, below a watched one, reported.\<close>

definition scan_pid :: "mac_host \<Rightarrow> exec_opts \<Rightarrow> nat \<Rightarrow> i32 \<Rightarrow> mac_st \<Rightarrow> mac_st outcome" where
  "scan_pid h cfg fuel p st =
     (case macdb_find (mdb st) p of Some _ \<Rightarrow> Inr st
      | None \<Rightarrow>
          (case macdb_get (mdb st) p of None \<Rightarrow> Inl NullDeref
           | Some (i, created, db1) \<Rightarrow>
               let ent = tab db1 i
               in case bsdInfo h p of
                    None \<Rightarrow> Inr (st\<lparr>mdb := set_mac db1 i (ent\<lparr>mac_depth := - 1\<rparr>)\<rparr>)
                  | Some k \<Rightarrow>
                      let db2 = set_mac db1 i (with_info k ent)
                      in and_then (macPidDepth h cfg db2 fuel p) (\<lambda>d.
                           let ent' = with_argv0 h ((with_info k ent)\<lparr>mac_depth := d\<rparr>)
                           in Inr (st\<lparr>mdb := set_mac db2 i ent',
                                mouts := mouts st @ (if d \<ge> 0 then macEmitExec h cfg ent' else '''')\<rparr>))))"

fun scan_pids :: "mac_host \<Rightarrow> exec_opts \<Rightarrow> nat \<Rightarrow> i32 list \<Rightarrow> mac_st \<Rightarrow> mac_st outcome" where
  "scan_pids h cfg fuel [] st = Inr st"
| "scan_pids h cfg fuel (p # ps) st = and_then (scan_pid h cfg fuel p st) (scan_pids h cfg fuel ps)"

text \<open>The bitmap is a filter in front of the linear search.\<close>

definition still_alive :: "i32 list \<Rightarrow> i32 \<Rightarrow> bool" where
  "still_alive ps p =
     (list_ex (\<lambda>q. pid_hash q = pid_hash p) ps \<and> list_ex (\<lambda>q. q = p) ps)"

definition goners :: "i32 list \<Rightarrow> macDB \<Rightarrow> i32 list" where
  "goners ps db =
     take 1024 (map (\<lambda>i. e_pid (tab db i))
       (filter (\<lambda>i. used (tab db i) \<and> \<not> still_alive ps (e_pid (tab db i))) [0..<CAP]))"

fun reap :: "exec_opts \<Rightarrow> nat \<times> nat \<Rightarrow> i32 list \<Rightarrow> mac_st \<Rightarrow> mac_st outcome" where
  "reap cfg now [] st = Inr st"
| "reap cfg now (p # ps) st =
     (case macdb_find (mdb st) p of None \<Rightarrow> reap cfg now ps st
      | Some i \<Rightarrow>
          let ent = tab (mdb st) i
          in and_then (macdb_delete (mdb st) p) (\<lambda>db.
               reap cfg now ps (st\<lparr>mdb := db,
                 mouts := mouts st @ (if mac_depth ent \<ge> 0 then macEmitExit cfg ent now else '''')\<rparr>)))"

definition scanMacDB :: "mac_host \<Rightarrow> exec_opts \<Rightarrow> nat \<Rightarrow> mac_st \<Rightarrow> mac_st outcome" where
  "scanMacDB h cfg fuel st =
     (case procListAllPIDs h of None \<Rightarrow> Inr st
      | Some ps \<Rightarrow>
          and_then (scan_pids h cfg fuel ps st) (\<lambda>st1. reap cfg (timeofday h) (goners ps (mdb st1)) st1))"

subsection \<open>Main program\<close>

definition mac_setup :: "exec_host \<Rightarrow> string list \<Rightarrow> leave + exec_args" where
  "mac_setup = exec_setup Darwin"

definition mac_banner :: "exec_args \<Rightarrow> bool \<Rightarrow> string" where
  "mac_banner a root =
     (if \<not> showErrors (x_opts a) then ''''
      else ''tracep exec: polling at '' @ dec_int (x_poll a) @ ''ms on darwin '' @ [CHR 0xE2, CHR 0x80, CHR 0x94]
        @ '' short-lived processes may be missed''
        @ (if root then '''' else ''; non-root sees argv only for own-user processes'') @ NL)"

text \<open>The loop after \<^verbatim>\<open>seedMacDB\<close>: per turn, the children reported to the handler, then the world the tick sees.\<close>

fun mac_loop ::
  "exec_opts \<Rightarrow> nat \<Rightarrow> i32 option \<Rightarrow> bool \<Rightarrow> (i32 list \<times> mac_host) list \<Rightarrow> mac_st \<Rightarrow> (loop_end \<times> mac_st) outcome" where
  "mac_loop cfg fuel child flag [] st = Inr (Running, st)"
| "mac_loop cfg fuel child flag ((reaped, h) # turns) st =
     (let exited = child_flag child reaped flag
      in if exited then Inr (Exited 0 '''', st)
         else and_then (scanMacDB h cfg fuel st) (mac_loop cfg fuel child exited turns))"

section \<open>The argument area of a process\<close>

lemma nul_token_encode: "CHR 0x00 \<notin> set s \<Longrightarrow> nul_token (map ord8 s @ 0 # r) = (s, r)"
proof -
  assume "CHR 0x00 \<notin> set s"
  then have "b \<noteq> 0" if "b \<in> set (map ord8 s)" for b using that by auto
  then have "takeWhile (\<lambda>b. b \<noteq> 0) (map ord8 s @ 0 # r) = map ord8 s \<and> dropWhile (\<lambda>b. b \<noteq> 0) (map ord8 s @ 0 # r) = 0 # r"
    by (intro takeWhile_dropWhile_run) auto
  then show ?thesis by (simp add: nul_token_def del: map_map)
qed

lemma nul_encode_Cons: "nul_encode (v # vs) = map ord8 v @ 0 # nul_encode vs"
  by (simp add: nul_encode_def)

lemma argv_loop_encode:
  "(\<And>s. s \<in> set vs \<Longrightarrow> CHR 0x00 \<notin> set s) \<Longrightarrow> argv_loop (length vs) (nul_encode vs @ r) = (vs, r)"
  by (induction vs) (simp_all add: nul_encode_Cons nul_token_encode nul_encode_def)

lemma env_loop_encode:
  "(\<And>s. s \<in> set vs \<Longrightarrow> CHR 0x00 \<notin> set s) \<Longrightarrow> env_loop (nul_encode vs) = filter (\<lambda>s. s \<noteq> '''') vs"
proof (induction vs)
  case Nil
  show ?case by (subst env_loop.simps) (simp add: nul_encode_def)
next
  case (Cons v vs)
  have "env_loop (nul_encode (v # vs)) = (if v \<noteq> '''' then v # env_loop (nul_encode vs) else env_loop (nul_encode vs))"
    by (subst env_loop.simps) (simp add: nul_encode_Cons nul_token_encode Cons.prems)
  then show ?case using Cons by simp
qed

definition kernel_args :: "string \<Rightarrow> nat \<Rightarrow> string list \<Rightarrow> string list \<Rightarrow> byte list" where
  "kernel_args exe pad argv env =
     put32 (of_nat (length argv)) @ map ord8 exe @ replicate (Suc pad) 0 @ nul_encode argv @ nul_encode env"

lemma skip_to_argv:
  assumes "CHR 0x00 \<notin> set exe" "argv \<noteq> []" "hd argv \<noteq> ''''" "CHR 0x00 \<notin> set (hd argv)"
  shows "dropWhile (\<lambda>b. b = 0) (dropWhile (\<lambda>b. b \<noteq> 0) (map ord8 exe @ replicate (Suc pad) 0 @ nul_encode argv @ r))
    = nul_encode argv @ r"
proof -
  have "b \<noteq> 0" if "b \<in> set (map ord8 exe)" for b using that assms(1) by auto
  then have 1: "dropWhile (\<lambda>b. b \<noteq> 0) (map ord8 exe @ replicate (Suc pad) 0 @ nul_encode argv @ r)
      = replicate (Suc pad) 0 @ nul_encode argv @ r"
    by (simp add: dropWhile_append)
  obtain a as c cs where a: "argv = a # as" "a = c # cs" "c \<noteq> CHR 0x00"
    using assms(2-4) by (cases argv; cases "hd argv") auto
  have "dropWhile (\<lambda>b. b = 0) (replicate k 0 @ nul_encode argv @ r) = nul_encode argv @ r" for k
    by (induction k) (use a in \<open>simp_all add: nul_encode_Cons\<close>)
  then show ?thesis unfolding 1 .
qed

lemma pidArgvEnv_kernel:
  assumes "procargs h p = Some (kernel_args exe pad argv env)"
    and "\<forall>s \<in> set (exe # argv @ env). CHR 0x00 \<notin> set s" "argv \<noteq> []" "hd argv \<noteq> ''''" "length argv < 2 ^ 32"
  shows "pidArgvEnv h p = Some (argv, filter (\<lambda>s. s \<noteq> '''') env)"
proof -
  let ?buf = "kernel_args exe pad argv env"
  let ?body = "map ord8 exe @ replicate (Suc pad) 0 @ nul_encode argv @ nul_encode env"
  have buf: "?buf = put32 (of_nat (length argv)) @ ?body" by (simp add: kernel_args_def)
  have "?buf ! k = put32 (of_nat (length argv)) ! k" if "k < 4" for k using that by (simp add: buf nth_append)
  then have "le32 (?buf ! 0) (?buf ! 1) (?buf ! 2) (?buf ! 3) = of_nat (length argv)"
    using le32_put32 [of "of_nat (length argv)"] by simp
  moreover have "unat (of_nat (length argv) :: u32) = length argv"
    using assms(5) by (simp add: unsigned_of_nat take_bit_eq_mod)
  moreover have "4 \<le> length ?buf" "drop 4 ?buf = ?body" by (simp_all add: buf)
  moreover have "dropWhile (\<lambda>b. b = 0) (dropWhile (\<lambda>b. b \<noteq> 0) ?body) = nul_encode argv @ nul_encode env"
    using assms(2-4) by (intro skip_to_argv) auto
  moreover have "argv_loop (length argv) (nul_encode argv @ nul_encode env) = (argv, nul_encode env)"
    using assms(2) by (intro argv_loop_encode) simp
  moreover have "env_loop (nul_encode env) = filter (\<lambda>s. s \<noteq> '''') env"
    using assms(2) by (intro env_loop_encode) simp
  ultimately show ?thesis using assms(1) by (simp add: pidArgvEnv_def Let_def)
qed

section \<open>A polling tick\<close>

definition mac_acyclic :: "mac_host \<Rightarrow> (i32 \<Rightarrow> nat) \<Rightarrow> bool" where
  "mac_acyclic h rank \<longleftrightarrow> (\<forall>p pp u s us. kinfo h p = Some (pp, u, s, us) \<longrightarrow> pp \<noteq> 0 \<longrightarrow> pp \<noteq> p \<longrightarrow> rank pp < rank p)"

lemma macPidDepth_terminates:
  assumes "mac_acyclic h rank" "rank p < fuel"
  shows "\<exists>d. macPidDepth h cfg db fuel p = Inr d"
  using assms(2)
proof (induction fuel arbitrary: p)
  case (Suc fuel)
  show ?case
  proof (cases "kinfo h p")
    case None
    then show ?thesis by (simp add: bsdInfo_def)
  next
    case (Some k)
    obtain pp u s us where k: "k = (pp, u, s, us)" by (cases k)
    show ?thesis
    proof (cases "pp = 0 \<or> pp = p")
      case True
      then show ?thesis using Some k by (auto simp: bsdInfo_def)
    next
      case False
      then have "rank pp < rank p" using assms(1) Some k by (auto simp: mac_acyclic_def)
      then obtain d where "macPidDepth h cfg db fuel pp = Inr d" using Suc.IH [of pp] Suc.prems by auto
      then show ?thesis using Some k by (auto simp: bsdInfo_def Let_def split: option.splits)
    qed
  qed
qed simp

lemma macdb_find_lookup: "macdb_find db p = None \<longleftrightarrow> lookup db p = None"
  "macdb_find db p = Some i \<Longrightarrow> lookup db p = Some (tab db i)"
  by (auto simp: lookup_def macdb_find_def)

lemma set_mac_twice [simp]: "set_mac (set_mac db i x) i y = set_mac db i y"
  by (simp add: set_mac_def)

lemma with_info_key [simp]: "used (with_info k e) = used e" "e_pid (with_info k e) = e_pid e"
  by (auto simp: with_info_def split: prod.split)

lemma with_argv0_key [simp]: "used (with_argv0 h e) = used e" "e_pid (with_argv0 h e) = e_pid e"
  by (auto simp: with_argv0_def split: list.split)

lemma scan_pid_spec:
  assumes ok: "probe_ok (mdb st)" and room: "not_full (mdb st)"
    and acy: "mac_acyclic h rank" and fuel: "rank p < fuel"
  shows "\<exists>st1. scan_pid h cfg fuel p st = Inr st1 \<and> probe_ok (mdb st1) \<and>
    dom (lookup (mdb st1)) = insert p (dom (lookup (mdb st))) \<and>
    (\<forall>q \<in> dom (lookup (mdb st)). lookup (mdb st1) q = lookup (mdb st) q)"
proof (cases "lookup (mdb st) p")
  case (Some e)
  then obtain i where "macdb_find (mdb st) p = Some i" using macdb_find_lookup(1) [of "mdb st" p] by auto
  then show ?thesis using ok Some by (auto simp: scan_pid_def)
next
  case None
  obtain i db1 where get: "macdb_get (mdb st) p = Some (i, True, db1)" and i: "tab db1 i = macdb_fresh p"
    and wr: "\<And>x. used x \<and> e_pid x = p \<Longrightarrow>
      probe_ok (set_mac db1 i x) \<and> lookup (set_mac db1 i x) = (lookup (mdb st))(p \<mapsto> x)"
    unfolding macdb_get_def set_mac_def by (rule macdb.pm.upsert [OF ok room, of p]) (simp add: None)
  have f: "macdb_find (mdb st) p = None" using None by (simp add: macdb_find_lookup)
  have key: "used (macdb_fresh p)" "e_pid (macdb_fresh p) = p" by (simp_all add: macdb_fresh_def)
  have "\<exists>out x. used x \<and> e_pid x = p \<and> scan_pid h cfg fuel p st = Inr (st\<lparr>mdb := set_mac db1 i x, mouts := out\<rparr>)"
  proof (cases "bsdInfo h p")
    case None
    then show ?thesis using f get i key
      by (intro exI [of _ "mouts st"] exI [of _ "macdb_fresh p\<lparr>mac_depth := - 1\<rparr>"]) (simp add: scan_pid_def Let_def)
  next
    case (Some k)
    obtain d where "macPidDepth h cfg (set_mac db1 i (with_info k (macdb_fresh p))) fuel p = Inr d"
      using macPidDepth_terminates [OF acy fuel] by blast
    then show ?thesis using f get i key Some
      by (intro exI [of _ "mouts st @ (if d \<ge> 0 then macEmitExec h cfg (with_argv0 h ((with_info k (macdb_fresh p))\<lparr>mac_depth := d\<rparr>)) else '''')"]
          exI [of _ "with_argv0 h ((with_info k (macdb_fresh p))\<lparr>mac_depth := d\<rparr>)"]) (simp add: scan_pid_def Let_def)
  qed
  then obtain out x where "used x \<and> e_pid x = p" "scan_pid h cfg fuel p st = Inr (st\<lparr>mdb := set_mac db1 i x, mouts := out\<rparr>)" by blast
  then show ?thesis using wr [of x] None by auto
qed

lemma scan_pids_spec:
  assumes "probe_ok (mdb st)" "card (dom (lookup (mdb st)) \<union> set ps) < CAP" "mac_acyclic h rank" "\<And>p. rank p < fuel"
  shows "\<exists>st1. scan_pids h cfg fuel ps st = Inr st1 \<and> probe_ok (mdb st1) \<and>
    dom (lookup (mdb st1)) = dom (lookup (mdb st)) \<union> set ps \<and>
    (\<forall>q \<in> dom (lookup (mdb st)). lookup (mdb st1) q = lookup (mdb st) q)"
  using assms(1,2)
proof (induction ps arbitrary: st)
  case (Cons p ps)
  have fin: "finite (dom (lookup (mdb st)) \<union> set (p # ps))" by simp
  have "card (dom (lookup (mdb st))) \<le> card (dom (lookup (mdb st)) \<union> set (p # ps))"
    by (rule card_mono [OF fin]) auto
  then have "not_full (mdb st)" using Cons.prems plen_dom [of "mdb st"] by (simp add: not_full_def)
  from scan_pid_spec [OF Cons.prems(1) this assms(3,4), where p = p and cfg = cfg] obtain st1 where
    1: "scan_pid h cfg fuel p st = Inr st1" "probe_ok (mdb st1)"
      "dom (lookup (mdb st1)) = insert p (dom (lookup (mdb st)))"
      "\<forall>q \<in> dom (lookup (mdb st)). lookup (mdb st1) q = lookup (mdb st) q" by blast
  have "dom (lookup (mdb st1)) \<union> set ps = dom (lookup (mdb st)) \<union> set (p # ps)" using 1(3) by auto
  with Cons.IH [OF 1(2)] Cons.prems(2) obtain st2 where
    "scan_pids h cfg fuel ps st1 = Inr st2" "probe_ok (mdb st2)"
    "dom (lookup (mdb st2)) = dom (lookup (mdb st)) \<union> set (p # ps)"
    "\<forall>q \<in> dom (lookup (mdb st1)). lookup (mdb st2) q = lookup (mdb st1) q" by auto
  then show ?case using 1 by auto
qed auto

lemma reap_spec:
  assumes "probe_ok (mdb st)" "not_full (mdb st)"
  shows "\<exists>st1. reap cfg now gs st = Inr st1 \<and> probe_ok (mdb st1) \<and> lookup (mdb st1) = lookup (mdb st) |` (- set gs)"
  using assms
proof (induction gs arbitrary: st)
  case (Cons p gs)
  show ?case
  proof (cases "macdb_find (mdb st) p")
    case None
    then have "lookup (mdb st) p = None" by (simp add: macdb_find_lookup)
    then have "lookup (mdb st) |` (- set gs) = lookup (mdb st) |` (- set (p # gs))"
      by (auto simp: restrict_map_def fun_eq_iff)
    then show ?thesis using Cons.IH [OF Cons.prems] None by simp
  next
    case (Some i)
    obtain db where d: "macdb_delete (mdb st) p = Inr db" "probe_ok db" "lookup db = (lookup (mdb st))(p := None)"
      using macdb.pm.del_removes [OF Cons.prems] unfolding macdb_delete_def by blast
    have "card (dom (lookup db)) \<le> card (dom (lookup (mdb st)))" by (rule card_mono) (auto simp: d(3))
    then have nf: "not_full db" using Cons.prems plen_dom [of "mdb st"] plen_dom [OF d(2)] by (simp add: not_full_def)
    define st' where "st' = st\<lparr>mdb := db, mouts := mouts st @
      (if mac_depth (tab (mdb st) i) \<ge> 0 then macEmitExit cfg (tab (mdb st) i) now else '''')\<rparr>"
    have "mdb st' = db" by (simp add: st'_def)
    with Cons.IH [of st'] d(2) nf obtain st1 where
      "reap cfg now gs st' = Inr st1" "probe_ok (mdb st1)" "lookup (mdb st1) = lookup db |` (- set gs)" by auto
    moreover have "reap cfg now (p # gs) st = reap cfg now gs st'"
      using d(1) Some by (simp add: Let_def st'_def)
    moreover have "lookup db |` (- set gs) = lookup (mdb st) |` (- set (p # gs))"
      by (auto simp: restrict_map_def fun_eq_iff d(3))
    ultimately show ?thesis by auto
  qed
qed (auto simp: restrict_map_def)

lemma still_alive_iff: "still_alive ps p \<longleftrightarrow> p \<in> set ps"
  by (auto simp: still_alive_def list_ex_iff)

text \<open>The sweep visits every slot once; \<open>xs\<close> stands for \<open>[0..<CAP]\<close>.\<close>

lemma sweep_all:
  assumes ok: "probe_ok db" and xs: "distinct xs" "set xs = {..<CAP}"
    and few: "card (dom (lookup db) - set ps) \<le> 1024"
  shows "set (take 1024 (map (\<lambda>i. e_pid (tab db i)) (filter (\<lambda>i. used (tab db i) \<and> \<not> still_alive ps (e_pid (tab db i))) xs)))
    = dom (lookup db) - set ps"
proof -
  let ?l = "map (\<lambda>i. e_pid (tab db i)) (filter (\<lambda>i. used (tab db i) \<and> \<not> still_alive ps (e_pid (tab db i))) xs)"
  have set: "set ?l = dom (lookup db) - set ps"
  proof -
    have "dom (lookup db) = e_pid ` entries (tab db)" using lookup_iff [OF ok] by auto
    then have "dom (lookup db) = (\<lambda>i. e_pid (tab db i)) ` {i. i < CAP \<and> used (tab db i)}"
      by (simp only: entries_def used_slots_def image_image)
    then show ?thesis by (auto simp: xs(2) still_alive_iff)
  qed
  have "distinct ?l"
    unfolding distinct_map
  proof
    show "distinct (filter (\<lambda>i. used (tab db i) \<and> \<not> still_alive ps (e_pid (tab db i))) xs)" using xs(1) by (rule distinct_filter)
    show "inj_on (\<lambda>i. e_pid (tab db i)) (set (filter (\<lambda>i. used (tab db i) \<and> \<not> still_alive ps (e_pid (tab db i))) xs))"
      using keys_distinctD [OF probe_okD(2) [OF ok]] xs(2) unfolding inj_on_def set_filter by blast
  qed
  from distinct_card [OF this] have "length ?l \<le> 1024" using few unfolding set by simp
  with set show ?thesis by (simp only: take_all)
qed

lemma goners_spec:
  assumes "probe_ok db" "card (dom (lookup db) - set ps) \<le> 1024"
  shows "set (goners ps db) = dom (lookup db) - set ps"
  unfolding goners_def
  by (rule sweep_all [OF assms(1) distinct_upt _ assms(2)]) (simp only: set_upt atLeast0LessThan)

lemma scan_sync:
  assumes ok: "probe_ok (mdb st)" and ps: "procListAllPIDs h = Some ps"
    and room: "card (dom (lookup (mdb st)) \<union> set ps) < CAP" and few: "card (dom (lookup (mdb st)) - set ps) \<le> 1024"
    and walk: "mac_acyclic h rank" "\<And>p. rank p < fuel"
  shows "\<exists>st'. scanMacDB h cfg fuel st = Inr st' \<and> probe_ok (mdb st') \<and> dom (lookup (mdb st')) = set ps \<and>
    (\<forall>q \<in> dom (lookup (mdb st)) \<inter> set ps. lookup (mdb st') q = lookup (mdb st) q)"
proof -
  obtain st1 where 1: "scan_pids h cfg fuel ps st = Inr st1" "probe_ok (mdb st1)"
    "dom (lookup (mdb st1)) = dom (lookup (mdb st)) \<union> set ps"
    "\<forall>q \<in> dom (lookup (mdb st)). lookup (mdb st1) q = lookup (mdb st) q"
    using scan_pids_spec [OF ok room walk] by blast
  have nf: "not_full (mdb st1)" using 1(2,3) room plen_dom [of "mdb st1"] by (simp add: not_full_def)
  have g: "set (goners ps (mdb st1)) = dom (lookup (mdb st)) - set ps"
    using goners_spec [OF 1(2), of ps] few 1(3) by (simp add: Un_Diff)
  obtain st2 where "reap cfg (timeofday h) (goners ps (mdb st1)) st1 = Inr st2" "probe_ok (mdb st2)"
    "lookup (mdb st2) = lookup (mdb st1) |` (- (dom (lookup (mdb st)) - set ps))"
    using reap_spec [OF 1(2) nf] g by metis
  moreover from this have "dom (lookup (mdb st2)) = set ps" using 1(3) by auto
  moreover have "scanMacDB h cfg fuel st = reap cfg (timeofday h) (goners ps (mdb st1)) st1"
    using ps 1(1) by (simp add: scanMacDB_def)
  ultimately show ?thesis using 1(4) by auto
qed

section \<open>Claims\<close>

text \<open>
  C37. \<^verbatim>\<open>pidArgvEnv\<close> reads back what the kernel lays out in the argument area: the argument count,
  the executable's path, padding, the arguments and the environment. The arguments come back
  exactly, empty ones behind the first included, and so do the non-empty environment strings.
\<close>

theorem pidArgvEnv_reads:
  assumes "procargs h p = Some (kernel_args exe pad argv env)"
    and "\<forall>s \<in> set (exe # argv @ env). CHR 0x00 \<notin> set s" "argv \<noteq> []" "hd argv \<noteq> ''''" "length argv < 2 ^ 32"
  shows "pidArgvEnv h p = Some (argv, filter (\<lambda>s. s \<noteq> '''') env)"
  by (rule pidArgvEnv_kernel [OF assms])

definition sample_mac :: mac_host where
  "sample_mac = \<lparr>lp_size = 8, lp_ret = 8, lp_buf = [7, 9],
     kinfo = (\<lambda>p. if p = 7 then Some (1, 0, 3, 0) else None),
     procargs = (\<lambda>p. if p = 7 then Some (kernel_args ''/bin/ls'' 2 [''ls'', '''', ''-l''] [''A=1'']) else None),
     pidpath = (\<lambda>p. Some ''/bin/ls''), vnodecwd = (\<lambda>p. Inr ''/''), getpw = (\<lambda>u. None), timeofday = (10, 0)\<rparr>"

theorem pidArgvEnv_reads_witness:
  "pidArgvEnv sample_mac 7 = Some ([''ls'', '''', ''-l''], [''A=1''])"
  using pidArgvEnv_reads [of sample_mac 7 "''/bin/ls''" 2 "[''ls'', '''', ''-l'']" "[''A=1'']"]
  by (simp add: sample_mac_def)

text \<open>
  C21. A polling tick brings the table in line with the process list: afterwards it is well formed and
  knows exactly the listed processes, and those it knew before keep their entries, when the
  processes together fit the table, no more than 1024 have gone and no process is its own ancestor.
\<close>

theorem scanMacDB_syncs:
  assumes "probe_ok (mdb st)" "procListAllPIDs h = Some ps"
    and "card (dom (lookup (mdb st)) \<union> set ps) < CAP" "card (dom (lookup (mdb st)) - set ps) \<le> 1024"
    and "mac_acyclic h rank" "\<And>p. rank p < fuel"
  shows "\<exists>st'. scanMacDB h cfg fuel st = Inr st' \<and> probe_ok (mdb st') \<and> dom (lookup (mdb st')) = set ps \<and>
    (\<forall>q \<in> dom (lookup (mdb st)) \<inter> set ps. lookup (mdb st') q = lookup (mdb st) q)"
  by (rule scan_sync [OF assms])

theorem scanMacDB_syncs_witness:
  "\<exists>st'. scanMacDB sample_mac (initial_opts\<lparr>watchPIDs := [1]\<rparr>) 2 \<lparr>mdb = empty_macdb, mouts = ''''\<rparr> = Inr st' \<and>
     dom (lookup (mdb st')) = {7, 9}"
proof -
  have "mac_acyclic (sample_mac) (\<lambda>p. if p = 7 then 1 else 0)" by (simp add: mac_acyclic_def sample_mac_def)
  moreover have "procListAllPIDs (sample_mac) = Some [7, 9]" by (simp add: procListAllPIDs_def sample_mac_def)
  moreover have "(if p = 7 then 1 else 0) < (2 :: nat)" for p :: i32 by simp
  ultimately have "\<exists>st'. scanMacDB sample_mac (initial_opts\<lparr>watchPIDs := [1]\<rparr>) 2 \<lparr>mdb = empty_macdb, mouts = ''''\<rparr> = Inr st' \<and>
      probe_ok (mdb st') \<and> dom (lookup (mdb st')) = set [7, 9] \<and>
      (\<forall>q \<in> dom (lookup (mdb \<lparr>mdb = empty_macdb, mouts = ''''\<rparr>)) \<inter> set [7, 9].
        lookup (mdb st') q = lookup (mdb \<lparr>mdb = empty_macdb, mouts = ''''\<rparr>) q)"
    by (intro scanMacDB_syncs) (simp_all add: card_insert_if)
  then show ?thesis by auto
qed

end
