(* ===== verification/Seen_Set.thy ===== *)
theory Seen_Set
  imports Probe
begin

text \<open>
  Open addressing without deletion: the tables in which \<^verbatim>\<open>src/c/net.c\<close> (\<open>net_seen\<close>) and
  \<^verbatim>\<open>src/c/tls.c\<close> (\<open>conn_seen\<close>) remember what has been reported. The locale \<open>open_set\<close> is about the
  search for a key or an unused slot, whatever the hash; the locale \<open>once\<close> is what a client relies
  on, a set that tells whether a key is new.
\<close>

section \<open>Slots\<close>

text \<open>\<open>ix k j\<close> is the slot looked at in round \<open>j\<close> for the key \<open>k\<close>.\<close>

definition slots_set :: "nat \<Rightarrow> (nat \<Rightarrow> 'k option) \<Rightarrow> 'k set" where
  "slots_set n t = {k. \<exists>i < n. t i = Some k}"

definition slots_full :: "nat \<Rightarrow> (nat \<Rightarrow> 'k option) \<Rightarrow> bool" where
  "slots_full n t \<longleftrightarrow> (\<forall>i < n. t i \<noteq> None)"

text \<open>Every key is met by its search before any unused slot.\<close>

definition slots_ok :: "nat \<Rightarrow> ('k \<Rightarrow> nat \<Rightarrow> nat) \<Rightarrow> (nat \<Rightarrow> 'k option) \<Rightarrow> bool" where
  "slots_ok n ix t \<longleftrightarrow> (\<forall>i < n. \<forall>k. t i = Some k \<longrightarrow>
     (\<exists>j < n. ix k j = i \<and> (\<forall>m < j. t (ix k m) \<noteq> None \<and> t (ix k m) \<noteq> Some k)))"

locale open_set =
  fixes n :: nat and ix :: "'k \<Rightarrow> nat \<Rightarrow> nat"
  assumes some_slot: "0 < n" and ix_less: "ix k j < n" and ix_all: "i < n \<Longrightarrow> \<exists>j < n. ix k j = i"
begin

lemma search_present:
  assumes "slots_ok n ix t" "k \<in> slots_set n t"
  shows "\<exists>j. for_first (\<lambda>j. t (ix k j) = None \<or> t (ix k j) = Some k) n 0 = Some j \<and> t (ix k j) = Some k"
proof -
  obtain i where i: "i < n" "t i = Some k" using assms(2) by (auto simp: slots_set_def)
  then obtain j where j: "j < n" "ix k j = i" "\<forall>m < j. t (ix k m) \<noteq> None \<and> t (ix k m) \<noteq> Some k"
    using assms(1) unfolding slots_ok_def by blast
  then have "for_first (\<lambda>j. t (ix k j) = None \<or> t (ix k j) = Some k) n 0 = Some j"
    unfolding for_first_Some_iff using i(2) by simp
  then show ?thesis using i(2) j(2) by blast
qed

lemma search_new:
  assumes "slots_ok n ix t" "k \<notin> slots_set n t" "\<not> slots_full n t"
  shows "\<exists>j. for_first (\<lambda>j. t (ix k j) = None \<or> t (ix k j) = Some k) n 0 = Some j \<and> t (ix k j) = None \<and>
    slots_ok n ix (t(ix k j := Some k)) \<and> slots_set n (t(ix k j := Some k)) = insert k (slots_set n t)"
proof -
  let ?stop = "\<lambda>j. t (ix k j) = None \<or> t (ix k j) = Some k"
  have absent: "t i \<noteq> Some k" if "i < n" for i using that assms(2) by (auto simp: slots_set_def)
  obtain i where "i < n" "t i = None" using assms(3) unfolding slots_full_def by blast
  then obtain j0 where "j0 < n" "?stop j0" using ix_all [of i k] by auto
  then have "for_first ?stop n 0 \<noteq> None" unfolding for_first_None_iff by blast
  then obtain j where ff: "for_first ?stop n 0 = Some j" by blast
  then have j: "j < n" "?stop j" "\<forall>m < j. \<not> ?stop m" unfolding for_first_Some_iff by blast+
  define s where "s = ix k j"
  have s: "s < n" "t s = None" using j(2) absent ix_less by (auto simp: s_def)
  let ?t = "t(s := Some k)"
  have "\<exists>q < n. ix k' q = i \<and> (\<forall>m < q. ?t (ix k' m) \<noteq> None \<and> ?t (ix k' m) \<noteq> Some k')" if e: "i < n" "?t i = Some k'" for k' i
  proof (cases "i = s")
    case True
    then show ?thesis using e(2) j s_def by (intro exI [of _ j]) auto
  next
    case False
    then have old: "t i = Some k'" using e(2) by simp
    then obtain q where q: "q < n" "ix k' q = i" "\<forall>m < q. t (ix k' m) \<noteq> None \<and> t (ix k' m) \<noteq> Some k'"
      using assms(1) e(1) unfolding slots_ok_def by blast
    have "k' \<noteq> k" using absent [OF e(1)] old by auto
    moreover have "ix k' m \<noteq> s" if "m < q" for m using q(3) that s(2) by auto
    ultimately show ?thesis using q by (intro exI [of _ q]) auto
  qed
  then have "slots_ok n ix ?t" unfolding slots_ok_def by blast
  moreover have "slots_set n ?t = insert k (slots_set n t)" using s by (auto simp: slots_set_def) (metis option.distinct(1))
  ultimately show ?thesis using ff s by (auto simp: s_def)
qed

lemma slots_once:
  assumes "slots_ok n ix t" "i < n" "i' < n" "t i = Some k" "t i' = Some k"
  shows "i = i'"
proof -
  obtain j where j: "ix k j = i" "\<forall>m < j. t (ix k m) \<noteq> Some k" using assms unfolding slots_ok_def by blast
  obtain j' where j': "ix k j' = i'" "\<forall>m < j'. t (ix k m) \<noteq> Some k" using assms unfolding slots_ok_def by blast
  have "j = j'" using j j' assms(4,5) by (metis nat_neq_iff)
  then show ?thesis using j j' by simp
qed

lemma full_card:
  assumes "slots_ok n ix t" "slots_full n t"
  shows "card (slots_set n t) = n"
proof -
  have inj: "inj_on (\<lambda>i. the (t i)) {..<n}"
  proof (rule inj_onI)
    fix i j assume "i \<in> {..<n}" "j \<in> {..<n}" "the (t i) = the (t j)"
    moreover from this obtain k where "t i = Some k" "t j = Some k" using assms(2) by (fastforce simp: slots_full_def)
    ultimately show "i = j" using slots_once [OF assms(1)] by blast
  qed
  have "slots_set n t = (\<lambda>i. the (t i)) ` {..<n}"
    using assms(2) by (force simp: slots_set_def slots_full_def)
  then show ?thesis using card_image [OF inj] by simp
qed

lemma slots_finite: "finite (slots_set n t)"
proof -
  have "slots_set n t \<subseteq> (\<lambda>i. the (t i)) ` {..<n}" by (force simp: slots_set_def)
  then show ?thesis by (rule finite_subset) simp
qed

end

section \<open>What a client relies on\<close>

text \<open>The items that are reported when \<open>xs\<close> come one after the other; \<open>key x\<close> is the key of an item.\<close>

fun mark_all :: "('x \<Rightarrow> 'k) \<Rightarrow> ('k \<Rightarrow> 's \<Rightarrow> bool \<times> 's) \<Rightarrow> 'x list \<Rightarrow> 's \<Rightarrow> 'x list \<times> 's" where
  "mark_all f mark [] s = ([], s)"
| "mark_all f mark (x # xs) s =
     (let (old, s1) = mark (f x) s; (rs, s2) = mark_all f mark xs s1 in (if old then rs else x # rs, s2))"

text \<open>The specification: the first item of each key that is not in \<open>A\<close>.\<close>

fun first_times :: "('x \<Rightarrow> 'k) \<Rightarrow> 'k set \<Rightarrow> 'x list \<Rightarrow> 'x list" where
  "first_times f A [] = []"
| "first_times f A (x # xs) = (if f x \<in> A then first_times f A xs else x # first_times f (insert (f x) A) xs)"

lemma first_times_distinct: "distinct (map f (first_times f A xs)) \<and> f ` set (first_times f A xs) = f ` set xs - A"
  by (induction xs arbitrary: A) auto

lemma first_times_subset: "set (first_times f A xs) \<subseteq> set xs"
  by (induction xs arbitrary: A) auto

locale once =
  fixes ok :: "'s \<Rightarrow> bool" and known :: "'s \<Rightarrow> 'k set" and mark :: "'k \<Rightarrow> 's \<Rightarrow> bool \<times> 's" and fits :: "'k \<Rightarrow> bool" and cap :: nat
  assumes known_finite: "ok s \<Longrightarrow> finite (known s)"
    and mark_old: "ok s \<Longrightarrow> k \<in> known s \<Longrightarrow> mark k s = (True, s)"
    and mark_new: "ok s \<Longrightarrow> card (known s) < cap \<Longrightarrow> fits k \<Longrightarrow> k \<notin> known s \<Longrightarrow>
      \<exists>s'. mark k s = (False, s') \<and> ok s' \<and> known s' = insert k (known s)"
begin

lemma mark_all_first_times:
  "ok s \<Longrightarrow> \<forall>x \<in> set xs. fits (f x) \<Longrightarrow> card (known s \<union> f ` set xs) \<le> cap \<Longrightarrow>
   \<exists>s'. mark_all f mark xs s = (first_times f (known s) xs, s') \<and> ok s' \<and> known s' = known s \<union> f ` set xs"
proof (induction xs arbitrary: s)
  case (Cons x xs)
  have f: "\<forall>x \<in> set xs. fits (f x)" using Cons.prems(2) by simp
  show ?case
  proof (cases "f x \<in> known s")
    case True
    then have m: "mark (f x) s = (True, s)" using mark_old [OF Cons.prems(1)] by simp
    have "card (known s \<union> f ` set xs) \<le> cap" using Cons.prems(3) True by (simp add: insert_absorb)
    then show ?thesis using Cons.IH [OF Cons.prems(1) f] m True by auto
  next
    case False
    then have "card (known s) < card (known s \<union> f ` set (x # xs))"
      using known_finite [OF Cons.prems(1)] by (intro psubset_card_mono) auto
    then obtain s1 where m: "mark (f x) s = (False, s1)" "ok s1" "known s1 = insert (f x) (known s)"
      using mark_new [OF Cons.prems(1) _ _ False] Cons.prems(2,3) by auto
    have "card (known s1 \<union> f ` set xs) \<le> cap" using Cons.prems(3) m(3) by simp
    then obtain s' where "mark_all f mark xs s1 = (first_times f (known s1) xs, s')" "ok s'" "known s' = known s1 \<union> f ` set xs"
      using Cons.IH [OF m(2) f] by blast
    then show ?thesis using m False by simp
  qed
qed simp

end

end
