(* ===== verification/Net_Mac.thy ===== *)
theory Net_Mac
  imports Seen_Set Exec_Main
begin

text \<open>
  The macOS net tracer (\<^verbatim>\<open>src/c/net.c\<close>, \<^verbatim>\<open>__APPLE__\<close>): it lists the sockets with \<^verbatim>\<open>lsof -F\<close> once per
  interval and reports those it has not seen before. What \<^verbatim>\<open>lsof\<close> prints is a parameter, the list of
  the lines \<^verbatim>\<open>fgets\<close> returns; so is the user database. C \<^verbatim>\<open>int\<close>s are kept as \<open>int\<close>, they come from
  \<^verbatim>\<open>atoi\<close>.
\<close>

section \<open>Definitions\<close>

subsection \<open>Sockets seen so far\<close>

record net_conn =
  k_proto :: string
  k_pid :: int
  k_src :: string
  k_sport :: int
  k_dst :: string
  k_dport :: int

definition fnv64_str :: "u64 \<Rightarrow> string \<Rightarrow> u64" where
  "fnv64_str h s = foldl (\<lambda>h c. (h XOR ucast (ord8 c)) * 1099511628211) h s"

definition fnv64_int :: "u64 \<Rightarrow> int \<Rightarrow> u64" where
  "fnv64_int h v = (h XOR ucast (of_int v :: u32)) * 1099511628211"

definition net_hash :: "net_conn \<Rightarrow> u32" where
  "net_hash k =
     ucast (fnv64_int (fnv64_str (fnv64_int (fnv64_str (fnv64_int (fnv64_str 1469598103934665603
       (k_proto k)) (k_pid k)) (k_src k)) (k_sport k)) (k_dst k)) (k_dport k))"

text \<open>A slot: \<open>None\<close> while unused, else the hash and the other fields.\<close>

type_synonym net_seen = "nat \<Rightarrow> (u32 \<times> net_conn) option"

definition seen_stored :: "net_conn \<Rightarrow> net_conn" where
  "seen_stored k = k\<lparr>k_proto := snprintf_s 8 (k_proto k), k_src := snprintf_s 64 (k_src k), k_dst := snprintf_s 64 (k_dst k)\<rparr>"

definition net_seen_check_insert :: "u32 \<Rightarrow> net_conn \<Rightarrow> net_seen \<Rightarrow> bool \<times> net_seen" where
  "net_seen_check_insert h k t =
     (let i = h AND 16383
      in case for_first (\<lambda>j. t (probe_ix i j) = None \<or> t (probe_ix i j) = Some (h, k)) CAP 0 of
           None \<Rightarrow> (True, t)
         | Some j \<Rightarrow> (case t (probe_ix i j) of
             None \<Rightarrow> (False, t(probe_ix i j := Some (h, seen_stored k)))
           | Some _ \<Rightarrow> (True, t)))"

subsection \<open>Addresses\<close>

definition split_conn :: "string \<Rightarrow> nat \<Rightarrow> nat \<Rightarrow> string \<times> string" where
  "split_conn body srcsz dstsz =
     (case strstr body ''->'' of
        Some l \<Rightarrow> (take (if l \<ge> srcsz then srcsz - 1 else l) body, snprintf_s dstsz (drop (l + 2) body))
      | None \<Rightarrow> (snprintf_s srcsz body, ''''))"

definition split_host_port :: "string \<Rightarrow> nat \<Rightarrow> string \<times> int" where
  "split_host_port s ipsz =
     (if s = '''' \<or> s = ''*:*'' then ('''', 0)
      else if hd s = CHR ''['' then
        (case strstr s '']:'' of None \<Rightarrow> ('''', 0)
         | Some n \<Rightarrow> (take (if n - 1 \<ge> ipsz then ipsz - 1 else n - 1) (tl s), atoi (drop (n + 2) s)))
      else case strrchr s (CHR '':'') of None \<Rightarrow> (snprintf_s ipsz s, 0)
         | Some l \<Rightarrow>
             let ip = take (if l \<ge> ipsz then ipsz - 1 else l) s
             in (if ip = ''*'' then '''' else ip,
                 if l + 1 < length s \<and> s ! (l + 1) = CHR ''*'' then 0 else atoi (drop (l + 1) s)))"

definition join_host_port :: "string \<Rightarrow> int \<Rightarrow> nat \<Rightarrow> string" where
  "join_host_port ip port cap =
     snprintf_s cap (if ip = '''' then ''*:'' @ dec_int port
       else if CHR '':'' \<in> set ip then ''['' @ ip @ '']:'' @ dec_int port
       else ip @ '':'' @ dec_int port)"

subsection \<open>The lsof command\<close>

text \<open>The buffer holds 2048 characters. The loop stops when a number does not fit; \<open>out\<close> is what lies
  before the write position.\<close>

fun pidlist_loop :: "bool \<Rightarrow> i32 list \<Rightarrow> string \<Rightarrow> string outcome" where
  "pidlist_loop first [] out = Inr out"
| "pidlist_loop first (p # ps) out =
     (if \<not> first \<and> length out \<ge> 2048 then Inl OutOfBounds
      else let out' = (if first then out else out @ '','')
           in if length out' + length (dec_int (sint p)) \<ge> 2048 then Inr out'
              else pidlist_loop False ps (out' @ dec_int (sint p)))"

definition pidlist :: "i32 list \<Rightarrow> string outcome" where
  "pidlist ps = and_then (pidlist_loop True ps '''') (\<lambda>out. if length out \<ge> 2048 then Inl OutOfBounds else Inr out)"

definition lsof_argv :: "i32 list \<Rightarrow> string list outcome" where
  "lsof_argv watch =
     (let base = [''/usr/sbin/lsof'', ''-nP'', ''-i'', ''-F'', ''pcLPnu'']
      in if watch = [] then Inr base else and_then (pidlist watch) (\<lambda>l. Inr (base @ [''-a'', ''-p'', l])))"

subsection \<open>Output\<close>

record mac_net =
  mn_watch :: "i32 list"
  mn_color :: bool
  mn_force :: bool
  mn_user :: bool
  mn_errors :: bool
  mn_poll :: int

definition mac_net_c :: "mac_net \<Rightarrow> string \<Rightarrow> string \<Rightarrow> string" where
  "mac_net_c cfg code s = clr (mn_color cfg) code (Some s)"

definition net_user_of :: "(u32 \<Rightarrow> string option) \<Rightarrow> u32 \<Rightarrow> string" where
  "net_user_of users own = (case users own of Some nm \<Rightarrow> snprintf_s 64 nm | None \<Rightarrow> snprintf_s 64 (dec_nat (unat own)))"

definition comm_column :: "string \<Rightarrow> string" where
  "comm_column comm =
     (let cm = (if comm = '''' then ''?'' else comm)
      in if length cm > 12 then snprintf_s 32 (take 11 cm @ [CHR 0xE2, CHR 0x80, CHR 0xA6]) else snprintf_s 32 (pad_right 12 cm))"

definition net_emit :: "(u32 \<Rightarrow> string option) \<Rightarrow> mac_net \<Rightarrow> string \<Rightarrow> u32 \<Rightarrow> net_conn \<Rightarrow> string" where
  "net_emit users cfg comm own k =
     pad_left 7 (dec_int (k_pid k)) @ '' '' @ mac_net_c cfg ''96'' (comm_column comm)
     @ (if mn_user cfg then
          let u = net_user_of users own
          in mac_net_c cfg (if u = ''root'' then ''91'' else ''92'') (snprintf_s 80 ('' <'' @ u @ ''>''))
        else '''')
     @ '' '' @ mac_net_c cfg ''2'' (snprintf_s 512 (pad_right 4 (k_proto k)))
     @ '' '' @ mac_net_c cfg ''32'' (snprintf_s 96 (pad_right 30 (join_host_port (k_src k) (k_sport k) 80)))
     @ '' '' @ (if k_dst k = '''' \<and> k_dport k = 0 then mac_net_c cfg ''2'' [CHR 0xE2, CHR 0x80, CHR 0xA2]
               else mac_net_c cfg ''36'' [CHR 0xE2, CHR 0x86, CHR 0x92])
     @ '' '' @ mac_net_c cfg ''33'' (snprintf_s 96 (pad_right 30 (join_host_port (k_dst k) (k_dport k) 80))) @ NL"

subsection \<open>Reading what lsof prints\<close>

record scan_st =
  cur_pid :: int
  cur_uid :: u32
  cur_comm :: string
  cur_proto :: string
  seen :: net_seen
  s_out :: string

definition scan_conn :: "string \<Rightarrow> scan_st \<Rightarrow> net_conn" where
  "scan_conn body st =
     (let (src, dst) = split_conn body 64 64; (sip, sport) = split_host_port src 64; (dip, dport) = split_host_port dst 64
      in \<lparr>k_proto = cur_proto st, k_pid = cur_pid st, k_src = sip, k_sport = sport, k_dst = dip, k_dport = dport\<rparr>)"

definition scan_name :: "(u32 \<Rightarrow> string option) \<Rightarrow> mac_net \<Rightarrow> bool \<Rightarrow> string \<Rightarrow> scan_st \<Rightarrow> scan_st" where
  "scan_name users cfg seedOnly body st =
     (if body = '''' \<or> hd body = CHR ''/'' \<or> cur_proto st = '''' then st
      else let k = scan_conn body st
        in if k_sport k = 0 \<and> k_dport k = 0 then st
           else let (already, t) = net_seen_check_insert (net_hash k) k (seen st)
             in st\<lparr>seen := t, s_out := s_out st @ (if already \<or> seedOnly then '''' else net_emit users cfg (cur_comm st) (cur_uid st) k)\<rparr>)"

definition scan_line :: "(u32 \<Rightarrow> string option) \<Rightarrow> mac_net \<Rightarrow> bool \<Rightarrow> string \<Rightarrow> scan_st \<Rightarrow> scan_st" where
  "scan_line users cfg seedOnly line0 st =
     (let line = trim_right (\<lambda>c. c = CHR 0x0A \<or> c = CHR 0x0D) line0
      in if length line < 2 then st
         else let c = hd line; body = tl line
           in if c = CHR ''p'' then st\<lparr>cur_pid := atoi body, cur_proto := '''', cur_uid := 0\<rparr>
              else if c = CHR ''c'' then st\<lparr>cur_comm := snprintf_s 64 body\<rparr>
              else if c = CHR ''u'' then st\<lparr>cur_uid := of_int (fst (strtoul10 body))\<rparr>
              else if c = CHR ''f'' then st\<lparr>cur_proto := ''''\<rparr>
              else if c = CHR ''P'' then st\<lparr>cur_proto := snprintf_s 8 body\<rparr>
              else if c = CHR ''n'' then scan_name users cfg seedOnly body st
              else st)"

definition net_scan ::
  "(u32 \<Rightarrow> string option) \<Rightarrow> mac_net \<Rightarrow> bool \<Rightarrow> string list \<Rightarrow> net_seen \<times> string \<Rightarrow> net_seen \<times> string" where
  "net_scan users cfg seedOnly ls st =
     (let e = fold (scan_line users cfg seedOnly) ls
        \<lparr>cur_pid = 0, cur_uid = 0, cur_comm = ''?'', cur_proto = '''', seen = fst st, s_out = snd st\<rparr>
      in (seen e, s_out e))"

subsection \<open>Command line\<close>

record mac_net_args =
  mn_opts :: mac_net
  mn_out :: "string option"
  mn_cmd :: "string list"

definition mac_net_initial :: mac_net_args where
  "mac_net_initial =
     \<lparr>mn_opts = \<lparr>mn_watch = [], mn_color = False, mn_force = False, mn_user = False, mn_errors = True, mn_poll = 1000\<rparr>,
      mn_out = None, mn_cmd = []\<rparr>"

fun mac_net_pids :: "(int \<Rightarrow> bool) \<Rightarrow> string list \<Rightarrow> i32 list \<Rightarrow> leave + i32 list" where
  "mac_net_pids esrch [] ws = Inr ws"
| "mac_net_pids esrch (t # ts) ws =
     (let s = trim_left is_blank t
      in if s = '''' then mac_net_pids esrch ts ws
         else let (v, rest, erange) = strtol10 s
              in if rest = s \<or> rest \<noteq> [] \<or> erange \<or> v \<le> 0 then Inl (Fatal (''-p: invalid PID: '' @ s))
                 else if esrch (to_int32 v) then Inl (Fatal (''-p '' @ dec_int (to_int32 v) @ '': no such process''))
                 else mac_net_pids esrch ts (if length ws < 256 then ws @ [of_int v] else ws))"

definition mac_net_flag :: "(int \<Rightarrow> bool) \<Rightarrow> char \<Rightarrow> string list \<Rightarrow> mac_net_args \<Rightarrow> leave + (string list \<times> mac_net_args)" where
  "mac_net_flag esrch ch rest a =
     (let cfg = mn_opts a in
      if ch = CHR ''c'' then Inr (rest, a\<lparr>mn_opts := cfg\<lparr>mn_force := True\<rparr>\<rparr>)
      else if ch = CHR ''u'' then Inr (rest, a\<lparr>mn_opts := cfg\<lparr>mn_user := True\<rparr>\<rparr>)
      else if ch = CHR ''Q'' then Inr (rest, a\<lparr>mn_opts := cfg\<lparr>mn_errors := False\<rparr>\<rparr>)
      else if ch \<in> set ''tUr46O'' then Inr (rest, a)
      else if ch = CHR ''p'' then
        (case rest of [] \<Rightarrow> Inl (Fatal ''flag -p requires an argument'')
         | v # rest' \<Rightarrow> (case mac_net_pids esrch (strtok '','' v) (mn_watch cfg) of Inl l \<Rightarrow> Inl l
                        | Inr ws \<Rightarrow> Inr (rest', a\<lparr>mn_opts := cfg\<lparr>mn_watch := ws\<rparr>\<rparr>)))
      else if ch = CHR ''o'' then
        (case rest of [] \<Rightarrow> Inl (Fatal ''flag -o requires an argument'')
         | v # rest' \<Rightarrow> Inr (rest', a\<lparr>mn_out := Some v\<rparr>))
      else if ch = CHR ''i'' then
        (case rest of [] \<Rightarrow> Inl (Fatal ''flag -i requires an argument (poll interval ms)'')
         | v # rest' \<Rightarrow> let n = fst (strtol10 v)
             in if n \<le> 0 then Inl (Fatal (''-i: invalid interval: '' @ v))
                else Inr (rest', a\<lparr>mn_opts := cfg\<lparr>mn_poll := to_int32 n\<rparr>\<rparr>))
      else if ch = CHR ''h'' then Inl UsageText
      else Inl (Fatal (''unknown flag -'' @ [ch])))"

fun mac_net_letters :: "(int \<Rightarrow> bool) \<Rightarrow> string \<Rightarrow> string list \<Rightarrow> mac_net_args \<Rightarrow> leave + (string list \<times> mac_net_args)" where
  "mac_net_letters esrch [] rest a = Inr (rest, a)"
| "mac_net_letters esrch (ch # chs) rest a =
     (case mac_net_flag esrch ch rest a of Inl l \<Rightarrow> Inl l
      | Inr (rest', a') \<Rightarrow> mac_net_letters esrch chs rest' a')"

lemma mac_net_flag_shorter: "mac_net_flag esrch ch rest a = Inr (rest', a') \<Longrightarrow> length rest' \<le> length rest"
  by (auto simp: mac_net_flag_def Let_def split: if_splits list.splits sum.splits)

lemma mac_net_letters_shorter: "mac_net_letters esrch chs rest a = Inr (rest', a') \<Longrightarrow> length rest' \<le> length rest"
proof (induction chs arbitrary: rest a)
  case (Cons ch chs)
  from Cons.prems obtain r b where "mac_net_flag esrch ch rest a = Inr (r, b)" "mac_net_letters esrch chs r b = Inr (rest', a')"
    by (auto split: sum.splits)
  then show ?case using Cons.IH mac_net_flag_shorter le_trans by blast
qed simp

function mac_net_parse :: "(int \<Rightarrow> bool) \<Rightarrow> string list \<Rightarrow> mac_net_args \<Rightarrow> leave + mac_net_args" where
  "mac_net_parse esrch [] a = Inr a"
| "mac_net_parse esrch (w # ws) a =
     (if length w < 2 \<or> hd w \<noteq> CHR ''-'' then Inr (a\<lparr>mn_cmd := w # ws\<rparr>)
      else case mac_net_letters esrch (tl w) ws a of Inl l \<Rightarrow> Inl l
           | Inr (rest, a') \<Rightarrow> mac_net_parse esrch rest a')"
  by pat_completeness auto
termination
  by (relation "measure (\<lambda>(esrch, ws, a). length ws)") (auto dest: mac_net_letters_shorter)

definition mac_net_color :: "exec_host \<Rightarrow> mac_net \<Rightarrow> mac_net" where
  "mac_net_color h cfg =
     (if mn_force cfg then cfg\<lparr>mn_color := True\<rparr>
      else if h_no_color h = None then cfg\<lparr>mn_color := is_terminal (h_tty h)\<rparr> else cfg)"

definition mac_net_setup :: "exec_host \<Rightarrow> i32 \<Rightarrow> string list \<Rightarrow> leave + mac_net_args" where
  "mac_net_setup h child args =
     (case mac_net_parse (h_esrch h) args mac_net_initial of Inl l \<Rightarrow> Inl l
      | Inr a \<Rightarrow>
          if mn_out a \<noteq> None \<and> mn_out a \<noteq> Some '''' \<and> \<not> h_opens h (the (mn_out a))
          then Inl (Fatal (''open '' @ the (mn_out a) @ '': '' @ h_strerror h))
          else let cfg = mac_net_color h (mn_opts a)
            in Inr (a\<lparr>mn_opts := (if mn_cmd a \<noteq> [] \<and> length (mn_watch cfg) < 256 then cfg\<lparr>mn_watch := mn_watch cfg @ [child]\<rparr> else cfg)\<rparr>))"

definition net_on_sigchld :: "i32 \<Rightarrow> i32 list \<Rightarrow> bool \<Rightarrow> bool" where
  "net_on_sigchld child reaped done = fold (\<lambda>r f. if r = child then True else f) reaped done"

definition mac_net_fatal_text :: "string \<Rightarrow> string" where
  "mac_net_fatal_text msg = ''tracep net: '' @ msg @ NL"

text \<open>The interval the loop sleeps: seconds and nanoseconds.\<close>

definition poll_interval :: "mac_net \<Rightarrow> int \<times> int" where
  "poll_interval cfg =
     (let ms = mn_poll cfg; r = ms - 1000 * (if ms \<ge> 0 then ms div 1000 else - ((- ms) div 1000))
      in (if ms \<ge> 0 then ms div 1000 else - ((- ms) div 1000), r * 1000000))"

text \<open>The scans of a run, the first one silent. A turn is what \<^verbatim>\<open>lsof\<close> prints and, where the child has
  exited by then, what it prints for the last scan.\<close>

fun mac_net_loop ::
  "(u32 \<Rightarrow> string option) \<Rightarrow> mac_net \<Rightarrow> (string list \<times> string list option) list \<Rightarrow> net_seen \<times> string \<Rightarrow> bool \<times> net_seen \<times> string" where
  "mac_net_loop users cfg [] st = (False, st)"
| "mac_net_loop users cfg ((ls, gone) # turns) st =
     (let st' = net_scan users cfg False ls st
      in case gone of Some ls' \<Rightarrow> (True, net_scan users cfg False ls' st')
         | None \<Rightarrow> mac_net_loop users cfg turns st')"

definition mac_net_run ::
  "(u32 \<Rightarrow> string option) \<Rightarrow> mac_net \<Rightarrow> string list \<Rightarrow> (string list \<times> string list option) list \<Rightarrow> bool \<times> net_seen \<times> string" where
  "mac_net_run users cfg seed turns = mac_net_loop users cfg turns (net_scan users cfg True seed (\<lambda>_. None, ''''))"

section \<open>The set of seen sockets\<close>

definition conn_fits :: "net_conn \<Rightarrow> bool" where
  "conn_fits k \<longleftrightarrow> length (k_proto k) < 8 \<and> length (k_src k) < 64 \<and> length (k_dst k) < 64"

definition seen_set :: "net_seen \<Rightarrow> net_conn set" where
  "seen_set t = {k. \<exists>i < CAP. t i = Some (net_hash k, k)}"

definition seen_full :: "net_seen \<Rightarrow> bool" where
  "seen_full t \<longleftrightarrow> (\<forall>i < CAP. t i \<noteq> None)"

abbreviation seen_ix :: "u32 \<times> net_conn \<Rightarrow> nat \<Rightarrow> nat" where
  "seen_ix e \<equiv> probe_ix (fst e AND 16383)"

text \<open>Every entry is under its own hash and is met by the search before any unused slot.\<close>

definition seen_ok :: "net_seen \<Rightarrow> bool" where
  "seen_ok t \<longleftrightarrow> slots_ok CAP seen_ix t \<and> (\<forall>e \<in> slots_set CAP t. fst e = net_hash (snd e))"

lemma seen_stored_id: "conn_fits k \<Longrightarrow> seen_stored k = k"
  by (simp add: seen_stored_def conn_fits_def)

lemma probe_all_slots: "i < CAP \<Longrightarrow> \<exists>j < CAP. probe_ix h j = i"
proof -
  assume i: "i < CAP"
  let ?a = "unat h mod CAP"
  have "(?a + dist ?a i) mod CAP = i" using i by (intro dist_add) simp_all
  moreover have "(?a + dist ?a i) mod CAP = probe_ix h (dist ?a i)" by (simp add: probe_ix_mod mod_simps)
  ultimately show ?thesis using dist_less by metis
qed

interpretation seen_slots: open_set CAP seen_ix
  by unfold_locales (auto simp: probe_all_slots)

lemma seen_set_slots: "k \<in> seen_set t \<longleftrightarrow> (net_hash k, k) \<in> slots_set CAP t"
  by (simp add: seen_set_def slots_set_def)

lemma check_insert_present:
  assumes "seen_ok t" "k \<in> seen_set t"
  shows "net_seen_check_insert (net_hash k) k t = (True, t)"
  using seen_slots.search_present [of t "(net_hash k, k)"] assms
  by (auto simp: net_seen_check_insert_def seen_ok_def seen_set_slots)

lemma check_insert_full:
  assumes "seen_full t"
  shows "net_seen_check_insert (net_hash k) k t = (True, t)"
proof -
  have "t (probe_ix h j) \<noteq> None" for h j using assms unfolding seen_full_def by simp
  then show ?thesis
    unfolding net_seen_check_insert_def Let_def by (auto split: option.split simp del: not_None_eq)
qed

lemma check_insert_new:
  assumes "seen_ok t" "\<not> seen_full t" "conn_fits k" "k \<notin> seen_set t"
  shows "\<exists>t'. net_seen_check_insert (net_hash k) k t = (False, t') \<and> seen_ok t' \<and> seen_set t' = insert k (seen_set t)"
proof -
  let ?e = "(net_hash k, k)"
  have new: "?e \<notin> slots_set CAP t" "\<not> slots_full CAP t" "slots_ok CAP seen_ix t"
    using assms by (simp_all add: seen_set_slots seen_full_def slots_full_def seen_ok_def)
  then obtain j where j: "for_first (\<lambda>j. t (seen_ix ?e j) = None \<or> t (seen_ix ?e j) = Some ?e) CAP 0 = Some j"
    "t (seen_ix ?e j) = None" "slots_ok CAP seen_ix (t(seen_ix ?e j := Some ?e))"
    "slots_set CAP (t(seen_ix ?e j := Some ?e)) = insert ?e (slots_set CAP t)"
    using seen_slots.search_new by blast
  let ?t = "t(seen_ix ?e j := Some ?e)"
  have "net_seen_check_insert (net_hash k) k t = (False, ?t)"
    using j(1,2) seen_stored_id [OF assms(3)] by (simp add: net_seen_check_insert_def Let_def)
  moreover have "seen_ok ?t" using j(3,4) assms(1) by (simp add: seen_ok_def)
  moreover have "seen_set ?t = insert k (seen_set t)"
    by (rule set_eqI) (use j(4) in \<open>auto simp: seen_set_slots\<close>)
  ultimately show ?thesis by blast
qed

text \<open>The table as its client sees it.\<close>

lemma slots_seen: "seen_ok t \<Longrightarrow> slots_set CAP t = (\<lambda>k. (net_hash k, k)) ` seen_set t"
  by (force simp: seen_ok_def seen_set_slots)

lemma seen_finite:
  assumes "seen_ok t"
  shows "finite (seen_set t)"
proof -
  have "seen_set t \<subseteq> snd ` slots_set CAP t" unfolding slots_seen [OF assms] by force
  then show ?thesis using seen_slots.slots_finite finite_subset by blast
qed

lemma seen_room:
  assumes "seen_ok t" "card (seen_set t) < CAP"
  shows "\<not> seen_full t"
proof
  assume "seen_full t"
  then have "card (slots_set CAP t) = CAP"
    using assms(1) by (intro seen_slots.full_card) (simp_all add: seen_ok_def seen_full_def slots_full_def)
  moreover have "card (slots_set CAP t) \<le> card (seen_set t)"
    unfolding slots_seen [OF assms(1)] by (rule card_image_le) (rule seen_finite [OF assms(1)])
  ultimately show False using assms(2) by simp
qed

interpretation seen: once seen_ok seen_set "\<lambda>k. net_seen_check_insert (net_hash k) k" conn_fits CAP
  by unfold_locales (rule check_insert_present check_insert_new seen_finite, assumption+ | blast dest: seen_room)+

section \<open>The pid list\<close>

lemma pidlist_loop_fits:
  assumes "\<And>p. p \<in> set ps \<Longrightarrow> length (dec_int (sint p)) \<le> 6" "length out + 7 * length ps < 2048"
  shows "pidlist_loop False ps out = Inr (out @ concat (map (\<lambda>p. '','' @ dec_int (sint p)) ps))"
  using assms
proof (induction ps arbitrary: out)
  case (Cons p ps)
  have p: "length (dec_int (sint p)) \<le> 6" using Cons.prems(1) by simp
  have "\<not> length out \<ge> 2048" "\<not> length (out @ '','') + length (dec_int (sint p)) \<ge> 2048" using p Cons.prems(2) by simp_all
  moreover have "length (out @ '','' @ dec_int (sint p)) + 7 * length ps < 2048" using p Cons.prems(2) by simp
  ultimately show ?case using Cons.IH [of "out @ '','' @ dec_int (sint p)"] Cons.prems(1) by (simp add: Let_def)
qed simp

definition comma_pids :: "i32 list \<Rightarrow> string" where
  "comma_pids ps = (case ps of [] \<Rightarrow> '''' | p # r \<Rightarrow> dec_int (sint p) @ concat (map (\<lambda>p. '','' @ dec_int (sint p)) r))"

lemma length_pid_text: "0 < sint p \<Longrightarrow> sint p \<le> 999999 \<Longrightarrow> length (dec_int (sint p)) \<le> 6"
  using length_dec_nat [of "nat (sint p)" 5] by (simp add: dec_int_def nat_less_iff)

lemma concat_commas:
  "(\<And>p. p \<in> set ps \<Longrightarrow> length (dec_int (sint p)) \<le> 6) \<Longrightarrow>
   length (concat (map (\<lambda>p. '','' @ dec_int (sint p)) ps)) \<le> 7 * length ps"
proof (induction ps)
  case (Cons p ps)
  then have "length (dec_int (sint p)) \<le> 6" "length (concat (map (\<lambda>p. '','' @ dec_int (sint p)) ps)) \<le> 7 * length ps" by simp_all
  then show ?case by simp
qed simp

lemma pidlist_complete:
  assumes "ps \<noteq> []" "length ps \<le> 256" "\<And>p. p \<in> set ps \<Longrightarrow> 0 < sint p \<and> sint p \<le> 999999"
  shows "pidlist ps = Inr (comma_pids ps)"
proof -
  obtain p r where ps: "ps = p # r" using assms(1) by (cases ps) auto
  have len: "length (dec_int (sint q)) \<le> 6" if "q \<in> set ps" for q using assms(3) [OF that] length_pid_text by blast
  have p: "length (dec_int (sint p)) \<le> 6" using len ps by simp
  have r: "length (concat (map (\<lambda>p. '','' @ dec_int (sint p)) r)) \<le> 7 * length r" using len ps by (intro concat_commas) simp
  have n: "length r \<le> 255" using assms(2) ps by simp
  have "pidlist_loop False r (dec_int (sint p)) = Inr (comma_pids ps)"
    using pidlist_loop_fits [of r "dec_int (sint p)"] len p n by (simp add: ps comma_pids_def)
  moreover have "\<not> length (comma_pids ps) \<ge> 2048" using p r n by (simp add: ps comma_pids_def)
  ultimately show ?thesis using p by (simp add: pidlist_def ps)
qed

section \<open>Addresses as lsof prints them\<close>

lemma strstr_first: "a \<notin> set s \<Longrightarrow> strstr (s @ a # q @ r) (a # q) = Some (length s)"
  by (induction s) auto

text \<open>An address \<^verbatim>\<open>lsof -n\<close> prints: nothing for the wildcard, or an IPv4 or IPv6 literal; and a port number.\<close>

definition ip_text :: "string \<Rightarrow> bool" where
  "ip_text ip \<longleftrightarrow> length ip < 46 \<and> (\<forall>c \<in> set ip. c \<notin> {CHR ''['', CHR '']'', CHR ''*'', CHR ''-'', CHR ''/''})"

lemma dec_int_nat: "dec_int (int n) = dec_nat n"
  by (simp add: dec_int_def)

lemma split_join_host_port:
  assumes "ip_text ip" "n \<le> 65535"
  shows "split_host_port (join_host_port ip (int n) 64) 64 = (ip, int n)"
    and "length (join_host_port ip (int n) 64) < 64"
    and "CHR ''-'' \<notin> set (join_host_port ip (int n) 64) \<and> hd (join_host_port ip (int n) 64) \<noteq> CHR ''/'' \<and> join_host_port ip (int n) 64 \<noteq> ''''"
proof -
  have len: "length (dec_nat n) \<le> 5" using length_dec_nat [of n 4] assms(2) by simp
  have dig: "isdigit c" if "c \<in> set (dec_nat n)" for c using dec_nat_digits [OF that] .
  obtain d ds where d: "dec_nat n = d # ds" using show_base_nonempty [of 10 n] by (cases "dec_nat n") auto
  have at: "atoi (dec_nat n) = int n" using atoi_dec_nat [of n "[]"] assms(2) by simp
  have d1: "d \<noteq> CHR ''*''" using dig [of d] d by (auto simp: isdigit_def)
  have colon: "CHR '':'' \<notin> set (dec_nat n)" by (rule no_sep_dec) simp
  have gt: "CHR ''-'' \<notin> set (dec_nat n)" by (rule no_sep_dec) (simp add: isdigit_def)
  let ?full = "if ip = '''' then ''*:'' @ dec_nat n else if CHR '':'' \<in> set ip then ''['' @ ip @ '']:'' @ dec_nat n else ip @ '':'' @ dec_nat n"
  have j: "join_host_port ip (int n) 64 = ?full" and l: "length ?full < 64"
    using len assms(1) by (simp_all add: join_host_port_def dec_int_nat ip_text_def)
  show "length (join_host_port ip (int n) 64) < 64" using j l by simp
  show "CHR ''-'' \<notin> set (join_host_port ip (int n) 64) \<and> hd (join_host_port ip (int n) 64) \<noteq> CHR ''/'' \<and> join_host_port ip (int n) 64 \<noteq> ''''"
    unfolding j using assms(1) gt by (cases ip) (auto simp: ip_text_def)
  show "split_host_port (join_host_port ip (int n) 64) 64 = (ip, int n)"
  proof (cases "ip \<noteq> '''' \<and> CHR '':'' \<in> set ip")
    case True
    have "strstr (''['' @ ip @ '']:'' @ dec_nat n) '']:'' = Some (length ip + 1)"
      using strstr_first [of "CHR '']''" "''['' @ ip" "'':''" "dec_nat n"] assms(1) by (auto simp: ip_text_def)
    then show ?thesis unfolding j using True assms(1) at by (simp add: split_host_port_def ip_text_def)
  next
    case False
    let ?s = "(if ip = '''' then ''*'' else ip) @ CHR '':'' # dec_nat n"
    have "strrchr ?s (CHR '':'') = Some (length (if ip = '''' then ''*'' else ip))" using colon by (rule strrchr_append)
    moreover have "hd ?s \<noteq> CHR ''[''" "?s \<noteq> ''*:*''" "?s \<noteq> ''''" using assms(1) d d1 by (cases ip; auto simp: ip_text_def)+
    moreover have "ip \<noteq> ''*''"
    proof
      assume "ip = ''*''"
      then show False using assms(1) by (simp add: ip_text_def)
    qed
    moreover have "?full = ?s" using False by auto
    ultimately show ?thesis unfolding j using assms(1) at d d1
      by (auto simp: split_host_port_def ip_text_def nth_append Let_def)
  qed
qed

section \<open>A listing\<close>

record lsof_sock =
  l_fd :: string
  l_proto :: string
  l_src :: string
  l_sport :: nat
  l_peer :: "(string \<times> nat) option"

record lsof_proc =
  q_pid :: nat
  q_comm :: string
  q_own :: u32
  q_login :: string
  q_socks :: "lsof_sock list"

definition sock_name :: "lsof_sock \<Rightarrow> string" where
  "sock_name s = join_host_port (l_src s) (int (l_sport s)) 64 @
     (case l_peer s of None \<Rightarrow> '''' | Some (d, n) \<Rightarrow> ''->'' @ join_host_port d (int n) 64)"

definition sock_lines :: "lsof_sock \<Rightarrow> string list" where
  "sock_lines s = [''f'' @ l_fd s @ NL, ''P'' @ l_proto s @ NL, ''n'' @ sock_name s @ NL]"

definition proc_lines :: "lsof_proc \<Rightarrow> string list" where
  "proc_lines q = [''p'' @ dec_nat (q_pid q) @ NL, ''c'' @ q_comm q @ NL, ''u'' @ dec_nat (unat (q_own q)) @ NL, ''L'' @ q_login q @ NL]
     @ concat (map sock_lines (q_socks q))"

definition sock_conn :: "int \<Rightarrow> lsof_sock \<Rightarrow> net_conn" where
  "sock_conn p s = \<lparr>k_proto = l_proto s, k_pid = p, k_src = l_src s, k_sport = int (l_sport s),
     k_dst = (case l_peer s of None \<Rightarrow> '''' | Some (d, n) \<Rightarrow> d), k_dport = (case l_peer s of None \<Rightarrow> 0 | Some (d, n) \<Rightarrow> int n)\<rparr>"

definition line_text :: "string \<Rightarrow> bool" where
  "line_text s \<longleftrightarrow> s \<noteq> '''' \<and> last s \<noteq> CHR 0x0A \<and> last s \<noteq> CHR 0x0D"

definition sock_ok :: "lsof_sock \<Rightarrow> bool" where
  "sock_ok s \<longleftrightarrow> line_text (l_fd s) \<and> l_proto s \<in> {''TCP'', ''UDP''} \<and> ip_text (l_src s) \<and> 0 < l_sport s \<and> l_sport s \<le> 65535
     \<and> (case l_peer s of None \<Rightarrow> True | Some (d, n) \<Rightarrow> ip_text d \<and> n \<le> 65535)"

definition proc_ok :: "lsof_proc \<Rightarrow> bool" where
  "proc_ok q \<longleftrightarrow> q_pid q \<le> 2147483647 \<and> line_text (q_comm q) \<and> length (q_comm q) < 64 \<and> line_text (q_login q)
     \<and> list_all sock_ok (q_socks q)"

text \<open>What one socket adds to the table and to the output.\<close>

definition report ::
  "(u32 \<Rightarrow> string option) \<Rightarrow> mac_net \<Rightarrow> bool \<Rightarrow> string \<Rightarrow> u32 \<Rightarrow> net_conn \<Rightarrow> net_seen \<times> string \<Rightarrow> net_seen \<times> string" where
  "report users cfg seedOnly comm own k st =
     (let (already, t) = net_seen_check_insert (net_hash k) k (fst st)
      in (t, snd st @ (if already \<or> seedOnly then '''' else net_emit users cfg comm own k)))"

definition proc_conns :: "lsof_proc \<Rightarrow> (string \<times> u32 \<times> net_conn) list" where
  "proc_conns q = map (\<lambda>s. (q_comm q, q_own q, sock_conn (int (q_pid q)) s)) (q_socks q)"

lemma trim_line: "line_text s \<Longrightarrow> trim_right (\<lambda>c. c = CHR 0x0A \<or> c = CHR 0x0D) (c # s @ NL) = c # s"
  by (cases s rule: rev_cases) (simp_all add: line_text_def trim_right_def)

lemma last_digit: "isdigit (last (dec_nat n))"
  by (rule dec_nat_digits, rule last_in_set) simp

lemma line_text_digits: "line_text (dec_nat n)"
  using last_digit [of n] by (auto simp: line_text_def isdigit_def)

lemma scan_line_text:
  "line_text s \<Longrightarrow> scan_line users cfg seedOnly (c # s @ NL) st =
     (if c = CHR ''p'' then st\<lparr>cur_pid := atoi s, cur_proto := '''', cur_uid := 0\<rparr>
      else if c = CHR ''c'' then st\<lparr>cur_comm := snprintf_s 64 s\<rparr>
      else if c = CHR ''u'' then st\<lparr>cur_uid := of_int (fst (strtoul10 s))\<rparr>
      else if c = CHR ''f'' then st\<lparr>cur_proto := ''''\<rparr>
      else if c = CHR ''P'' then st\<lparr>cur_proto := snprintf_s 8 s\<rparr>
      else if c = CHR ''n'' then scan_name users cfg seedOnly s st
      else st)"
proof -
  assume s: "line_text s"
  then have "\<not> length (c # s) < 2" by (cases s) (simp_all add: line_text_def)
  then show ?thesis unfolding scan_line_def trim_line [OF s] Let_def by (simp only: if_False list.sel)
qed

lemma last_join: "n \<le> 65535 \<Longrightarrow> ip_text ip \<Longrightarrow> isdigit (last (join_host_port ip (int n) 64))"
proof -
  assume a: "n \<le> 65535" "ip_text ip"
  let ?pre = "if ip = '''' then ''*:'' else if CHR '':'' \<in> set ip then ''['' @ ip @ '']:'' else ip @ '':''"
  have "length (dec_nat n) \<le> 5" using length_dec_nat [of n 4] a by simp
  then have "length (?pre @ dec_nat n) < 64" using a(2) by (simp add: ip_text_def)
  moreover have "join_host_port ip (int n) 64 = snprintf_s 64 (?pre @ dec_nat n)"
    by (simp add: join_host_port_def dec_int_nat)
  ultimately have "join_host_port ip (int n) 64 = ?pre @ dec_nat n" by (simp only: snprintf_s_fits)
  then show ?thesis using last_digit [of n] by (simp only: last_append) simp
qed

lemma sock_name_facts:
  assumes "sock_ok s"
  shows "line_text (sock_name s)" "hd (sock_name s) \<noteq> CHR ''/''"
    and "scan_conn (sock_name s) (st\<lparr>cur_proto := l_proto s\<rparr>) = sock_conn (cur_pid st) s"
proof -
  let ?a = "join_host_port (l_src s) (int (l_sport s)) 64"
  have src: "ip_text (l_src s)" "l_sport s \<le> 65535" using assms by (simp_all add: sock_ok_def)
  note a = split_join_host_port [OF src]
  have dig: "c \<noteq> CHR 0x0A \<and> c \<noteq> CHR 0x0D" if "isdigit c" for c using that by (auto simp: isdigit_def)
  show "hd (sock_name s) \<noteq> CHR ''/''" using a(3) by (simp add: sock_name_def)
  show "line_text (sock_name s)"
  proof (cases "l_peer s")
    case None
    then show ?thesis using a(3) dig [OF last_join [OF src(2,1)]] by (simp add: line_text_def sock_name_def)
  next
    case (Some p)
    then obtain d n where p: "l_peer s = Some (d, n)" "ip_text d" "n \<le> 65535" using assms by (cases p) (simp add: sock_ok_def)
    then show ?thesis using split_join_host_port(3) [OF p(2,3)] dig [OF last_join [OF p(3,2)]]
      by (simp add: line_text_def sock_name_def)
  qed
  show "scan_conn (sock_name s) (st\<lparr>cur_proto := l_proto s\<rparr>) = sock_conn (cur_pid st) s"
  proof (cases "l_peer s")
    case None
    have "strstr ?a ''->'' = None"
    proof (rule ccontr)
      assume "strstr ?a ''->'' \<noteq> None"
      then obtain i where "strstr ?a ''->'' = Some i" by blast
      then have "prefix ''->'' (drop i ?a)" using strstr_less by blast
      then have "CHR ''-'' \<in> set (drop i ?a)" by (auto simp: prefix_def)
      then show False using a(3) in_set_dropD by fastforce
    qed
    then show ?thesis using a None by (simp add: scan_conn_def split_conn_def sock_name_def sock_conn_def split_host_port_def)
  next
    case (Some p)
    then obtain d n where p: "l_peer s = Some (d, n)" "ip_text d" "n \<le> 65535" using assms by (cases p) (simp add: sock_ok_def)
    note b = split_join_host_port [OF p(2,3)]
    have "strstr (?a @ ''->'' @ join_host_port d (int n) 64) ''->'' = Some (length ?a)"
      using strstr_first [of "CHR ''-''" ?a "''>''"] a(3) by simp
    then show ?thesis using a b p(1) by (simp add: scan_conn_def split_conn_def sock_name_def sock_conn_def)
  qed
qed

lemma scan_sock:
  assumes "sock_ok s"
  defines "r st users cfg seedOnly \<equiv> report users cfg seedOnly (cur_comm st) (cur_uid st) (sock_conn (cur_pid st) s) (seen st, s_out st)"
  shows "fold (scan_line users cfg seedOnly) (sock_lines s) st =
    st\<lparr>cur_proto := l_proto s, seen := fst (r st users cfg seedOnly), s_out := snd (r st users cfg seedOnly)\<rparr>"
proof -
  note f = sock_name_facts [OF assms(1)]
  have pr: "l_proto s \<noteq> ''''" "snprintf_s 8 (l_proto s) = l_proto s" "line_text (l_proto s)" "line_text (l_fd s)"
    and ports: "k_sport (sock_conn (cur_pid st) s) \<noteq> 0" and ne: "sock_name s \<noteq> ''''"
    using assms(1) f(1) by (auto simp: sock_ok_def line_text_def sock_conn_def)
  have "fold (scan_line users cfg seedOnly) (sock_lines s) st = scan_name users cfg seedOnly (sock_name s) (st\<lparr>cur_proto := l_proto s\<rparr>)"
    unfolding sock_lines_def append_Cons append_Nil fold_simps
    by (simp add: scan_line_text pr f(1))
  then show ?thesis
    using f(2,3) pr(1) ports ne
    by (simp add: scan_name_def Let_def r_def report_def case_prod_beta)
qed

lemma scan_socks:
  assumes "list_all sock_ok ss"
  shows "\<exists>pr. fold (scan_line users cfg seedOnly) (concat (map sock_lines ss)) st =
    st\<lparr>cur_proto := pr,
       seen := fst (fold (\<lambda>s. report users cfg seedOnly (cur_comm st) (cur_uid st) (sock_conn (cur_pid st) s)) ss (seen st, s_out st)),
       s_out := snd (fold (\<lambda>s. report users cfg seedOnly (cur_comm st) (cur_uid st) (sock_conn (cur_pid st) s)) ss (seen st, s_out st))\<rparr>"
  using assms
proof (induction ss arbitrary: st)
  case Nil
  show ?case by (intro exI [of _ "cur_proto st"]) simp
next
  case (Cons s ss)
  let ?r = "report users cfg seedOnly (cur_comm st) (cur_uid st) (sock_conn (cur_pid st) s) (seen st, s_out st)"
  let ?st = "st\<lparr>cur_proto := l_proto s, seen := fst ?r, s_out := snd ?r\<rparr>"
  have s: "fold (scan_line users cfg seedOnly) (sock_lines s) st = ?st" using Cons.prems by (intro scan_sock) simp
  obtain pr where "fold (scan_line users cfg seedOnly) (concat (map sock_lines ss)) ?st = ?st\<lparr>cur_proto := pr,
       seen := fst (fold (\<lambda>s. report users cfg seedOnly (cur_comm ?st) (cur_uid ?st) (sock_conn (cur_pid ?st) s)) ss (seen ?st, s_out ?st)),
       s_out := snd (fold (\<lambda>s. report users cfg seedOnly (cur_comm ?st) (cur_uid ?st) (sock_conn (cur_pid ?st) s)) ss (seen ?st, s_out ?st))\<rparr>"
    using Cons.IH [of ?st] Cons.prems by auto
  then show ?case by (intro exI [of _ pr]) (simp add: s)
qed

text \<open>The fields a scan is about.\<close>

definition tally :: "scan_st \<Rightarrow> net_seen \<times> string" where
  "tally st = (seen st, s_out st)"

definition report_all ::
  "(u32 \<Rightarrow> string option) \<Rightarrow> mac_net \<Rightarrow> bool \<Rightarrow> (string \<times> u32 \<times> net_conn) list \<Rightarrow> net_seen \<times> string \<Rightarrow> net_seen \<times> string" where
  "report_all users cfg seedOnly = fold (\<lambda>(c, own, k). report users cfg seedOnly c own k)"

lemma scan_proc_lines:
  assumes "proc_ok q"
  shows "tally (fold (scan_line users cfg seedOnly) (proc_lines q) st) = report_all users cfg seedOnly (proc_conns q) (tally st)"
proof -
  have own: "of_int (fst (strtoul10 (dec_nat (unat (q_own q))))) = q_own q"
  proof -
    have "unat (q_own q) < 2 ^ 32" using unsigned_less [of "q_own q", where ?'a = nat] by simp
    then show ?thesis using strtoul10_dec_nat [of "unat (q_own q)"] by simp
  qed
  let ?st = "st\<lparr>cur_pid := int (q_pid q), cur_proto := '''', cur_comm := q_comm q, cur_uid := q_own q\<rparr>"
  have ok: "line_text (q_comm q)" "line_text (q_login q)" "snprintf_s 64 (q_comm q) = q_comm q" "atoi (dec_nat (q_pid q)) = int (q_pid q)"
    and socks: "list_all sock_ok (q_socks q)"
    using assms atoi_dec_nat [of "q_pid q" "[]"] by (simp_all add: proc_ok_def)
  have "fold (scan_line users cfg seedOnly) (proc_lines q) st = fold (scan_line users cfg seedOnly) (concat (map sock_lines (q_socks q))) ?st"
    unfolding proc_lines_def fold_append comp_apply append_Cons append_Nil fold_simps
    by (simp add: scan_line_text line_text_digits ok own)
  moreover have "fold (\<lambda>s. report users cfg seedOnly c own (sock_conn p s)) ss x
      = fold (\<lambda>(c, own, k). report users cfg seedOnly c own k) (map (\<lambda>s. (c, own, sock_conn p s)) ss) x" for c own p ss x
    by (induction ss arbitrary: x) simp_all
  ultimately show ?thesis
    using scan_socks [OF socks, of users cfg seedOnly ?st] by (auto simp: tally_def report_all_def proc_conns_def)
qed

lemma scan_listing:
  "list_all proc_ok qs \<Longrightarrow>
   tally (fold (scan_line users cfg seedOnly) (concat (map proc_lines qs)) st) = report_all users cfg seedOnly (concat (map proc_conns qs)) (tally st)"
proof (induction qs arbitrary: st)
  case (Cons q qs)
  then show ?case using scan_proc_lines [of q users cfg seedOnly st] by (simp add: report_all_def)
qed (simp add: report_all_def)

section \<open>What a scan reports\<close>

definition emit_all :: "(u32 \<Rightarrow> string option) \<Rightarrow> mac_net \<Rightarrow> (string \<times> u32 \<times> net_conn) list \<Rightarrow> string" where
  "emit_all users cfg ks = concat (map (\<lambda>(c, own, k). net_emit users cfg c own k) ks)"

lemma report_full: "seen_full (fst x) \<Longrightarrow> report users cfg seedOnly c own k x = x"
  by (simp add: report_def check_insert_full)

lemma report_all_full: "seen_full (fst x) \<Longrightarrow> report_all users cfg seedOnly ks x = x"
  unfolding report_all_def by (induction ks) (auto simp: report_full)

text \<open>A scan is the marking of its connections, with a line for each that is new.\<close>

lemma report_all_marks:
  "report_all users cfg seedOnly ks (t, out) =
     (let (rs, t') = mark_all (\<lambda>(c, own, k). k) (\<lambda>k. net_seen_check_insert (net_hash k) k) ks t
      in (t', out @ (if seedOnly then '''' else emit_all users cfg rs)))"
proof (induction ks arbitrary: t out)
  case (Cons x ks)
  obtain c own k where x: "x = (c, own, k)" by (cases x)
  obtain old t1 where m: "net_seen_check_insert (net_hash k) k t = (old, t1)" by fastforce
  have "report_all users cfg seedOnly (x # ks) (t, out) =
      report_all users cfg seedOnly ks (t1, out @ (if old \<or> seedOnly then '''' else net_emit users cfg c own k))"
    by (simp add: report_all_def x report_def m)
  then show ?case by (simp add: Cons.IH x m emit_all_def split: prod.split)
qed (simp add: report_all_def emit_all_def)

text \<open>The connections known after those of \<open>ks\<close>.\<close>

definition known_after :: "net_seen \<Rightarrow> (string \<times> u32 \<times> net_conn) list \<Rightarrow> net_conn set" where
  "known_after t ks = seen_set t \<union> (\<lambda>(c, own, k). k) ` set ks"

lemma report_all_spec:
  assumes "seen_ok t" "\<forall>(c, own, k) \<in> set ks. conn_fits k" "card (known_after t ks) \<le> CAP"
  shows "\<exists>t'. report_all users cfg seedOnly ks (t, out) = (t', out @ (if seedOnly then '''' else emit_all users cfg (first_times (\<lambda>(c, own, k). k) (seen_set t) ks)))
    \<and> seen_ok t' \<and> seen_set t' = known_after t ks"
proof -
  have "\<forall>x \<in> set ks. conn_fits ((\<lambda>(c, own, k). k) x)" using assms(2) by auto
  then show ?thesis
    using seen.mark_all_first_times [OF assms(1)] assms(3) unfolding report_all_marks known_after_def by fastforce
qed

lemma proc_conns_fit: "proc_ok q \<Longrightarrow> \<forall>(c, own, k) \<in> set (proc_conns q). conn_fits k"
  by (fastforce simp: proc_conns_def proc_ok_def list_all_iff sock_ok_def sock_conn_def conn_fits_def ip_text_def split: option.splits)

lemma net_scan_report_all:
  "list_all proc_ok qs \<Longrightarrow> net_scan users cfg seedOnly (concat (map proc_lines qs)) st = report_all users cfg seedOnly (concat (map proc_conns qs)) st"
  using scan_listing [of qs users cfg seedOnly "\<lparr>cur_pid = 0, cur_uid = 0, cur_comm = ''?'', cur_proto = '''', seen = fst st, s_out = snd st\<rparr>"]
  by (simp add: net_scan_def tally_def Let_def)

lemma net_scan_new:
  assumes "list_all proc_ok qs" "seen_ok t" "card (known_after t (concat (map proc_conns qs))) \<le> CAP"
  shows "\<exists>t'. net_scan users cfg seedOnly (concat (map proc_lines qs)) (t, out) =
      (t', out @ (if seedOnly then '''' else emit_all users cfg (first_times (\<lambda>(c, own, k). k) (seen_set t) (concat (map proc_conns qs)))))
    \<and> seen_ok t' \<and> seen_set t' = known_after t (concat (map proc_conns qs))"
proof -
  have "\<forall>(c, own, k) \<in> set (concat (map proc_conns qs)). conn_fits k"
    using assms(1) proc_conns_fit by (fastforce simp: list_all_iff)
  then show ?thesis using report_all_spec [OF assms(2)] assms(3) unfolding net_scan_report_all [OF assms(1)] by blast
qed

section \<open>Claims\<close>

text \<open>
  C27. A scan of an \<^verbatim>\<open>lsof\<close> listing reports exactly the sockets no earlier scan has listed, each once
  and in the order of the listing, with the process, command and owner of the lines before it, and
  remembers them; the first scan reports nothing. The table holds 16384 sockets.
\<close>

theorem net_scan_reports_new:
  assumes "list_all proc_ok qs" "seen_ok t" "card (known_after t (concat (map proc_conns qs))) \<le> CAP"
  shows "\<exists>t'. net_scan users cfg seedOnly (concat (map proc_lines qs)) (t, out) =
      (t', out @ (if seedOnly then '''' else emit_all users cfg (first_times (\<lambda>(c, own, k). k) (seen_set t) (concat (map proc_conns qs)))))
    \<and> seen_ok t' \<and> seen_set t' = known_after t (concat (map proc_conns qs))"
  by (rule net_scan_new [OF assms])

definition sample_lsof :: "lsof_proc list" where
  "sample_lsof = [\<lparr>q_pid = 71, q_comm = ''curl'', q_own = 501, q_login = ''me'',
     q_socks = [\<lparr>l_fd = ''5'', l_proto = ''TCP'', l_src = ''10.0.0.1'', l_sport = 4000, l_peer = Some (''::1'', 443)\<rparr>]\<rparr>]"

lemma sample_lsof_ok: "list_all proc_ok sample_lsof"
  by (simp add: sample_lsof_def proc_ok_def sock_ok_def line_text_def ip_text_def)

lemma seen_start: "seen_ok (\<lambda>_. None)" "seen_set (\<lambda>_. None) = {}"
  by (auto simp: seen_ok_def slots_ok_def slots_set_def seen_set_def)

theorem net_scan_reports_new_witness:
  "\<exists>t. net_scan (\<lambda>_. None) (mn_opts mac_net_initial) False (concat (map proc_lines sample_lsof)) (\<lambda>_. None, '''') =
     (t, emit_all (\<lambda>_. None) (mn_opts mac_net_initial) (concat (map proc_conns sample_lsof)))"
proof -
  obtain k where ks: "concat (map proc_conns sample_lsof) = [(''curl'', 501, k)]" by (simp add: sample_lsof_def proc_conns_def)
  then have "card (known_after (\<lambda>_. None) (concat (map proc_conns sample_lsof))) \<le> CAP" by (simp add: known_after_def seen_start)
  from net_scan_reports_new [OF sample_lsof_ok seen_start(1) this, of "\<lambda>_. None" "mn_opts mac_net_initial" False "''''"] show ?thesis
    by (auto simp: seen_start ks)
qed

text \<open>
  Once the table is full, a new socket counts as seen: no scan reports anything any more.
\<close>

theorem net_full_table_silent:
  assumes "seen_full t" "list_all proc_ok qs"
  shows "net_scan users cfg seedOnly (concat (map proc_lines qs)) (t, out) = (t, out)"
  using report_all_full [of "(t, out)"] assms by (simp add: net_scan_report_all)

theorem net_full_table_silent_witness:
  "net_scan (\<lambda>_. None) (mn_opts mac_net_initial) False (concat (map proc_lines sample_lsof)) (\<lambda>_. Some (0, undefined), ''x'') =
     (\<lambda>_. Some (0, undefined), ''x'')"
  by (rule net_full_table_silent) (simp_all add: seen_full_def sample_lsof_ok)

text \<open>
  The list of watched processes given to \<^verbatim>\<open>lsof -p\<close> is complete and its buffer is never overrun,
  for up to 256 processes with ids of at most six digits.
\<close>

theorem lsof_watches_all:
  assumes "ps \<noteq> []" "length ps \<le> 256" "\<forall>p \<in> set ps. 0 < sint p \<and> sint p \<le> 999999"
  shows "lsof_argv ps = Inr [''/usr/sbin/lsof'', ''-nP'', ''-i'', ''-F'', ''pcLPnu'', ''-a'', ''-p'', comma_pids ps]"
  using pidlist_complete [OF assms(1,2)] assms(1,3) by (simp add: lsof_argv_def)

theorem lsof_watches_all_witness:
  "lsof_argv [17, 42] = Inr [''/usr/sbin/lsof'', ''-nP'', ''-i'', ''-F'', ''pcLPnu'', ''-a'', ''-p'', comma_pids [17, 42]]"
  using lsof_watches_all [of "[17, 42]"] by simp

end
