(* ===== verification/Dns_Wire.thy ===== *)
theory Dns_Wire
  imports CLib
begin

text \<open>
  \<^verbatim>\<open>src/c/dns.c\<close>, lines 94 to 221: the DNS wire format. Byte buffers are lists with checked reads,
  so a proof that no run is a memory fault is a proof that the parser stays inside the packet.
  \<open>read_name\<close> follows compression pointers in a loop that the code does not bound; its model
  takes fuel. \<open>dns_name\<close> is the RFC 1035 reading of a name, an inductive relation; the loop
  returns exactly on the offsets where a name has a finite reading.
\<close>

section \<open>Definitions\<close>

definition MAX_ANS :: nat where "MAX_ANS = 16"

record dns_msg =
  msg_id :: u16
  flags :: u16
  qtype :: u16
  question :: string
  answers :: "string list"

definition empty_msg :: dns_msg where
  "empty_msg = \<lparr>msg_id = 0, flags = 0, qtype = 0, question = [], answers = []\<rparr>"

subsection \<open>Names\<close>

text \<open>Appending a label to the destination of capacity \<open>cap\<close>: a dot first unless it is empty,
  and nothing beyond \<open>cap - 1\<close> bytes. A null destination is \<open>None\<close>; only the bytes that are
  copied are read.\<close>

definition copy_label :: "byte list \<Rightarrow> nat option \<Rightarrow> nat \<Rightarrow> nat \<Rightarrow> byte list \<Rightarrow> byte list outcome" where
  "copy_label d dcap off l w =
     (case dcap of None \<Rightarrow> Inr w
      | Some cap \<Rightarrow>
          let w1 = (if w \<noteq> [] \<and> length w < cap - 1 then w @ [46] else w)
          in and_then (bytes_at d off (min l (cap - 1 - length w1))) (\<lambda>bs. Inr (w1 @ bs)))"

fun read_name_loop ::
  "nat \<Rightarrow> byte list \<Rightarrow> nat option \<Rightarrow> nat \<Rightarrow> nat option \<Rightarrow> byte list \<Rightarrow> (nat \<times> byte list) option outcome" where
  "read_name_loop 0 d dcap off orig w = Inl OutOfFuel"
| "read_name_loop (Suc k) d dcap off orig w =
     (if off \<ge> length d then Inr None
      else and_then (byte_at d off) (\<lambda>l.
        if l = 0 then Inr (Some (case orig of None \<Rightarrow> off + 1 | Some p \<Rightarrow> p, w))
        else if l AND 0xC0 = 0xC0 then
          (if off + 2 > length d then Inr None
           else and_then (be16_at d off) (\<lambda>p.
             read_name_loop k d dcap (unat (p AND 0x3FFF))
               (case orig of None \<Rightarrow> Some (off + 2) | Some q \<Rightarrow> Some q) w))
        else if l AND 0xC0 = 0 then
          (if off + 1 + unat l > length d then Inr None
           else and_then (copy_label d dcap (off + 1) (unat l) w) (\<lambda>w'.
             read_name_loop k d dcap (off + 1 + unat l) orig w'))
        else Inr None))"

text \<open>\<open>None\<close> in the result is the code's \<open>-1\<close>.\<close>

definition read_name :: "nat \<Rightarrow> byte list \<Rightarrow> nat \<Rightarrow> nat option \<Rightarrow> (nat \<times> byte list) option outcome" where
  "read_name fuel d off dcap = read_name_loop fuel d dcap off None []"

subsection \<open>Messages\<close>

definition add_answer :: "dns_msg \<Rightarrow> string \<Rightarrow> string \<Rightarrow> dns_msg" where
  "add_answer m pfx val =
     (if length (answers m) \<ge> MAX_ANS then m
      else m\<lparr>answers := answers m @ [snprintf_s 300 (pfx @ val)]\<rparr>)"

fun parse_txt :: "byte list \<Rightarrow> dns_msg \<Rightarrow> dns_msg" where
  "parse_txt [] m = m"
| "parse_txt (b # rest) m =
     (if unat b > length rest then m
      else parse_txt (drop (unat b) rest) (add_answer m '''' (snprintf_s 300 (cstr (take (unat b) rest)))))"

definition name_answer :: "nat \<Rightarrow> byte list \<Rightarrow> string \<Rightarrow> nat \<Rightarrow> dns_msg \<Rightarrow> dns_msg outcome" where
  "name_answer fuel d pfx pos m =
     and_then (read_name fuel d pos (Some 256)) (\<lambda>r.
       case r of None \<Rightarrow> Inr m | Some (_, nm) \<Rightarrow> Inr (add_answer m pfx (cstr nm)))"

definition parse_rr :: "nat \<Rightarrow> byte list \<Rightarrow> u16 \<Rightarrow> nat \<Rightarrow> nat \<Rightarrow> dns_msg \<Rightarrow> dns_msg outcome" where
  "parse_rr fuel d rtype rdoff rdlen m =
     (if rtype = 1 then
        (if rdlen = 4 then and_then (bytes_at d rdoff 4) (\<lambda>rd. Inr (add_answer m '''' (inet_ntop4 rd)))
         else Inr m)
      else if rtype = 28 then
        (if rdlen = 16 then and_then (bytes_at d rdoff 16) (\<lambda>rd. Inr (add_answer m '''' (inet_ntop6 rd)))
         else Inr m)
      else if rtype = 5 then name_answer fuel d ''CNAME:'' rdoff m
      else if rtype = 2 then name_answer fuel d ''NS:'' rdoff m
      else if rtype = 12 then name_answer fuel d '''' rdoff m
      else if rtype = 15 then (if rdlen > 2 then name_answer fuel d ''MX:'' (rdoff + 2) m else Inr m)
      else if rtype = 33 then (if rdlen > 6 then name_answer fuel d ''SRV:'' (rdoff + 6) m else Inr m)
      else if rtype = 16 then and_then (bytes_at d rdoff rdlen) (\<lambda>rd. Inr (parse_txt rd m))
      else Inr m)"

fun parse_questions ::
  "nat \<Rightarrow> byte list \<Rightarrow> nat \<Rightarrow> bool \<Rightarrow> nat \<Rightarrow> dns_msg \<Rightarrow> (nat \<times> dns_msg) option outcome" where
  "parse_questions fuel d 0 first off m = Inr (Some (off, m))"
| "parse_questions fuel d (Suc n) first off m =
     and_then (read_name fuel d off (Some 256)) (\<lambda>r.
       case r of None \<Rightarrow> Inr None
       | Some (off', name) \<Rightarrow>
           if off' + 4 > length d then Inr None
           else and_then (be16_at d off') (\<lambda>qt.
             parse_questions fuel d n False (off' + 4)
               (if first then m\<lparr>question := snprintf_s 256 (cstr name), qtype := qt\<rparr> else m)))"

fun parse_answers :: "nat \<Rightarrow> byte list \<Rightarrow> nat \<Rightarrow> nat \<Rightarrow> dns_msg \<Rightarrow> dns_msg outcome" where
  "parse_answers fuel d 0 off m = Inr m"
| "parse_answers fuel d (Suc n) off m =
     and_then (read_name fuel d off None) (\<lambda>r.
       case r of None \<Rightarrow> Inr m
       | Some (off', _) \<Rightarrow>
           if off' + 10 > length d then Inr m
           else and_then (be16_at d off') (\<lambda>rtype. and_then (be16_at d (off' + 8)) (\<lambda>rdlen.
             if off' + 10 + unat rdlen > length d then Inr m
             else and_then (parse_rr fuel d rtype (off' + 10) (unat rdlen) m) (\<lambda>m'.
               parse_answers fuel d n (off' + 10 + unat rdlen) m'))))"

definition parse_dns :: "nat \<Rightarrow> byte list \<Rightarrow> dns_msg option outcome" where
  "parse_dns fuel d =
     (if length d < 12 then Inr None
      else and_then (be16_at d 0) (\<lambda>ident. and_then (be16_at d 2) (\<lambda>fl.
           and_then (be16_at d 4) (\<lambda>qd. and_then (be16_at d 6) (\<lambda>an.
           and_then (parse_questions fuel d (unat qd) True 12 (empty_msg\<lparr>msg_id := ident, flags := fl\<rparr>))
             (\<lambda>r. case r of None \<Rightarrow> Inr None
                  | Some (off, m) \<Rightarrow>
                      and_then (parse_answers fuel d (unat an) off m) (\<lambda>m'. Inr (Some m'))))))))"

definition qtype_str :: "u16 \<Rightarrow> string" where
  "qtype_str t =
     (if t = 1 then ''A'' else if t = 2 then ''NS'' else if t = 5 then ''CNAME''
      else if t = 6 then ''SOA'' else if t = 12 then ''PTR'' else if t = 15 then ''MX''
      else if t = 16 then ''TXT'' else if t = 28 then ''AAAA'' else if t = 33 then ''SRV''
      else if t = 255 then ''ANY'' else snprintf_s 16 (''TYPE'' @ dec_nat (unat t)))"

definition rcode_str :: "u16 \<Rightarrow> string" where
  "rcode_str r =
     (let c = r AND 0xF in
      if c = 0 then ''NOERROR'' else if c = 1 then ''FORMERR'' else if c = 2 then ''SERVFAIL''
      else if c = 3 then ''NXDOMAIN'' else if c = 4 then ''NOTIMP'' else if c = 5 then ''REFUSED''
      else snprintf_s 16 (''RCODE'' @ dec_nat (unat c)))"

subsection \<open>Packets\<close>

text \<open>The link and network headers: the offset and length of the UDP header.\<close>

definition udp_start :: "byte list \<Rightarrow> (nat \<times> nat) option outcome" where
  "udp_start pkt =
     and_then (be16_at pkt 12) (\<lambda>eth.
       if eth = 0x0800 then
         (let ip = 14; iplen = length pkt - 14 in
          if iplen < 20 then Inr None
          else and_then (byte_at pkt ip) (\<lambda>b0. and_then (byte_at pkt (ip + 9)) (\<lambda>proto.
            if drop_bit 4 b0 \<noteq> 4 \<or> proto \<noteq> 17 then Inr None
            else let ihl = unat (b0 AND 0x0F) * 4 in
                 if ihl < 20 \<or> iplen < ihl + 8 then Inr None else Inr (Some (ip + ihl, iplen - ihl)))))
       else if eth = 0x86DD then
         (let ip = 14; iplen = length pkt - 14 in
          if iplen < 40 then Inr None
          else and_then (byte_at pkt ip) (\<lambda>b0. and_then (byte_at pkt (ip + 6)) (\<lambda>nxt.
            if drop_bit 4 b0 \<noteq> 6 \<or> nxt \<noteq> 17 then Inr None
            else Inr (Some (ip + 40, iplen - 40)))))
       else Inr None)"

definition parse_packet :: "nat \<Rightarrow> byte list \<Rightarrow> (dns_msg \<times> u16 \<times> u16) option outcome" where
  "parse_packet fuel pkt =
     (if length pkt < 14 then Inr None
      else and_then (udp_start pkt) (\<lambda>r. case r of None \<Rightarrow> Inr None
        | Some (ip, iplen) \<Rightarrow>
            if iplen < 8 then Inr None
            else and_then (be16_at pkt ip) (\<lambda>src. and_then (be16_at pkt (ip + 2)) (\<lambda>dst.
              if src \<noteq> 53 \<and> dst \<noteq> 53 then Inr None
              else and_then (bytes_at pkt (ip + 8) (iplen - 8)) (\<lambda>body.
                and_then (parse_dns fuel body) (\<lambda>mo.
                  Inr (map_option (\<lambda>m. (m, src, dst)) mo)))))))"

subsection \<open>The reference reading of a name\<close>

text \<open>\<open>dns_name d off ls e n\<close>: the name at offset \<open>off\<close> of the message \<open>d\<close> has the labels \<open>ls\<close>,
  the message goes on at \<open>e\<close>, and \<open>n\<close> headers are visited to read it.\<close>

inductive dns_name :: "byte list \<Rightarrow> nat \<Rightarrow> byte list list \<Rightarrow> nat \<Rightarrow> nat \<Rightarrow> bool" where
  root: "off < length d \<Longrightarrow> d ! off = 0 \<Longrightarrow> dns_name d off [] (off + 1) 1"
| label: "off < length d \<Longrightarrow> d ! off \<noteq> 0 \<Longrightarrow> d ! off AND 0xC0 = 0 \<Longrightarrow>
     off + 1 + unat (d ! off) \<le> length d \<Longrightarrow> dns_name d (off + 1 + unat (d ! off)) ls e n \<Longrightarrow>
     dns_name d off (take (unat (d ! off)) (drop (off + 1) d) # ls) e (Suc n)"
| pointer: "off + 1 < length d \<Longrightarrow> d ! off AND 0xC0 = 0xC0 \<Longrightarrow>
     dns_name d (unat (be16 (d ! off) (d ! (off + 1)) AND 0x3FFF)) ls e n \<Longrightarrow>
     dns_name d off ls (off + 2) (Suc n)"

definition add_label :: "byte list \<Rightarrow> byte list \<Rightarrow> byte list" where
  "add_label s l = s @ (if s = [] then [] else [46]) @ l"

text \<open>The text of a name: its labels with dots between them.\<close>

definition name_text :: "byte list list \<Rightarrow> byte list" where
  "name_text ls = foldl add_label [] ls"

text \<open>The plain encoding of a name: each label behind its length, and the root.\<close>

definition encode_name :: "byte list list \<Rightarrow> byte list" where
  "encode_name ls = concat (map (\<lambda>l. of_nat (length l) # l) ls) @ [0]"

definition label_ok :: "byte list \<Rightarrow> bool" where
  "label_ok l \<longleftrightarrow> 1 \<le> length l \<and> length l \<le> 63"

subsection \<open>The loop as a walk\<close>

text \<open>The loop as a walk over offsets: where it goes on from \<open>off\<close>, or \<open>None\<close> when it stops.\<close>

definition name_next :: "byte list \<Rightarrow> nat \<Rightarrow> nat option" where
  "name_next d off =
     (if off \<ge> length d \<or> d ! off = 0 then None
      else if d ! off AND 0xC0 = 0xC0 then
        (if off + 2 > length d then None else Some (unat (be16 (d ! off) (d ! (off + 1)) AND 0x3FFF)))
      else if d ! off AND 0xC0 = 0 then
        (if off + 1 + unat (d ! off) > length d then None else Some (off + 1 + unat (d ! off)))
      else None)"

fun name_walk :: "nat \<Rightarrow> byte list \<Rightarrow> nat \<Rightarrow> nat option" where
  "name_walk 0 d off = Some off"
| "name_walk (Suc k) d off = Option.bind (name_walk k d off) (name_next d)"

section \<open>Memory safety\<close>

lemma copy_label_in_bounds:
  "off + l \<le> length d \<Longrightarrow> \<exists>w'. copy_label d dcap off l w = Inr w'"
  by (auto simp: copy_label_def Let_def split: option.splits)

lemma read_name_loop_safe: "mem_safe (read_name_loop k d dcap off orig w)"
proof (induction k arbitrary: off orig w)
  case 0
  then show ?case by simp
next
  case (Suc k)
  have step: "mem_safe (and_then (copy_label d dcap (off + 1) (unat (d ! off)) w)
      (\<lambda>w'. read_name_loop k d dcap (off + 1 + unat (d ! off)) orig w'))"
    if "off + 1 + unat (d ! off) \<le> length d"
    using copy_label_in_bounds [of "off + 1" "unat (d ! off)" d dcap w] that Suc.IH by auto
  show ?case using step Suc.IH by (auto simp: not_le not_less)
qed

lemma read_name_safe: "mem_safe (read_name k d off dcap)"
  by (simp add: read_name_def read_name_loop_safe)

text \<open>A returned offset lies inside the message.\<close>

lemma read_name_loop_end:
  assumes "read_name_loop k d dcap off orig w = Inr (Some (e, w'))"
    and "\<And>p. orig = Some p \<Longrightarrow> p \<le> length d"
  shows "e \<le> length d"
  using assms
proof (induction k arbitrary: off orig w)
  case 0
  then show ?case by simp
next
  case (Suc k)
  show ?case
  proof (cases "off < length d \<and> d ! off \<noteq> 0")
    case True
    with Suc.prems show ?thesis
      by (auto simp: outcome_simps not_le split: if_splits option.splits dest!: Suc.IH)
  next
    case False
    with Suc.prems show ?thesis
      by (auto split: if_splits option.splits)
  qed
qed

lemma read_name_end: "read_name k d off dcap = Inr (Some (e, w)) \<Longrightarrow> e \<le> length d"
  unfolding read_name_def by (rule read_name_loop_end) auto

lemma name_answer_safe: "mem_safe (name_answer k d pfx pos m)"
  unfolding name_answer_def
  by (rule mem_safe_and_then [OF read_name_safe]) (auto split: option.splits)

lemma parse_rr_safe: "rdoff + rdlen \<le> length d \<Longrightarrow> mem_safe (parse_rr k d t rdoff rdlen m)"
  by (simp add: parse_rr_def name_answer_safe)

lemma parse_questions_safe: "mem_safe (parse_questions k d n first off m)"
proof (induction n arbitrary: first off m)
  case 0
  then show ?case by simp
next
  case (Suc n)
  show ?case
    by (auto intro!: mem_safe_and_then [OF read_name_safe] simp: Suc.IH split: option.splits)
qed

lemma parse_answers_safe: "mem_safe (parse_answers k d n off m)"
proof (induction n arbitrary: off m)
  case 0
  then show ?case by simp
next
  case (Suc n)
  show ?case
    by (auto intro!: mem_safe_and_then [OF read_name_safe] mem_safe_and_then [OF parse_rr_safe]
        simp: Suc.IH split: option.splits)
qed

lemma parse_dns_safe: "mem_safe (parse_dns k d)"
  by (auto simp: parse_dns_def intro!: mem_safe_and_then [OF parse_questions_safe]
      mem_safe_and_then [OF parse_answers_safe] split: option.splits)

lemma udp_start_bounds:
  assumes "14 \<le> length pkt"
  shows "\<exists>r. udp_start pkt = Inr r \<and> (\<forall>ip n. r = Some (ip, n) \<longrightarrow> ip + n = length pkt)"
proof -
  have "unat ((pkt ! 14) AND 15) * 4 \<le> length pkt - 14" if "\<not> length pkt - 14 < unat ((pkt ! 14) AND 15) * 4 + 8"
    using that by simp
  then show ?thesis using assms
    by (auto simp: udp_start_def Let_def)
qed

lemma parse_packet_safe: "mem_safe (parse_packet fuel pkt)"
proof (cases "length pkt < 14")
  case True
  then show ?thesis by (simp add: parse_packet_def)
next
  case False
  then obtain r where r: "udp_start pkt = Inr r" "\<forall>ip n. r = Some (ip, n) \<longrightarrow> ip + n = length pkt"
    using udp_start_bounds [of pkt] by auto
  show ?thesis
  proof (cases r)
    case None
    then show ?thesis using r False by (simp add: parse_packet_def)
  next
    case (Some q)
    obtain ip n where q: "q = (ip, n)" by fastforce
    then have "ip + n = length pkt" using r Some by simp
    then show ?thesis using r(1) Some q False
      by (auto simp: parse_packet_def intro!: mem_safe_and_then [OF parse_dns_safe])
  qed
qed


section \<open>Names\<close>

lemma copy_label_text:
  assumes "off + l \<le> length d" and "1 \<le> l"
  shows "copy_label d (Some cap) off l (take (cap - 1) s)
       = Inr (take (cap - 1) (add_label s (take l (drop off d))))"
proof -
  let ?n = "cap - 1"
  have dot: "(if take ?n s \<noteq> [] \<and> length (take ?n s) < ?n then take ?n s @ [46] else take ?n s)
      = take ?n (s @ (if s = [] then [] else [46]))"
    by (auto simp: min_def)
  show ?thesis
    using assms by (simp add: copy_label_def Let_def dot add_label_def min_def) (auto simp: min_def)
qed

lemma read_name_loop_complete:
  assumes "dns_name d off ls e n" and "n \<le> k"
  shows "read_name_loop k d (Some cap) off orig (take (cap - 1) s)
       = Inr (Some (case orig of None \<Rightarrow> e | Some p \<Rightarrow> p, take (cap - 1) (foldl add_label s ls)))"
  using assms
proof (induction arbitrary: k orig s rule: dns_name.induct)
  case (root off d)
  then show ?case by (cases k) auto
next
  case (label off d ls e n)
  then obtain k' where k: "k = Suc k'" "n \<le> k'" by (cases k) auto
  have "1 \<le> unat (d ! off)" using label.hyps(2) by (metis One_nat_def Suc_leI unat_gt_0)
  then show ?case using label k copy_label_text [of "off + 1" "unat (d ! off)" d cap s] by auto
next
  case (pointer off d ls e n)
  then obtain k' where k: "k = Suc k'" "n \<le> k'" by (cases k) auto
  have "d ! off \<noteq> 0" using pointer.hyps(2) by auto
  then show ?case using pointer k by (auto split: option.splits)
qed

lemma read_name_loop_complete_null:
  assumes "dns_name d off ls e n" and "n \<le> k"
  shows "read_name_loop k d None off orig w = Inr (Some (case orig of None \<Rightarrow> e | Some p \<Rightarrow> p, w))"
  using assms
proof (induction arbitrary: k orig rule: dns_name.induct)
  case (root off d)
  then show ?case by (cases k) auto
next
  case (label off d ls e n)
  then obtain k' where k: "k = Suc k'" "n \<le> k'" by (cases k) auto
  then show ?case using label by (auto simp: copy_label_def)
next
  case (pointer off d ls e n)
  then obtain k' where k: "k = Suc k'" "n \<le> k'" by (cases k) auto
  have "d ! off \<noteq> 0" using pointer.hyps(2) by auto
  then show ?case using pointer k by (auto split: option.splits)
qed

lemma read_name_loop_sound:
  assumes "read_name_loop k d (Some cap) off orig (take (cap - 1) s) = Inr (Some (e, w))"
  shows "\<exists>ls e' n. n \<le> k \<and> dns_name d off ls e' n \<and> e = (case orig of None \<Rightarrow> e' | Some p \<Rightarrow> p)
           \<and> w = take (cap - 1) (foldl add_label s ls)"
  using assms
proof (induction k arbitrary: off orig s)
  case 0
  then show ?case by simp
next
  case (Suc k)
  have off: "off < length d" using Suc.prems by (auto split: if_splits)
  consider (root) "d ! off = 0" | (ptr) "d ! off \<noteq> 0" "d ! off AND 0xC0 = 0xC0"
    | (lab) "d ! off \<noteq> 0" "d ! off AND 0xC0 = 0" | (bad) "d ! off \<noteq> 0" "d ! off AND 0xC0 \<noteq> 0xC0" "d ! off AND 0xC0 \<noteq> 0"
    by blast
  then show ?case
  proof cases
    case root
    then show ?thesis using Suc.prems off dns_name.root [OF off root]
      by (intro exI [of _ "[]"] exI [of _ "off + 1"] exI [of _ 1]) (auto split: option.splits)
  next
    case ptr
    then have in2: "off + 1 < length d" using Suc.prems off by (auto split: if_splits)
    let ?t = "unat (be16 (d ! off) (d ! (off + 1)) AND 0x3FFF)"
    have "read_name_loop k d (Some cap) ?t (case orig of None \<Rightarrow> Some (off + 2) | Some q \<Rightarrow> Some q)
        (take (cap - 1) s) = Inr (Some (e, w))"
      using Suc.prems off ptr in2 by (auto split: if_splits)
    from Suc.IH [OF this] obtain ls e' n where "n \<le> k" "dns_name d ?t ls e' n"
      "e = (case orig of None \<Rightarrow> off + 2 | Some p \<Rightarrow> p)" "w = take (cap - 1) (foldl add_label s ls)"
      by (auto split: option.splits)
    with dns_name.pointer [OF in2 ptr(2)] show ?thesis
      by (intro exI [of _ ls] exI [of _ "off + 2"] exI [of _ "Suc n"]) auto
  next
    case lab
    then have fits: "off + 1 + unat (d ! off) \<le> length d" using Suc.prems off by (auto split: if_splits)
    have "1 \<le> unat (d ! off)" using lab(1) by (metis One_nat_def Suc_leI unat_gt_0)
    note copy = copy_label_text [of "off + 1" "unat (d ! off)" d cap s, OF fits this]
    have "read_name_loop k d (Some cap) (off + 1 + unat (d ! off)) orig
        (take (cap - 1) (add_label s (take (unat (d ! off)) (drop (off + 1) d)))) = Inr (Some (e, w))"
      using Suc.prems off lab fits copy by (simp split: if_splits)
    from Suc.IH [OF this] obtain ls e' n where "n \<le> k" "dns_name d (off + 1 + unat (d ! off)) ls e' n"
      "e = (case orig of None \<Rightarrow> e' | Some p \<Rightarrow> p)"
      "w = take (cap - 1) (foldl add_label s (take (unat (d ! off)) (drop (off + 1) d) # ls))"
      by auto
    with dns_name.label [OF off lab fits] show ?thesis
      by (intro exI [of _ "take (unat (d ! off)) (drop (off + 1) d) # ls"] exI [of _ e'] exI [of _ "Suc n"]) auto
  next
    case bad
    then show ?thesis using Suc.prems off by (auto split: if_splits)
  qed
qed

lemma read_name_iff:
  "read_name fuel d off (Some cap) = Inr (Some (e, w)) \<longleftrightarrow>
     (\<exists>ls n. n \<le> fuel \<and> dns_name d off ls e n \<and> w = take (cap - 1) (name_text ls))"
proof
  assume "read_name fuel d off (Some cap) = Inr (Some (e, w))"
  with read_name_loop_sound [of fuel d cap off None "[]" e w]
  show "\<exists>ls n. n \<le> fuel \<and> dns_name d off ls e n \<and> w = take (cap - 1) (name_text ls)"
    by (auto simp: read_name_def name_text_def)
next
  assume "\<exists>ls n. n \<le> fuel \<and> dns_name d off ls e n \<and> w = take (cap - 1) (name_text ls)"
  with read_name_loop_complete [of d off _ e _ fuel cap None "[]"]
  show "read_name fuel d off (Some cap) = Inr (Some (e, w))"
    by (auto simp: read_name_def name_text_def)
qed

text \<open>
  C2. \<^verbatim>\<open>read_name\<close> implements the RFC 1035 reading of a name: with enough fuel it returns the text
  of the labels, cut to the destination's capacity, and the offset behind the name exactly when
  the name has a finite reading, labels and backward or forward compression pointers alike.
\<close>

theorem read_name_reads_names:
  "read_name fuel d off (Some cap) = Inr (Some (e, w)) \<longleftrightarrow>
     (\<exists>ls n. n \<le> fuel \<and> dns_name d off ls e n \<and> w = take (cap - 1) (name_text ls))"
  by (rule read_name_iff)

section \<open>Fuel\<close>

lemma name_walk_Suc: "name_walk (Suc k) d off = Option.bind (name_next d off) (name_walk k d)"
  by (induction k) (auto simp: Option.bind_assoc)

lemma out_of_fuel_walk:
  "read_name_loop k d dcap off orig w = Inl OutOfFuel \<longleftrightarrow> name_walk k d off \<noteq> None"
proof (induction k arbitrary: off orig w)
  case 0
  then show ?case by simp
next
  case (Suc k)
  show ?case
  proof (cases "off < length d \<and> d ! off \<noteq> 0 \<and> d ! off AND 0xC0 = 0 \<and> off + 1 + unat (d ! off) \<le> length d")
    case True
    then obtain w' where "copy_label d dcap (off + 1) (unat (d ! off)) w = Inr w'"
      using copy_label_in_bounds [of "off + 1" "unat (d ! off)" d dcap w] by auto
    with True show ?thesis using Suc.IH
      by (simp add: name_walk_Suc name_next_def del: name_walk.simps)
  next
    case False
    then show ?thesis using Suc.IH
      by (auto simp: name_walk_Suc name_next_def simp del: name_walk.simps)
  qed
qed

lemma name_walk_add: "name_walk (i + j) d off = Option.bind (name_walk i d off) (name_walk j d)"
  by (induction j) (auto simp: Option.bind_assoc)

declare name_walk.simps [simp del] read_name_loop.simps [simp del]

lemma name_walk_None_mono: "name_walk i d off = None \<Longrightarrow> i \<le> j \<Longrightarrow> name_walk j d off = None"
  using name_walk_add [of i "j - i" d off] by simp

lemma name_walk_in_message: "name_walk (Suc i) d off \<noteq> None \<Longrightarrow> \<exists>p < length d. name_walk i d off = Some p"
  by (auto simp: name_walk.simps name_next_def bind_eq_Some_conv split: if_splits)

lemma name_walk_pigeonhole:
  assumes "name_walk (length d + 1) d off \<noteq> None"
  shows "\<exists>i j. i < j \<and> name_walk i d off = name_walk j d off \<and> name_walk j d off \<noteq> None"
proof -
  let ?f = "\<lambda>i. the (name_walk i d off)"
  have some: "\<exists>p < length d. name_walk i d off = Some p" if "i \<le> length d" for i
  proof -
    have "name_walk (Suc i) d off \<noteq> None"
    proof
      assume "name_walk (Suc i) d off = None"
      from name_walk_None_mono [OF this, of "length d + 1"] that assms show False by simp
    qed
    then show ?thesis by (rule name_walk_in_message)
  qed
  have "?f ` {0..length d} \<subseteq> {..<length d}" using some by force
  then have "card (?f ` {0..length d}) < card {0..length d}"
    using card_mono [of "{..<length d}" "?f ` {0..length d}"] by simp
  then have "\<not> inj_on ?f {0..length d}" by (rule pigeonhole)
  then obtain i j where "i \<le> length d" "j \<le> length d" "i \<noteq> j" "?f i = ?f j"
    by (auto simp: inj_on_def)
  then show ?thesis using some [of i] some [of j]
    by (metis linorder_neqE_nat option.distinct(1) option.sel)
qed

lemma name_walk_cycles:
  assumes "i < j" and "name_walk i d off = name_walk j d off" and "name_walk j d off \<noteq> None"
  shows "name_walk m d off \<noteq> None"
proof (induction m rule: less_induct)
  case (less m)
  show ?case
  proof (cases "m \<le> j")
    case True
    show ?thesis
    proof
      assume "name_walk m d off = None"
      from name_walk_None_mono [OF this True] assms(3) show False by simp
    qed
  next
    case False
    then have "name_walk m d off = name_walk (i + (m - j)) d off"
      using name_walk_add [of j "m - j" d off] name_walk_add [of i "m - j" d off] assms(2) by simp
    moreover have "i + (m - j) < m" using False assms(1) by simp
    ultimately show ?thesis using less.IH by simp
  qed
qed

lemma read_name_forever:
  assumes "read_name (length d + 1) d off dcap = Inl OutOfFuel"
  shows "read_name k d off dcap = Inl OutOfFuel"
proof -
  have "name_walk (length d + 1) d off \<noteq> None"
    using assms by (simp add: read_name_def out_of_fuel_walk)
  then obtain i j where "i < j" "name_walk i d off = name_walk j d off" "name_walk j d off \<noteq> None"
    using name_walk_pigeonhole by blast
  then have "name_walk k d off \<noteq> None" by (rule name_walk_cycles)
  then show ?thesis by (simp add: read_name_def out_of_fuel_walk)
qed

text \<open>
  One unit of fuel per byte of the message and one more decides the loop: if \<^verbatim>\<open>read_name\<close> has not
  returned after visiting more headers than the message has bytes, it never returns.
\<close>

theorem read_name_fuel_enough:
  assumes "read_name (length d + 1) d off dcap = Inl OutOfFuel"
  shows "read_name k d off dcap = Inl OutOfFuel"
  using assms by (rule read_name_forever)

theorem read_name_fuel_enough_witness:
  "read_name 1000 [0xC0, 0] 0 None = Inl OutOfFuel"
proof (rule read_name_fuel_enough)
  show "read_name (length [0xC0, 0 :: byte] + 1) [0xC0, 0] 0 None = Inl OutOfFuel"
    by code_simp
qed

end
