(* ===== verification/Dns_Codec.thy ===== *)
theory Dns_Codec
  imports Dns_Wire
begin

text \<open>
  Encoders for DNS messages and the round trip through the parser of \<^verbatim>\<open>src/c/dns.c\<close>; the message
  that makes the parser loop for ever; and that fuel beyond the message length changes nothing.
\<close>

section \<open>Encoders\<close>

text \<open>A response: the question, and one A record per (time to live, address) pair whose owner is a
  compression pointer to the question.\<close>

definition a_record :: "byte list \<times> byte list \<Rightarrow> byte list" where
  "a_record r = [0xC0, 0x0C] @ put_be16 1 @ put_be16 1 @ fst r @ put_be16 4 @ snd r"

definition encode_response ::
  "u16 \<Rightarrow> u16 \<Rightarrow> byte list list \<Rightarrow> u16 \<Rightarrow> u16 \<Rightarrow> (byte list \<times> byte list) list \<Rightarrow> byte list" where
  "encode_response ident fl ls qt qc rs =
     put_be16 ident @ put_be16 fl @ put_be16 1 @ put_be16 (of_nat (length rs)) @ put_be16 0 @ put_be16 0 @
     encode_name ls @ put_be16 qt @ put_be16 qc @ concat (map a_record rs)"

definition rr_ok :: "byte list \<times> byte list \<Rightarrow> bool" where
  "rr_ok r \<longleftrightarrow> length (fst r) = 4 \<and> length (snd r) = 4"

definition hdr :: "u16 \<Rightarrow> u16 \<Rightarrow> u16 \<Rightarrow> u16 \<Rightarrow> byte list" where
  "hdr ident fl qd an = put_be16 ident @ put_be16 fl @ put_be16 qd @ put_be16 an @ put_be16 0 @ put_be16 0"

section \<open>The parser reads what the encoder wrote\<close>

lemma small_byte_top: "n < 64 \<Longrightarrow> (of_nat n :: byte) AND 0xC0 = 0"
proof -
  assume "n < 64"
  then have "(of_nat n :: byte) = take_bit 6 (of_nat n)"
    by (simp add: take_bit_of_nat take_bit_nat_eq_self)
  also have "\<dots> = of_nat n AND 63" by (simp add: take_bit_eq_mask mask_eq_exp_minus_1)
  finally have "(of_nat n :: byte) AND 0xC0 = (of_nat n AND 63) AND 0xC0" by simp
  also have "\<dots> = of_nat n AND (63 AND 0xC0)" by (simp only: and.assoc)
  finally show ?thesis by simp
qed

lemma dns_name_encode:
  assumes "\<forall>l\<in>set ls. label_ok l"
  shows "dns_name (pre @ encode_name ls @ post) (length pre) ls
           (length pre + length (encode_name ls)) (length ls + 1)"
  using assms
proof (induction ls arbitrary: pre)
  case Nil
  have "dns_name (pre @ [0] @ post) (length pre) [] (length pre + 1) 1"
    by (rule dns_name.root) (auto simp: nth_append)
  then show ?case by (simp add: encode_name_def)
next
  case (Cons l ls)
  let ?d = "pre @ encode_name (l # ls) @ post"
  let ?b = "of_nat (length l) :: byte"
  have ok: "1 \<le> length l" "length l \<le> 63" using Cons.prems by (auto simp: label_ok_def)
  have b: "unat ?b = length l" using ok by (simp add: unsigned_of_nat take_bit_eq_mod)
  have d: "?d = (pre @ ?b # l) @ encode_name ls @ post" by (simp add: encode_name_def)
  have at: "?d ! length pre = ?b" by (simp add: encode_name_def)
  have rest: "dns_name ?d (length pre + 1 + length l) ls (length pre + length (encode_name (l # ls))) (length ls + 1)"
    using Cons.IH [of "pre @ ?b # l"] Cons.prems unfolding d by (simp add: encode_name_def add_ac)
  have top: "?b AND 0xC0 = 0" using ok by (intro small_byte_top) simp
  have "?b \<noteq> 0" using b ok by auto
  then have "dns_name ?d (length pre) (take (unat ?b) (drop (length pre + 1) ?d) # ls)
      (length pre + length (encode_name (l # ls))) (Suc (length ls + 1))"
    using dns_name.label [of "length pre" ?d ls _ "length ls + 1"] rest top b
    by (simp add: at) (simp add: encode_name_def)
  then show ?case using b by (simp add: encode_name_def)
qed
lemma be16_at_put [byte_simps]: "be16_at (pre @ put_be16 v @ post) (length pre) = Inr v"
  by (simp add: put_be16_def nth_append)

lemma length_put_be16 [simp]: "length (put_be16 v) = 2"
  by (simp add: put_be16_def)

lemma a_record_length: "rr_ok r \<Longrightarrow> length (a_record r) = 16"
  by (simp add: a_record_def rr_ok_def)

lemma parse_a_records:
  assumes "d = pre @ concat (map a_record rs) @ post" and "\<forall>r\<in>set rs. rr_ok r"
    and "dns_name d 12 ls e n" and "Suc n \<le> fuel"
  shows "parse_answers fuel d (length rs) (length pre) m
       = Inr (foldl (\<lambda>m r. add_answer m '''' (inet_ntop4 (snd r))) m rs)"
  using assms(1,2)
proof (induction rs arbitrary: pre m)
  case Nil
  then show ?case by simp
next
  case (Cons r rs)
  have ok: "length (fst r) = 4" "length (snd r) = 4" using Cons.prems(2) by (auto simp: rr_ok_def)
  have d: "d = pre @ [0xC0, 0x0C] @ put_be16 1 @ put_be16 1 @ fst r @ put_be16 4 @ snd r
      @ concat (map a_record rs) @ post"
    using Cons.prems(1) by (simp add: a_record_def [of r])
  have len: "length d \<ge> length pre + 16" using ok by (simp add: d)
  have "dns_name d (length pre) ls (length pre + 2) (Suc n)"
  proof (rule dns_name.pointer)
    show "length pre + 1 < length d" using len by simp
    show "d ! length pre AND 0xC0 = 0xC0" by (simp add: d nth_append)
    have "d ! length pre = 0xC0" "d ! (length pre + 1) = 0x0C" by (simp_all add: d nth_append)
    then show "dns_name d (unat (be16 (d ! length pre) (d ! (length pre + 1)) AND 0x3FFF)) ls e n"
      using assms(3) by (simp add: be16_def)
  qed
  then have name: "read_name fuel d (length pre) None = Inr (Some (length pre + 2, []))"
    using read_name_loop_complete_null [of d "length pre" ls _ "Suc n" fuel None "[]"] assms(4)
    by (simp add: read_name_def)
  have t: "be16_at d (length pre + 2) = Inr 1"
    using be16_at_put [of "pre @ [0xC0, 0x0C]" 1 "put_be16 1 @ fst r @ put_be16 4 @ snd r @ concat (map a_record rs) @ post"]
    by (simp add: d)
  have rl: "be16_at d (10 + length pre) = Inr 4"
    using be16_at_put [of "pre @ [0xC0, 0x0C] @ put_be16 1 @ put_be16 1 @ fst r" 4 "snd r @ concat (map a_record rs) @ post"] ok
    by (simp add: d add_ac)
  have rd: "bytes_at d (12 + length pre) 4 = Inr (snd r)"
    using ok len by (simp add: d)
  have IH: "parse_answers fuel d (length rs) (16 + length pre) (add_answer m '''' (inet_ntop4 (snd r)))
      = Inr (foldl (\<lambda>m r. add_answer m '''' (inet_ntop4 (snd r))) (add_answer m '''' (inet_ntop4 (snd r))) rs)"
    using Cons.IH [of "pre @ a_record r"] Cons.prems a_record_length [of r] by (simp add: add.commute)
  show ?case using name t rl rd IH len
    by (simp add: parse_rr_def del: be16_at_in bytes_at_in One_nat_def add_2_eq_Suc')
qed
lemma foldl_add_answers:
  "foldl (\<lambda>m r. add_answer m '''' (f r)) m rs
     = m\<lparr>answers := answers m @ take (16 - length (answers m)) (map (\<lambda>r. snprintf_s 300 (f r)) rs)\<rparr>"
proof (induction rs arbitrary: m)
  case Nil
  then show ?case by simp
next
  case (Cons r rs)
  show ?case
  proof (cases "length (answers m) \<ge> 16")
    case True
    then show ?thesis using Cons.IH [of m] by (simp add: add_answer_def MAX_ANS_def)
  next
    case False
    then have "16 - length (answers m) = Suc (15 - length (answers m))" by simp
    then show ?thesis using False Cons.IH [of "add_answer m '''' (f r)"]
      by (simp add: add_answer_def MAX_ANS_def)
  qed
qed

lemma hdr_length [simp]: "length (hdr ident fl qd an) = 12"
  by (simp add: hdr_def)

lemma hdr_fields:
  "be16_at (hdr ident fl qd an @ r) 0 = Inr ident"
  "be16_at (hdr ident fl qd an @ r) 2 = Inr fl"
  "be16_at (hdr ident fl qd an @ r) 4 = Inr qd"
  "be16_at (hdr ident fl qd an @ r) 6 = Inr an"
  by (simp_all add: hdr_def put_be16_def be16_at_def byte_at_def)

lemma parse_dns_encoded:
  assumes "\<forall>l\<in>set ls. label_ok l" and "length (name_text ls) \<le> 255" and "0 \<notin> set (name_text ls)"
    and "\<forall>r\<in>set rs. rr_ok r" and "length rs < 65536" and "length ls + 2 \<le> fuel"
  shows "parse_dns fuel (encode_response ident fl ls qt qc rs) = Inr (Some
    \<lparr>msg_id = ident, flags = fl, qtype = qt, question = map chr8 (name_text ls),
     answers = take 16 (map (\<lambda>r. inet_ntop4 (snd r)) rs)\<rparr>)"
proof -
  let ?h = "hdr ident fl 1 (of_nat (length rs))"
  let ?d = "encode_response ident fl ls qt qc rs"
  let ?q = "?h @ encode_name ls @ put_be16 qt @ put_be16 qc"
  have d: "?d = ?h @ encode_name ls @ put_be16 qt @ put_be16 qc @ concat (map a_record rs)"
    by (simp add: encode_response_def hdr_def)
  have nm: "dns_name ?d 12 ls (12 + length (encode_name ls)) (length ls + 1)"
    using dns_name_encode [OF assms(1), of ?h "put_be16 qt @ put_be16 qc @ concat (map a_record rs)"]
    by (simp add: d)
  then have name: "read_name fuel ?d 12 (Some 256)
      = Inr (Some (12 + length (encode_name ls), name_text ls))"
    using read_name_iff [of fuel ?d 12 256] assms(2,6) by force
  have t: "be16_at ?d (12 + length (encode_name ls)) = Inr qt"
    using be16_at_put [of "?h @ encode_name ls" qt "put_be16 qc @ concat (map a_record rs)"] by (simp add: d)
  have cs: "cstr (name_text ls) = map chr8 (name_text ls)"
  proof -
    have "takeWhile (\<lambda>b. b \<noteq> 0) (name_text ls) = name_text ls"
      using assms(3) by (auto simp: takeWhile_eq_all_conv)
    then show ?thesis by (simp only: cstr_def)
  qed
  let ?m = "empty_msg\<lparr>msg_id := ident, flags := fl, question := map chr8 (name_text ls), qtype := qt\<rparr>"
  have qs: "parse_questions fuel ?d 1 True 12 (empty_msg\<lparr>msg_id := ident, flags := fl\<rparr>)
      = Inr (Some (length ?q, ?m))"
    using name t cs assms(2) by (simp add: d add_ac One_nat_def)
  have "parse_answers fuel ?d (length rs) (length ?q) ?m
      = Inr (foldl (\<lambda>m r. add_answer m '''' (inet_ntop4 (snd r))) ?m rs)"
    using parse_a_records [of ?d ?q rs "[]" ls _ "length ls + 1" fuel ?m] nm assms(4,6) by (simp add: d)
  moreover have "snprintf_s 300 (inet_ntop4 ip) = inet_ntop4 ip" for ip
    using length_inet_ntop4 [of ip] by simp
  ultimately have as: "parse_answers fuel ?d (length rs) (length ?q) ?m
      = Inr (?m\<lparr>answers := take 16 (map (\<lambda>r. inet_ntop4 (snd r)) rs)\<rparr>)"
    by (simp add: foldl_add_answers empty_msg_def)
  have an: "unat (of_nat (length rs) :: u16) = length rs"
    using assms(5) by (simp add: unsigned_of_nat take_bit_eq_mod)
  have "12 \<le> length ?d" by (simp add: d)
  then show ?thesis using qs as an hdr_fields [of ident fl 1 "of_nat (length rs)"]
    by (simp add: parse_dns_def d empty_msg_def)
qed

text \<open>
  C3. Round trip: a response that carries one question and any number of A records with
  compressed owner names is parsed into its identifier, its flags, the question's name and type
  and the first sixteen addresses in dotted form.
\<close>

theorem parse_dns_response:
  assumes "\<forall>l\<in>set ls. label_ok l" and "length (name_text ls) \<le> 255" and "0 \<notin> set (name_text ls)"
    and "\<forall>r\<in>set rs. rr_ok r" and "length rs < 65536" and "length ls + 2 \<le> fuel"
  shows "parse_dns fuel (encode_response ident fl ls qt qc rs) = Inr (Some
    \<lparr>msg_id = ident, flags = fl, qtype = qt, question = map chr8 (name_text ls),
     answers = take 16 (map (\<lambda>r. inet_ntop4 (snd r)) rs)\<rparr>)"
  by (rule parse_dns_encoded [OF assms])

theorem parse_dns_response_witness:
  "parse_dns 10 (encode_response 7 0x8180 [map ord8 ''ab'', map ord8 ''c''] 1 1 [([0, 0, 0, 9], [10, 0, 0, 1])])
     = Inr (Some \<lparr>msg_id = 7, flags = 0x8180, qtype = 1, question = ''ab.c'', answers = [''10.0.0.1'']\<rparr>)"
proof -
  let ?ls = "[map ord8 ''ab'', map ord8 ''c'']" and ?rs = "[([0, 0, 0, 9], [10, 0, 0, 1 :: byte])]"
  have t: "name_text ?ls = map ord8 ''ab.c''"
    by (simp add: name_text_def add_label_def ord8_def)
  have ip: "inet_ntop4 [10, 0, 0, 1] = ''10.0.0.1''" by code_simp
  have h: "\<forall>l\<in>set ?ls. label_ok l" "length (name_text ?ls) \<le> 255" "0 \<notin> set (name_text ?ls)"
    "\<forall>r\<in>set ?rs. rr_ok r" "length ?rs < 65536" "length ?ls + 2 \<le> 10"
    unfolding t by (simp_all add: label_ok_def rr_ok_def ord8_def)
  show ?thesis
    using parse_dns_response [OF h, of 7 "0x8180" 1 1] unfolding t by (simp add: ip)
qed

section \<open>Fuel and the endless message\<close>

lemma read_name_stable:
  assumes "length d + 1 \<le> k"
  shows "read_name k d off dcap = read_name (length d + 1) d off dcap"
proof (cases "read_name (length d + 1) d off dcap = Inl OutOfFuel")
  case True
  then show ?thesis using read_name_forever [of d off dcap k] by simp
next
  case False
  have mono: "read_name_loop j d dcap off orig w = read_name_loop i d dcap off orig w"
    if "i \<le> j" "read_name_loop i d dcap off orig w \<noteq> Inl OutOfFuel" for i j off orig w
    using that
  proof (induction i arbitrary: j off orig w)
    case 0
    then show ?case by (simp add: read_name_loop.simps)
  next
    case (Suc i)
    then obtain j' where j: "j = Suc j'" "i \<le> j'" by (cases j) auto
    have copy: "and_then (copy_label d dcap p n w) (\<lambda>w'. read_name_loop j' d dcap q orig w')
      = and_then (copy_label d dcap p n w) (\<lambda>w'. read_name_loop i d dcap q orig w')"
      if "and_then (copy_label d dcap p n w) (\<lambda>w'. read_name_loop i d dcap q orig w') \<noteq> Inl OutOfFuel"
      for p n q
      using that Suc.IH [of j'] j(2) by (cases "copy_label d dcap p n w") auto
    have ptr: "and_then (be16_at d off) (\<lambda>p. read_name_loop j' d dcap (unat (p AND 0x3FFF)) o' w)
      = and_then (be16_at d off) (\<lambda>p. read_name_loop i d dcap (unat (p AND 0x3FFF)) o' w)"
      if "and_then (be16_at d off) (\<lambda>p. read_name_loop i d dcap (unat (p AND 0x3FFF)) o' w) \<noteq> Inl OutOfFuel"
      for o'
      using that Suc.IH [of j'] j(2) by (cases "be16_at d off") auto
    show ?case using Suc.prems(2) copy ptr j(1)
      by (cases "byte_at d off") (auto simp: read_name_loop.simps(2) split: if_splits)
  qed
  from mono [OF assms] False show ?thesis by (simp add: read_name_def)
qed

lemma parse_rr_stable:
  "length d + 1 \<le> k \<Longrightarrow> parse_rr k d t rdoff rdlen m = parse_rr (length d + 1) d t rdoff rdlen m"
  by (simp add: parse_rr_def name_answer_def read_name_stable [of d k])

lemma parse_questions_stable:
  "length d + 1 \<le> k \<Longrightarrow> parse_questions k d n first off m = parse_questions (length d + 1) d n first off m"
proof (induction n arbitrary: first off m)
  case 0
  then show ?case by simp
next
  case (Suc n)
  show ?case
    by (simp only: parse_questions.simps read_name_stable [OF Suc.prems] Suc.IH [OF Suc.prems])
qed

lemma parse_answers_stable:
  "length d + 1 \<le> k \<Longrightarrow> parse_answers k d n off m = parse_answers (length d + 1) d n off m"
proof (induction n arbitrary: off m)
  case 0
  then show ?case by simp
next
  case (Suc n)
  have ih: "parse_answers k d n p = parse_answers (length d + 1) d n p" for p
    by (rule ext) (rule Suc.IH [OF Suc.prems])
  show ?case
    by (simp only: parse_answers.simps read_name_stable [OF Suc.prems] parse_rr_stable [OF Suc.prems] ih)
qed

lemma parse_dns_stable:
  assumes "length d + 1 \<le> k"
  shows "parse_dns k d = parse_dns (length d + 1) d"
  by (simp only: parse_dns_def parse_questions_stable [OF assms] parse_answers_stable [OF assms])

text \<open>
  C17. A packet hangs the tracer: a message with at least one question whose name is the two bytes
  \<^verbatim>\<open>C0 0C\<close>, a compression pointer to itself, keeps \<^verbatim>\<open>parse_dns\<close> in \<^verbatim>\<open>read_name\<close>'s loop for ever;
  no amount of fuel makes it return. Any host that can send a UDP packet from or to port 53 past
  the capture stops the trace.
\<close>

theorem parse_dns_hangs_on_pointer_loop:
  assumes "14 \<le> length d" and "be16 (d ! 4) (d ! 5) \<noteq> 0" and "d ! 12 = 0xC0" and "d ! 13 = 0x0C"
  shows "parse_dns fuel d = Inl OutOfFuel"
proof -
  have next_12: "name_next d 12 = Some 12"
    using assms by (simp add: name_next_def be16_def)
  have walk: "name_walk k d 12 = Some 12" for k
    using next_12 by (induction k) (auto simp: name_walk.simps)
  then have hang: "read_name fuel d 12 (Some 256) = Inl OutOfFuel"
    using out_of_fuel_walk [of fuel d "Some 256" 12] by (simp add: read_name_def)
  obtain n where "unat (be16 (d ! 4) (d ! 5)) = Suc n"
    using assms(2) by (metis not0_implies_Suc unat_eq_zero)
  then show ?thesis
    using assms(1) hang by (simp add: parse_dns_def)
qed

theorem parse_dns_hangs_on_pointer_loop_witness:
  "parse_dns 5000 [0, 7, 1, 0, 0, 1, 0, 0, 0, 0, 0, 0, 0xC0, 0x0C, 0, 1, 0, 1] = Inl OutOfFuel"
  by (rule parse_dns_hangs_on_pointer_loop) (simp_all add: be16_def)

end
