(* ===== verification/Net_Wire.thy ===== *)
theory Net_Wire
  imports Exec_Proc
begin

text \<open>
  The conntrack messages the Linux net tracer (\<^verbatim>\<open>src/c/net.c\<close>) reads: netlink attributes, the
  connection tuple and the TCP state. Every read is checked against the attribute it is made in; an
  attribute's value is the slice of bytes it points to. An IP address is the list of its 4 or 16
  bytes, \<open>[]\<close> while it is unset (\<^verbatim>\<open>src_len\<close> and \<^verbatim>\<open>dst_len\<close> are the lengths).
\<close>

section \<open>Definitions\<close>

definition tcp_state_names :: "string list" where
  "tcp_state_names = [''NONE'', ''SYN_SENT'', ''SYN_RECV'', ''ESTABLISHED'', ''FIN_WAIT'', ''CLOSE_WAIT'',
     ''LAST_ACK'', ''TIME_WAIT'', ''CLOSE'', ''LISTEN'', ''MAX'', ''IGNORE'']"

definition tcp_state_name :: "byte \<Rightarrow> string" where
  "tcp_state_name s =
     (if unat s < 12 then tcp_state_names ! unat s else snprintf_s 16 (''STATE'' @ dec_nat (unat s)))"

record conn_tuple =
  src_ip :: "byte list"
  dst_ip :: "byte list"
  src_port :: u16
  dst_port :: u16
  proto :: byte

definition no_tuple :: conn_tuple where
  "no_tuple = \<lparr>src_ip = [], dst_ip = [], src_port = 0, dst_port = 0, proto = 0\<rparr>"

definition ip_str :: "byte list \<Rightarrow> string" where
  "ip_str ip = (if length ip = 4 then inet_ntop4 ip else if length ip = 16 then inet_ntop6 ip else ''?'')"

definition tuple_key :: "conn_tuple \<Rightarrow> string" where
  "tuple_key t = snprintf_s 160 (ip_str (src_ip t) @ '':'' @ dec_nat (unat (src_port t)) @ ''|'' @
     ip_str (dst_ip t) @ '':'' @ dec_nat (unat (dst_port t)) @ ''|'' @ dec_nat (unat (proto t)))"

definition proto_str :: "byte \<Rightarrow> string" where
  "proto_str p = (if p = 6 then ''TCP'' else if p = 17 then ''UDP'' else if p = 1 then ''ICMP''
     else snprintf_s 16 (''IP'' @ dec_nat (unat p)))"

subsection \<open>Attributes\<close>

definition NLA_MAX_TYPE :: nat where "NLA_MAX_TYPE = 64"

type_synonym nla_set = "nat \<Rightarrow> byte list option"

definition nla_type :: "u16 \<Rightarrow> nat" where
  "nla_type t = unat (t AND NOT 0x8000 AND NOT 0x4000)"

definition nla_add :: "nat \<Rightarrow> byte list \<Rightarrow> nla_set \<Rightarrow> nla_set" where
  "nla_add ty v acc = (if ty < NLA_MAX_TYPE \<and> acc ty = None then acc(ty := Some v) else acc)"

function nla_loop :: "byte list \<Rightarrow> nla_set \<Rightarrow> nla_set outcome" where
  "nla_loop d acc =
     (if length d \<ge> 4 then
        and_then (le16_at d 0) (\<lambda>nla_len. and_then (le16_at d 2) (\<lambda>t.
          let end = unat nla_len; aligned = (end + 3) div 4 * 4
          in if end < 4 then Inr acc
             else if end > length d then Inr acc
             else let acc' = nla_add (nla_type t) (take (end - 4) (drop 4 d)) acc
                  in if aligned > length d then Inr acc' else nla_loop (drop aligned d) acc'))
      else Inr acc)"
  by pat_completeness auto
termination
  by (relation "measure (\<lambda>(d, acc). length d)") auto

declare nla_loop.simps [simp del]

definition parse_nla :: "byte list \<Rightarrow> nla_set outcome" where
  "parse_nla d = nla_loop d (\<lambda>_. None)"

subsection \<open>The tuple\<close>

text \<open>\<^verbatim>\<open>if (has && len == n) memcpy(...)\<close>: the \<open>n\<close> bytes of an address attribute, if it has that length.\<close>

definition ip_attr :: "nla_set \<Rightarrow> nat \<Rightarrow> nat \<Rightarrow> byte list option outcome" where
  "ip_attr ia ty n =
     (case ia ty of None \<Rightarrow> Inr None
      | Some v \<Rightarrow> if length v = n then and_then (bytes_at v 0 n) (\<lambda>b. Inr (Some b)) else Inr None)"

definition opt_or :: "'a option \<Rightarrow> 'a \<Rightarrow> 'a" where
  "opt_or x d = (case x of None \<Rightarrow> d | Some a \<Rightarrow> a)"

definition tuple_ips :: "nla_set \<Rightarrow> conn_tuple \<Rightarrow> conn_tuple outcome" where
  "tuple_ips ia t =
     and_then (ip_attr ia 1 4) (\<lambda>s4. and_then (ip_attr ia 2 4) (\<lambda>d4.
     and_then (ip_attr ia 3 16) (\<lambda>s6. and_then (ip_attr ia 4 16) (\<lambda>d6.
       Inr (t\<lparr>src_ip := opt_or s6 (opt_or s4 (src_ip t)), dst_ip := opt_or d6 (opt_or d4 (dst_ip t))\<rparr>)))))"

definition port_attr :: "nla_set \<Rightarrow> nat \<Rightarrow> u16 \<Rightarrow> u16 outcome" where
  "port_attr pa ty old =
     (case pa ty of None \<Rightarrow> Inr old | Some v \<Rightarrow> if length v \<ge> 2 then be16_at v 0 else Inr old)"

definition tuple_ports :: "nla_set \<Rightarrow> conn_tuple \<Rightarrow> conn_tuple outcome" where
  "tuple_ports pa t =
     and_then (case pa 1 of None \<Rightarrow> Inr (proto t) | Some v \<Rightarrow> if length v \<ge> 1 then byte_at v 0 else Inr (proto t)) (\<lambda>pr.
     and_then (port_attr pa 2 (src_port t)) (\<lambda>sp. and_then (port_attr pa 3 (dst_port t)) (\<lambda>dp.
       Inr (t\<lparr>proto := pr, src_port := sp, dst_port := dp\<rparr>))))"

text \<open>\<open>None\<close> when the message has no usable tuple.\<close>

definition parse_tuple :: "byte list \<Rightarrow> nat \<Rightarrow> conn_tuple option outcome" where
  "parse_tuple payload tuple_attr =
     and_then (parse_nla payload) (\<lambda>top.
       if tuple_attr \<ge> NLA_MAX_TYPE then Inr None
       else case top tuple_attr of None \<Rightarrow> Inr None
       | Some v \<Rightarrow>
           and_then (parse_nla v) (\<lambda>ta.
           and_then (case ta 1 of None \<Rightarrow> Inr no_tuple | Some w \<Rightarrow> and_then (parse_nla w) (\<lambda>ia. tuple_ips ia no_tuple)) (\<lambda>t1.
           and_then (case ta 2 of None \<Rightarrow> Inr t1 | Some w \<Rightarrow> and_then (parse_nla w) (\<lambda>pa. tuple_ports pa t1)) (\<lambda>t2.
             Inr (if src_ip t2 = [] \<or> dst_ip t2 = [] then None else Some t2)))))"

definition parse_tcp_state :: "byte list \<Rightarrow> byte outcome" where
  "parse_tcp_state payload =
     and_then (parse_nla payload) (\<lambda>top. case top 4 of None \<Rightarrow> Inr 0 | Some v \<Rightarrow>
     and_then (parse_nla v) (\<lambda>pi. case pi 1 of None \<Rightarrow> Inr 0 | Some w \<Rightarrow>
     and_then (parse_nla w) (\<lambda>tcp. case tcp 1 of None \<Rightarrow> Inr 0 | Some s \<Rightarrow>
       if length s < 1 then Inr 0 else byte_at s 0)))"

section \<open>Safety\<close>

lemma nla_loop_total: "\<exists>s. nla_loop d acc = Inr s"
proof (induction d acc rule: nla_loop.induct)
  case (1 d acc)
  show ?case
  proof (cases "length d \<ge> 4")
    case True
    then obtain l t where lt: "le16_at d 0 = Inr l" "le16_at d 2 = Inr t" by simp
    show ?thesis using 1 [OF True refl refl _ _ refl, of l t] lt True by (subst nla_loop.simps) (auto simp: Let_def)
  qed (subst nla_loop.simps, simp)
qed

lemma parse_nla_total: "\<exists>s. parse_nla d = Inr s"
  by (simp add: parse_nla_def nla_loop_total)

lemma tuple_ips_total: "\<exists>t'. tuple_ips ia t = Inr t'"
  by (auto simp: tuple_ips_def ip_attr_def split: option.splits)

lemma tuple_ports_total: "\<exists>t'. tuple_ports pa t = Inr t'"
  by (auto simp: tuple_ports_def port_attr_def Suc_le_eq split: option.splits)

lemma parse_tuple_total: "\<exists>t. parse_tuple payload a = Inr t"
  unfolding parse_tuple_def
  by (auto simp: parse_nla_total tuple_ips_total tuple_ports_total split: option.split intro!: and_then_total)

lemma parse_tcp_state_total: "\<exists>s. parse_tcp_state payload = Inr s"
  unfolding parse_tcp_state_def
  by (auto simp: parse_nla_total byte_at_def split: option.split intro!: and_then_total)

section \<open>Reading back what the kernel writes\<close>

definition nla_enc :: "u16 \<Rightarrow> byte list \<Rightarrow> byte list" where
  "nla_enc t v = put16 (of_nat (4 + length v)) @ put16 t @ v @ replicate ((length v + 3) div 4 * 4 - length v) 0"

definition enc_ips :: "conn_tuple \<Rightarrow> byte list" where
  "enc_ips t = (if length (src_ip t) = 4 then nla_enc 1 (src_ip t) @ nla_enc 2 (dst_ip t)
     else nla_enc 3 (src_ip t) @ nla_enc 4 (dst_ip t))"

definition enc_ports :: "conn_tuple \<Rightarrow> byte list" where
  "enc_ports t = nla_enc 1 [proto t] @ nla_enc 2 (put_be16 (src_port t)) @ nla_enc 3 (put_be16 (dst_port t))"

definition enc_tuple :: "conn_tuple \<Rightarrow> byte list" where
  "enc_tuple t = nla_enc 0x8001 (nla_enc 0x8001 (enc_ips t) @ nla_enc 0x8002 (enc_ports t))"

definition enc_protoinfo :: "byte \<Rightarrow> byte list" where
  "enc_protoinfo s = nla_enc 0x8004 (nla_enc 0x8001 (nla_enc 1 [s]))"

text \<open>Other attributes of the message: the tuple of the replies, status, mark, timeout and so on, each with its type.\<close>

type_synonym nl_attr = "u16 \<times> byte list"

definition enc_attrs :: "nl_attr list \<Rightarrow> byte list" where
  "enc_attrs as = concat (map (\<lambda>(t, v). nla_enc t v) as)"

definition attrs_ok :: "nl_attr list \<Rightarrow> bool" where
  "attrs_ok as \<longleftrightarrow> (\<forall>(t, v) \<in> set as. nla_type t \<noteq> 1 \<and> nla_type t \<noteq> 4 \<and> length v \<le> 65531)"

definition tuple_ok :: "conn_tuple \<Rightarrow> bool" where
  "tuple_ok t \<longleftrightarrow> length (src_ip t) = length (dst_ip t) \<and> (length (src_ip t) = 4 \<or> length (src_ip t) = 16)"

lemma le16_at_put16 [byte_simps]: "i = length pre \<Longrightarrow> le16_at (pre @ put16 v @ post) i = Inr v"
  by (simp add: le16_at_def byte_at_def nth_append put16_def ucast_low_byte)

lemma nla_loop_enc:
  assumes "length v \<le> 65531"
  shows "nla_loop (nla_enc t v @ r) acc = nla_loop r (nla_add (nla_type t) v acc)"
proof -
  let ?pad = "replicate ((length v + 3) div 4 * 4 - length v) (0 :: byte)"
  let ?d = "nla_enc t v @ r" and ?l = "of_nat (4 + length v) :: u16"
  have "le16_at ?d 0 = Inr ?l" using le16_at_put16 [of 0 "[]" ?l] by (simp add: nla_enc_def)
  moreover have "le16_at ?d 2 = Inr t" using le16_at_put16 [of 2 "put16 ?l" t] by (simp add: nla_enc_def)
  moreover have u: "unat ?l = 4 + length v" using assms by (simp only: unsigned_of_nat take_bit_eq_mod) simp
  have le: "length v \<le> (length v + 3) div 4 * 4" by linarith
  have "(4 + length v + 3) div 4 * 4 = (length v + 3) div 4 * 4 + 4" by presburger
  then have len: "length (nla_enc t v) = (4 + length v + 3) div 4 * 4" using le by (simp add: nla_enc_def)
  moreover have "take (4 + length v - 4) (drop 4 ?d) = v" by (simp add: nla_enc_def)
  moreover have "drop ((4 + length v + 3) div 4 * 4) ?d = r" unfolding len [symmetric] by simp
  moreover have "4 + length v \<le> length ?d" using len le by simp
  moreover have "(4 + length v + 3) div 4 * 4 \<le> length ?d" using len by simp
  ultimately show ?thesis
    by (subst nla_loop.simps) (simp only: and_then_Inr Let_def u, simp)
qed

lemma nla_loop_keeps: "nla_loop d acc = Inr s \<Longrightarrow> acc ty = Some v \<Longrightarrow> s ty = Some v"
proof (induction d acc rule: nla_loop.induct)
  case (1 d acc)
  have keep: "nla_add a b acc ty = Some v" for a b using 1(3) by (auto simp: nla_add_def)
  from 1(2,3) show ?case
    by (subst (asm) nla_loop.simps)
      (auto simp: Let_def and_then_eq_Inr keep split: if_splits intro: 1(1) [OF _ refl refl _ _ refl _ _ keep])
qed

lemma nla_loop_nil: "nla_loop [] acc = Inr acc"
  by (subst nla_loop.simps) simp

lemma nla_types:
  "nla_type 0x8001 = 1" "nla_type 0x8002 = 2" "nla_type 0x8004 = 4" "nla_type 1 = 1" "nla_type 2 = 2" "nla_type 3 = 3" "nla_type 4 = 4"
  by (simp_all add: nla_type_def)

lemma nla_get:
  assumes "length v \<le> 65531" "nla_type t < 64" "acc (nla_type t) = None"
  shows "\<exists>s. nla_loop (nla_enc t v @ r) acc = Inr s \<and> s (nla_type t) = Some v"
proof -
  obtain s where s: "nla_loop r (nla_add (nla_type t) v acc) = Inr s" using nla_loop_total by blast
  have "nla_add (nla_type t) v acc (nla_type t) = Some v" using assms(2,3) by (simp add: nla_add_def NLA_MAX_TYPE_def)
  then show ?thesis using nla_loop_enc [OF assms(1)] s nla_loop_keeps [OF s] by auto
qed

lemma nla_loop_attrs:
  "attrs_ok as \<Longrightarrow> \<exists>acc'. nla_loop (enc_attrs as @ r) acc = nla_loop r acc' \<and> acc' 1 = acc 1 \<and> acc' 4 = acc 4"
proof (induction as arbitrary: acc)
  case Nil
  show ?case by (auto simp: enc_attrs_def)
next
  case (Cons a as)
  obtain t v where a: "a = (t, v)" by (cases a)
  let ?acc = "nla_add (nla_type t) v acc"
  have t: "nla_type t \<noteq> 1" "nla_type t \<noteq> 4" "length v \<le> 65531" and as: "attrs_ok as" using Cons.prems by (auto simp: attrs_ok_def a)
  have "nla_loop (enc_attrs (a # as) @ r) acc = nla_loop (enc_attrs as @ r) ?acc"
    using nla_loop_enc [OF t(3), of t "enc_attrs as @ r" acc] by (simp add: enc_attrs_def a)
  moreover have "?acc 1 = acc 1" "?acc 4 = acc 4" using t by (simp_all add: nla_add_def)
  ultimately show ?case using Cons.IH [OF as, of ?acc] by metis
qed

lemma parse_ports: "\<exists>pa. parse_nla (enc_ports t) = Inr pa \<and>
    tuple_ports pa t0 = Inr (t0\<lparr>proto := proto t, src_port := src_port t, dst_port := dst_port t\<rparr>)"
proof -
  have "parse_nla (enc_ports t) = Inr ((\<lambda>_. None)(1 := Some [proto t], 2 := Some (put_be16 (src_port t)), 3 := Some (put_be16 (dst_port t))))"
    by (simp add: parse_nla_def enc_ports_def nla_loop_enc nla_loop_nil [symmetric] put_be16_def nla_types nla_add_def NLA_MAX_TYPE_def)
      (simp add: nla_loop_nil nla_loop_enc [where r = "[]", simplified] nla_types nla_add_def NLA_MAX_TYPE_def)
  then show ?thesis
    by (simp add: tuple_ports_def port_attr_def put_be16_def be16_at_def byte_at_def)
qed

lemma parse_ips:
  assumes "tuple_ok t"
  shows "\<exists>ia. parse_nla (enc_ips t) = Inr ia \<and> tuple_ips ia no_tuple = Inr (no_tuple\<lparr>src_ip := src_ip t, dst_ip := dst_ip t\<rparr>)"
proof (cases "length (src_ip t) = 4")
  case True
  then have "parse_nla (enc_ips t) = Inr ((\<lambda>_. None)(1 := Some (src_ip t), 2 := Some (dst_ip t)))"
    using assms nla_loop_enc [of "dst_ip t" 2 "[]"]
    by (simp add: parse_nla_def enc_ips_def nla_loop_enc tuple_ok_def nla_types nla_add_def NLA_MAX_TYPE_def nla_loop_nil)
  then show ?thesis using True assms by (simp add: tuple_ips_def ip_attr_def opt_or_def tuple_ok_def no_tuple_def)
next
  case False
  then have "parse_nla (enc_ips t) = Inr ((\<lambda>_. None)(3 := Some (src_ip t), 4 := Some (dst_ip t)))"
    using assms nla_loop_enc [of "dst_ip t" 4 "[]"]
    by (simp add: parse_nla_def enc_ips_def nla_loop_enc tuple_ok_def nla_types nla_add_def NLA_MAX_TYPE_def nla_loop_nil)
  then show ?thesis using False assms by (auto simp: tuple_ips_def ip_attr_def opt_or_def tuple_ok_def no_tuple_def)
qed

lemma length_nla_enc: "length (nla_enc t v) \<le> length v + 7"
proof -
  have "(length v + 3) div 4 * 4 \<le> length v + 3" by simp
  then show ?thesis by (simp add: nla_enc_def)
qed

lemma length_enc_ports: "length (enc_ports t) \<le> 26"
  using length_nla_enc [of 1 "[proto t]"] length_nla_enc [of 2 "put_be16 (src_port t)"] length_nla_enc [of 3 "put_be16 (dst_port t)"]
  by (simp add: enc_ports_def put_be16_def)

lemma length_enc_ips: "tuple_ok t \<Longrightarrow> length (enc_ips t) \<le> 46"
  using length_nla_enc [of 1 "src_ip t"] length_nla_enc [of 2 "dst_ip t"] length_nla_enc [of 3 "src_ip t"] length_nla_enc [of 4 "dst_ip t"]
  by (auto simp: enc_ips_def tuple_ok_def)

lemma parse_tuple_enc:
  assumes "tuple_ok t"
  shows "parse_tuple (enc_tuple t @ rest) 1 = Inr (Some t)"
proof -
  let ?ta = "nla_enc 0x8001 (enc_ips t) @ nla_enc 0x8002 (enc_ports t)"
  have lens: "length (enc_ips t) \<le> 65531" "length (enc_ports t) \<le> 65531" "length ?ta \<le> 65531"
    using length_enc_ips [OF assms] length_enc_ports [of t] length_nla_enc [of "0x8001" "enc_ips t"] length_nla_enc [of "0x8002" "enc_ports t"]
    by simp_all
  obtain top where top: "parse_nla (enc_tuple t @ rest) = Inr top" "top 1 = Some ?ta"
    using nla_get [OF lens(3), of "0x8001" "\<lambda>_. None" rest] by (auto simp: parse_nla_def enc_tuple_def nla_types)
  have ta: "parse_nla ?ta = Inr ((\<lambda>_. None)(1 := Some (enc_ips t), 2 := Some (enc_ports t)))"
    using nla_loop_enc [OF lens(2), of "0x8002" "[]"]
    by (simp add: parse_nla_def nla_loop_enc [OF lens(1)] nla_types nla_add_def NLA_MAX_TYPE_def nla_loop_nil)
  obtain ia where ia: "parse_nla (enc_ips t) = Inr ia" "tuple_ips ia no_tuple = Inr (no_tuple\<lparr>src_ip := src_ip t, dst_ip := dst_ip t\<rparr>)"
    using parse_ips [OF assms] by blast
  let ?t1 = "no_tuple\<lparr>src_ip := src_ip t, dst_ip := dst_ip t\<rparr>"
  obtain pa where pa: "parse_nla (enc_ports t) = Inr pa"
    "tuple_ports pa ?t1 = Inr (?t1\<lparr>proto := proto t, src_port := src_port t, dst_port := dst_port t\<rparr>)"
    using parse_ports by blast
  have "?t1\<lparr>proto := proto t, src_port := src_port t, dst_port := dst_port t\<rparr> = t" by simp
  moreover have "src_ip t \<noteq> []" "dst_ip t \<noteq> []" using assms by (auto simp: tuple_ok_def)
  ultimately show ?thesis using top ta ia pa by (simp add: parse_tuple_def NLA_MAX_TYPE_def)
qed

lemma parse_tcp_state_enc:
  assumes "tuple_ok t" "attrs_ok mid"
  shows "parse_tcp_state (enc_tuple t @ enc_attrs mid @ enc_protoinfo s @ rest) = Inr s"
proof -
  let ?w = "nla_enc 1 [s]" let ?v = "nla_enc 0x8001 ?w"
  have len: "length ?w \<le> 65531" "length ?v \<le> 65531"
    using length_nla_enc [of 1 "[s]"] length_nla_enc [of "0x8001" ?w] by simp_all
  let ?ta = "nla_enc 0x8001 (enc_ips t) @ nla_enc 0x8002 (enc_ports t)" and ?r = "enc_attrs mid @ enc_protoinfo s @ rest"
  have ta: "length ?ta \<le> 65531"
    using length_enc_ips [OF assms(1)] length_enc_ports [of t] length_nla_enc [of "0x8001" "enc_ips t"] length_nla_enc [of "0x8002" "enc_ports t"]
    by simp
  obtain acc where acc: "nla_loop ?r (nla_add 1 ?ta (\<lambda>_. None)) = nla_loop (enc_protoinfo s @ rest) acc" "acc 4 = None"
    using nla_loop_attrs [OF assms(2), of "enc_protoinfo s @ rest" "nla_add 1 ?ta (\<lambda>_. None)"] by (auto simp: nla_add_def)
  have "parse_nla (enc_tuple t @ ?r) = nla_loop (enc_protoinfo s @ rest) acc"
    using acc(1) by (simp add: parse_nla_def enc_tuple_def nla_types nla_loop_enc [OF ta])
  then obtain top where "parse_nla (enc_tuple t @ ?r) = Inr top" "top 4 = Some ?v"
    using nla_get [OF len(2), of "0x8004" acc rest] acc(2) by (auto simp: enc_protoinfo_def nla_types)
  moreover have "parse_nla ?v = Inr ((\<lambda>_. None)(1 := Some ?w))"
    using nla_loop_enc [OF len(1), of "0x8001" "[]"]
    by (simp add: parse_nla_def nla_types nla_add_def NLA_MAX_TYPE_def nla_loop_nil)
  moreover have "parse_nla ?w = Inr ((\<lambda>_. None)(1 := Some [s]))"
    using nla_loop_enc [of "[s]" 1 "[]"]
    by (simp add: parse_nla_def nla_types nla_add_def NLA_MAX_TYPE_def nla_loop_nil)
  ultimately show ?thesis by (simp add: parse_tcp_state_def)
qed

section \<open>Claims\<close>



text \<open>
  Whatever bytes a message holds, the attribute walk, the tuple reader and the TCP state reader
  stop and never read outside the attribute they look at.
\<close>

theorem conntrack_readers_total:
  "(\<exists>s. parse_nla d = Inr s) \<and> (\<exists>t. parse_tuple d a = Inr t) \<and> (\<exists>s. parse_tcp_state d = Inr s)"
  by (simp add: parse_nla_total parse_tuple_total parse_tcp_state_total)

end
