(* ===== verification/Net_Proc.thy ===== *)
theory Net_Proc
  imports Net_Wire
begin

text \<open>
  How the Linux net tracer (\<^verbatim>\<open>src/c/net.c\<close>) attributes a connection: the socket tables under
  \<^verbatim>\<open>/proc/net\<close>, the search for the process that owns a socket, the direction of the connection and
  the ancestry of a process. The files and directories are a parameter (record \<open>netfs\<close>): a file read
  with \<^verbatim>\<open>fgets\<close> is the list of the lines it returns, a directory the list of its entries.
\<close>

section \<open>Definitions\<close>

datatype direction = DIR_UNKNOWN | DIR_OUTBOUND | DIR_INBOUND

definition dir_arrow :: "direction \<Rightarrow> string" where
  "dir_arrow d = (case d of
     DIR_OUTBOUND \<Rightarrow> [CHR 0xE2, CHR 0x86, CHR 0x92]
   | DIR_INBOUND \<Rightarrow> [CHR 0xE2, CHR 0x86, CHR 0x90]
   | DIR_UNKNOWN \<Rightarrow> [CHR 0xE2, CHR 0x86, CHR 0x94])"

record netfs =
  n_file :: "string \<Rightarrow> string list option"
  n_proc :: "(string \<times> (string \<times> string option) list option) list"
  n_comm :: "int \<Rightarrow> string option"
  n_stat :: "i32 \<Rightarrow> string option"
  n_owner :: "i32 \<Rightarrow> u32 option"
  n_user :: "u32 \<Rightarrow> string option"
  n_ifaddrs :: "byte list list"        \<comment> \<open>addresses of the interfaces; \<open>[]\<close> for another family\<close>
  n_mono :: "nat \<times> nat"

subsection \<open>Socket tables\<close>

record proc_entry =
  local_ip :: "byte list"
  local_port :: u16
  remote_ip :: "byte list"
  remote_port :: u16
  inode :: nat

text \<open>The four bytes of an \<^verbatim>\<open>unsigned long\<close>, lowest first.\<close>

definition low_bytes :: "int \<Rightarrow> byte list" where
  "low_bytes v = [of_int v, of_int (v div 256), of_int (v div 65536), of_int (v div 16777216)]"

definition parse_hex_ipv4 :: "string \<Rightarrow> byte list option" where
  "parse_hex_ipv4 s =
     (if length s \<noteq> 8 then None
      else let (v, rest) = strtoul16 s in if rest \<noteq> [] then None else Some (low_bytes v))"

definition hex_word :: "string \<Rightarrow> byte list option" where
  "hex_word w = (let (v, rest) = strtoul16 w in if rest \<noteq> [] then None else Some (low_bytes v))"

definition parse_hex_ipv6 :: "string \<Rightarrow> byte list option" where
  "parse_hex_ipv6 s =
     (if length s \<noteq> 32 then None
      else case (hex_word (take 8 s), hex_word (take 8 (drop 8 s)), hex_word (take 8 (drop 16 s)), hex_word (drop 24 s)) of
             (Some a, Some b, Some c, Some d) \<Rightarrow> Some (a @ b @ c @ d)
           | _ \<Rightarrow> None)"

definition parse_hex_port :: "string \<Rightarrow> u16" where
  "parse_hex_port s = of_int (fst (strtoul16 s))"

definition ips_eq :: "byte list \<Rightarrow> byte list \<Rightarrow> bool" where
  "ips_eq a b \<longleftrightarrow> length a = length b \<and> a = b"

definition MAX_PROC_ENTRIES :: nat where "MAX_PROC_ENTRIES = 65536"

text \<open>One line of the table; \<open>None\<close> for the lines the reader skips.\<close>

definition proc_line :: "string \<Rightarrow> proc_entry option" where
  "proc_line line =
     (let fields = take 16 (strtok ('' '' @ [CHR 0x09, CHR 0x0A]) line)
      in if length fields < 10 then None
         else let la = fields ! 1; ra = fields ! 2
              in case (strchr la (CHR '':''), strchr ra (CHR '':'')) of
                   (Some lc, Some rc) \<Rightarrow>
                     let lh = take lc la; rh = take rc ra;
                         ips = (if length lh = 8 then (parse_hex_ipv4 lh, parse_hex_ipv4 rh)
                                else if length lh = 32 then (parse_hex_ipv6 lh, parse_hex_ipv6 rh)
                                else (None, None))
                     in (case ips of
                           (Some l, Some r) \<Rightarrow>
                             Some \<lparr>local_ip = l, local_port = parse_hex_port (drop (lc + 1) la),
                               remote_ip = r, remote_port = parse_hex_port (drop (rc + 1) ra),
                               inode = nat (fst (strtoul10 (fields ! 9)))\<rparr>
                         | _ \<Rightarrow> None)
                 | _ \<Rightarrow> None)"

text \<open>The first line is the header; entries beyond the capacity are dropped.\<close>

definition read_proc_net_file :: "netfs \<Rightarrow> string \<Rightarrow> nat \<Rightarrow> proc_entry list" where
  "read_proc_net_file fs filename cap =
     (case n_file fs filename of None \<Rightarrow> []
      | Some ls \<Rightarrow> take cap (List.map_filter proc_line (drop 1 ls)))"

subsection \<open>Socket and direction of a connection\<close>

definition owns_source :: "conn_tuple \<Rightarrow> proc_entry \<Rightarrow> bool" where
  "owns_source orig e \<longleftrightarrow>
     ips_eq (local_ip e) (src_ip orig) \<and> local_port e = src_port orig \<and>
     ips_eq (remote_ip e) (dst_ip orig) \<and> remote_port e = dst_port orig"

definition owns_destination :: "conn_tuple \<Rightarrow> proc_entry \<Rightarrow> bool" where
  "owns_destination orig e \<longleftrightarrow>
     ips_eq (local_ip e) (dst_ip orig) \<and> local_port e = dst_port orig \<and>
     ips_eq (remote_ip e) (src_ip orig) \<and> remote_port e = src_port orig"

fun match_entries :: "conn_tuple \<Rightarrow> proc_entry list \<Rightarrow> (direction \<times> nat) option" where
  "match_entries orig [] = None"
| "match_entries orig (e # es) =
     (if inode e = 0 then match_entries orig es
      else if owns_source orig e then Some (DIR_OUTBOUND, inode e)
      else if owns_destination orig e then Some (DIR_INBOUND, inode e)
      else match_entries orig es)"

fun match_local :: "conn_tuple \<Rightarrow> proc_entry list \<Rightarrow> (direction \<times> nat) option" where
  "match_local orig [] = None"
| "match_local orig (e # es) =
     (if inode e = 0 then match_local orig es
      else if ips_eq (local_ip e) (src_ip orig) \<and> local_port e = src_port orig then Some (DIR_OUTBOUND, inode e)
      else match_local orig es)"

fun match_files :: "netfs \<Rightarrow> conn_tuple \<Rightarrow> string list \<Rightarrow> direction \<times> nat" where
  "match_files fs orig [] = (DIR_UNKNOWN, 0)"
| "match_files fs orig (f # files) =
     (let es = read_proc_net_file fs f MAX_PROC_ENTRIES
      in case match_entries orig es of Some r \<Rightarrow> r
         | None \<Rightarrow> (case (if proto orig = 17 then match_local orig es else None) of Some r \<Rightarrow> r
                    | None \<Rightarrow> match_files fs orig files))"

definition find_inode_with_dir :: "netfs \<Rightarrow> conn_tuple \<Rightarrow> direction \<times> nat" where
  "find_inode_with_dir fs orig =
     (if proto orig = 6 then match_files fs orig [''/proc/net/tcp'', ''/proc/net/tcp6'']
      else if proto orig = 17 then match_files fs orig [''/proc/net/udp'', ''/proc/net/udp6'']
      else (DIR_UNKNOWN, 0))"

subsection \<open>The owner of a socket\<close>

definition fd_matches :: "string \<Rightarrow> string \<times> string option \<Rightarrow> bool" where
  "fd_matches target fe =
     (case fe of (nm, link) \<Rightarrow>
        \<not> (nm \<noteq> '''' \<and> hd nm = CHR ''.'') \<and> (case link of None \<Rightarrow> False | Some b \<Rightarrow> snprintf_s 80 b = target))"

definition read_comm :: "netfs \<Rightarrow> int \<Rightarrow> string" where
  "read_comm fs p = (case n_comm fs p of None \<Rightarrow> '''' | Some l \<Rightarrow> trim_right (\<lambda>c. c = CHR 0x0A) (snprintf_s 64 l))"

fun scan_proc :: "netfs \<Rightarrow> string \<Rightarrow> (string \<times> (string \<times> string option) list option) list \<Rightarrow> i32 \<times> string" where
  "scan_proc fs target [] = (0, '''')"
| "scan_proc fs target ((nm, fds) # ds) =
     (let (p, rest, _) = strtol10 nm
      in if rest \<noteq> [] \<or> p \<le> 0 then scan_proc fs target ds
         else case fds of None \<Rightarrow> scan_proc fs target ds
         | Some l \<Rightarrow> if list_ex (fd_matches target) l then (of_int p, read_comm fs p) else scan_proc fs target ds)"

definition inode_to_pid :: "netfs \<Rightarrow> nat \<Rightarrow> i32 \<times> string" where
  "inode_to_pid fs ino = scan_proc fs (snprintf_s 64 (''socket:['' @ dec_nat ino @ '']'')) (n_proc fs)"

subsection \<open>Local addresses\<close>

definition MAX_LOCAL_IPS :: nat where "MAX_LOCAL_IPS = 256"

fun local_loop :: "byte list list \<Rightarrow> string list \<Rightarrow> string list" where
  "local_loop [] ips = ips"
| "local_loop (a # as) ips =
     (if length a \<noteq> 4 \<and> length a \<noteq> 16 then local_loop as ips
      else if length ips \<ge> MAX_LOCAL_IPS then ips
      else let s = ip_str a in if list_ex (\<lambda>x. x = s) ips then local_loop as ips else local_loop as (ips @ [s]))"

definition init_local_ips :: "netfs \<Rightarrow> string list" where
  "init_local_ips fs = local_loop (n_ifaddrs fs) []"

definition is_local_ip :: "string list \<Rightarrow> byte list \<Rightarrow> bool" where
  "is_local_ip ips ip = list_ex (\<lambda>x. x = ip_str ip) ips"

definition find_pid_and_dir :: "netfs \<Rightarrow> string list \<Rightarrow> conn_tuple \<Rightarrow> i32 \<times> string \<times> direction" where
  "find_pid_and_dir fs ips orig =
     (let (d, ino) = find_inode_with_dir fs orig
      in if ino = 0 then
           (0, '''', if is_local_ip ips (dst_ip orig) then DIR_INBOUND
                     else if is_local_ip ips (src_ip orig) then DIR_OUTBOUND else d)
         else let (p, c) = inode_to_pid fs ino in (p, c, d))"

subsection \<open>Ancestry\<close>

definition net_stat_ppid :: "netfs \<Rightarrow> i32 \<Rightarrow> i32" where
  "net_stat_ppid fs p =
     (case n_stat fs p of None \<Rightarrow> - 1
      | Some d \<Rightarrow>
          let data = take 8191 d
          in case strrchr data (CHR '')'') of None \<Rightarrow> - 1
             | Some i \<Rightarrow>
                 let rest = dropWhile (\<lambda>c. c = CHR '' '') (takeWhile (\<lambda>c. c \<noteq> CHR 0x00) (drop (i + 1) data));
                     toks = strtok ('' '' @ [CHR 0x09, CHR 0x0A]) rest
                 in if length toks < 2 then - 1
                    else let (v, left, _) = strtol10 (toks ! 1)
                         in if left = toks ! 1 then - 1 else of_int v)"

function desc_loop :: "netfs \<Rightarrow> i32 list \<Rightarrow> i32 \<Rightarrow> i32 list \<Rightarrow> bool" where
  "desc_loop fs watch p seen =
     (if sint p > 1 then
        (if list_ex (\<lambda>q. q = p) seen then False
         else if length seen < 256 then
           (let ppid = net_stat_ppid fs p
            in if sint ppid \<le> 0 then False
               else if list_ex (\<lambda>w. ppid = w) watch then True
               else desc_loop fs watch ppid (seen @ [p]))
         else False)
      else False)"
  by pat_completeness auto
termination
  by (relation "measure (\<lambda>(fs, watch, p, seen). 256 - length seen)") auto

declare desc_loop.simps [simp del]

definition is_descendant :: "netfs \<Rightarrow> i32 list \<Rightarrow> i32 \<Rightarrow> bool" where
  "is_descendant fs watch p = desc_loop fs watch p []"

definition is_watched :: "netfs \<Rightarrow> i32 list \<Rightarrow> i32 \<Rightarrow> bool" where
  "is_watched fs watch p =
     (if sint p \<le> 0 then False else if list_ex (\<lambda>w. p = w) watch then True else is_descendant fs watch p)"

definition proc_user :: "netfs \<Rightarrow> i32 \<Rightarrow> string" where
  "proc_user fs p =
     (case n_owner fs p of None \<Rightarrow> ''?''
      | Some u \<Rightarrow> (case n_user fs u of None \<Rightarrow> snprintf_s 16 (dec_nat (unat u)) | Some nm \<Rightarrow> snprintf_s 256 nm))"

section \<open>Ancestry\<close>

text \<open>\<open>descends fs watch p n\<close>: the \<open>n\<close>-th ancestor of \<open>p\<close> is the first watched one.\<close>

inductive descends :: "netfs \<Rightarrow> i32 list \<Rightarrow> i32 \<Rightarrow> nat \<Rightarrow> bool" for fs watch where
  parent: "1 < sint p \<Longrightarrow> 0 < sint (net_stat_ppid fs p) \<Longrightarrow> net_stat_ppid fs p \<in> set watch \<Longrightarrow> descends fs watch p 1"
| ancestor: "1 < sint p \<Longrightarrow> 0 < sint (net_stat_ppid fs p) \<Longrightarrow> net_stat_ppid fs p \<notin> set watch \<Longrightarrow>
    descends fs watch (net_stat_ppid fs p) n \<Longrightarrow> descends fs watch p (Suc n)"

inductive_simps descends_iff: "descends fs watch p n"

lemma descends_unique: "descends fs watch p n \<Longrightarrow> descends fs watch p m \<Longrightarrow> n = m"
proof (induction arbitrary: m rule: descends.induct)
  case (parent p)
  from parent.prems show ?case by (cases rule: descends.cases) (use parent.hyps in auto)
next
  case (ancestor p n)
  from ancestor.prems obtain k where "m = Suc k" "descends fs watch (net_stat_ppid fs p) k"
    by (cases rule: descends.cases) (use ancestor.hyps in auto)
  then show ?case using ancestor.IH by simp
qed

lemma desc_loop_sound: "desc_loop fs watch p seen \<Longrightarrow> \<exists>n. descends fs watch p n \<and> n + length seen \<le> 256"
proof (induction fs watch p seen rule: desc_loop.induct)
  case (1 fs watch p seen)
  let ?q = "net_stat_ppid fs p"
  from 1(2) have c: "1 < sint p" "p \<notin> set seen" "length seen < 256" "0 < sint ?q"
    "?q \<in> set watch \<or> desc_loop fs watch ?q (seen @ [p])"
    unfolding desc_loop.simps [of fs watch p seen] by (simp_all add: list_ex_iff Let_def not_le split: if_splits)
  show ?case
  proof (cases "?q \<in> set watch")
    case True
    then show ?thesis using c descends.parent by (intro exI [of _ 1]) auto
  next
    case False
    then have "desc_loop fs watch ?q (seen @ [p])" using c(5) by blast
    then obtain n where "descends fs watch ?q n" "n + length (seen @ [p]) \<le> 256"
      using 1(1) c False by (auto simp: list_ex_iff not_le)
    then show ?thesis using descends.ancestor [OF c(1,4) False] by (intro exI [of _ "Suc n"]) auto
  qed
qed

lemma desc_loop_complete:
  "descends fs watch p n \<Longrightarrow> n + length seen \<le> 256 \<Longrightarrow> (\<And>s. s \<in> set seen \<Longrightarrow> \<exists>m > n. descends fs watch s m) \<Longrightarrow>
   desc_loop fs watch p seen"
proof (induction arbitrary: seen rule: descends.induct)
  case (parent p)
  have "p \<notin> set seen" using parent.prems(2) descends.parent [OF parent.hyps] descends_unique by fastforce
  then show ?case using parent by (subst desc_loop.simps) (auto simp: list_ex_iff Let_def)
next
  case (ancestor p n)
  have p: "descends fs watch p (Suc n)" using ancestor.hyps by (rule descends.ancestor)
  have "p \<notin> set seen" using ancestor.prems(2) p descends_unique by fastforce
  moreover have "desc_loop fs watch (net_stat_ppid fs p) (seen @ [p])"
    by (rule ancestor.IH) (use ancestor.prems p in \<open>auto dest: Suc_lessD\<close>)
  ultimately show ?case using ancestor.hyps ancestor.prems(1)
    by (subst desc_loop.simps) (auto simp: list_ex_iff Let_def)
qed

lemma is_descendant_iff: "is_descendant fs watch p \<longleftrightarrow> (\<exists>n \<le> 256. descends fs watch p n)"
  using desc_loop_sound [of fs watch p "[]"] desc_loop_complete [of fs watch p _ "[]"]
  by (auto simp: is_descendant_def)

section \<open>Socket tables\<close>

lemma match_entries_Some:
  "match_entries orig es = Some (d, i) \<Longrightarrow> i \<noteq> 0 \<and> (\<exists>e \<in> set es. inode e = i \<and>
     (d = DIR_OUTBOUND \<and> owns_source orig e \<or> d = DIR_INBOUND \<and> owns_destination orig e))"
  by (induction es) (auto split: if_splits)

lemma match_entries_None:
  "match_entries orig es = None \<longleftrightarrow> (\<forall>e \<in> set es. inode e \<noteq> 0 \<longrightarrow> \<not> owns_source orig e \<and> \<not> owns_destination orig e)"
  by (induction es) auto

lemma match_local_Some:
  "match_local orig es = Some (d, i) \<Longrightarrow> i \<noteq> 0 \<and> d = DIR_OUTBOUND \<and>
     (\<exists>e \<in> set es. inode e = i \<and> local_ip e = src_ip orig \<and> local_port e = src_port orig)"
  by (induction es) (auto simp: ips_eq_def split: if_splits)

definition socket_files :: "conn_tuple \<Rightarrow> string set" where
  "socket_files orig = (if proto orig = 6 then {''/proc/net/tcp'', ''/proc/net/tcp6''}
     else if proto orig = 17 then {''/proc/net/udp'', ''/proc/net/udp6''} else {})"

text \<open>What makes a socket the one of a connection: it owns both ends of the flow, as the source or as the destination, or,
  for UDP, it is bound to the source and not connected anywhere in particular.\<close>

definition side_of :: "conn_tuple \<Rightarrow> direction \<Rightarrow> proc_entry \<Rightarrow> bool" where
  "side_of orig d e \<longleftrightarrow>
     d = DIR_OUTBOUND \<and> (owns_source orig e \<or> proto orig = 17 \<and> local_ip e = src_ip orig \<and> local_port e = src_port orig)
     \<or> d = DIR_INBOUND \<and> owns_destination orig e"

definition table_entries :: "netfs \<Rightarrow> string set \<Rightarrow> proc_entry set" where
  "table_entries fs files = (\<Union>f \<in> files. set (read_proc_net_file fs f MAX_PROC_ENTRIES))"

lemma match_local_None:
  "match_local orig es = None \<longleftrightarrow> (\<forall>e \<in> set es. inode e \<noteq> 0 \<longrightarrow> \<not> (local_ip e = src_ip orig \<and> local_port e = src_port orig))"
  by (induction es) (auto simp: ips_eq_def)

lemma match_files_sound:
  "match_files fs orig files = (d, i) \<Longrightarrow>
   i \<noteq> 0 \<and> (\<exists>e \<in> table_entries fs (set files). inode e = i \<and> side_of orig d e) \<or>
   i = 0 \<and> d = DIR_UNKNOWN \<and> (\<forall>e \<in> table_entries fs (set files). inode e \<noteq> 0 \<longrightarrow> (\<forall>d'. \<not> side_of orig d' e))"
proof (induction files)
  case Nil
  then show ?case by (simp add: table_entries_def)
next
  case (Cons f files)
  let ?es = "read_proc_net_file fs f MAX_PROC_ENTRIES"
  have all: "table_entries fs (set (f # files)) = set ?es \<union> table_entries fs (set files)" by (simp add: table_entries_def)
  show ?case
  proof (cases "match_entries orig ?es")
    case (Some r)
    then have "(d, i) = r" using Cons.prems by simp
    then show ?thesis unfolding all using match_entries_Some [of orig ?es d i] Some by (auto simp: side_of_def)
  next
    case None
    show ?thesis
    proof (cases "if proto orig = 17 then match_local orig ?es else None")
      case (Some r)
      then have r: "(d, i) = r" "proto orig = 17" using Cons.prems None by (auto split: if_splits)
      then show ?thesis unfolding all using match_local_Some [of orig ?es d i] Some by (auto simp: side_of_def)
    next
      case none: None
      then have "match_files fs orig files = (d, i)" using Cons.prems None by simp
      moreover have "\<forall>e \<in> set ?es. inode e \<noteq> 0 \<longrightarrow> (\<forall>d'. \<not> side_of orig d' e)"
        using None none by (auto simp: match_entries_None match_local_None side_of_def split: if_splits)
      ultimately show ?thesis unfolding all using Cons.IH by (fastforce simp: side_of_def)
    qed
  qed
qed

section \<open>The kernel's lines\<close>

definition udigit :: "nat \<Rightarrow> char" where
  "udigit n = (if n < 10 then char_of (48 + n) else char_of (55 + n))"

definition hex2 :: "byte \<Rightarrow> string" where
  "hex2 b = [udigit (unat b div 16), udigit (unat b mod 16)]"

definition hex_u32 :: "byte list \<Rightarrow> string" where
  "hex_u32 w = hex2 (w ! 3) @ hex2 (w ! 2) @ hex2 (w ! 1) @ hex2 (w ! 0)"

definition kernel_ip :: "byte list \<Rightarrow> string" where
  "kernel_ip ip = (if length ip = 4 then hex_u32 ip
     else hex_u32 (take 4 ip) @ hex_u32 (take 4 (drop 4 ip)) @ hex_u32 (take 4 (drop 8 ip)) @ hex_u32 (drop 12 ip))"

definition kernel_port :: "u16 \<Rightarrow> string" where
  "kernel_port p = hex2 (ucast (drop_bit 8 p)) @ hex2 (ucast p)"

lemma of_char_udigit: "n < 16 \<Longrightarrow> (of_char (udigit n) :: nat) = (if n < 10 then 48 + n else 55 + n)"
  by (simp add: udigit_def)

lemma hex_val_udigit [simp]: "n < 16 \<Longrightarrow> hex_val (udigit n) = Some n"
  by (simp add: hex_val_def Let_def of_char_udigit)

lemma ishex_udigit [simp]: "n < 16 \<Longrightarrow> ishex (udigit n)"
  by (simp add: ishex_def)

lemma ishex_range: "ishex c \<Longrightarrow> 48 \<le> (of_char c :: nat) \<and> (of_char c :: nat) \<le> 102 \<and> c \<noteq> CHR '':''"
  by (auto simp: ishex_def hex_val_def Let_def split: if_splits)

lemma ishex_plain: "ishex c \<Longrightarrow> \<not> isspace c \<and> c \<noteq> CHR ''-'' \<and> c \<noteq> CHR ''+'' \<and> c \<noteq> CHR ''x'' \<and> c \<noteq> CHR ''X''"
  by (auto simp: ishex_def hex_val_def Let_def isspace_def)

lemma strtoul16_digits:
  assumes "s \<noteq> []" "\<And>c. c \<in> set s \<Longrightarrow> ishex c" "num_of 16 (map (the \<circ> hex_val) s) \<le> 18446744073709551615"
  shows "strtoul16 s = (int (num_of 16 (map (the \<circ> hex_val) s)), [])"
proof -
  obtain a r where s: "s = a # r" using assms(1) by (cases s) auto
  have 1: "dropWhile isspace s = s" "split_sign s = (False, s)" using assms(2) ishex_plain [of a] by (auto simp: s)
  have 2: "skip_0x s = s" using assms(2) ishex_plain by (cases s rule: skip_0x.cases) auto
  have 3: "takeWhile ishex s = s" "dropWhile ishex s = []" using assms(2) by (simp_all add: takeWhile_eq_all_conv)
  show ?thesis
    unfolding strtoul16_def Let_def 1 2 prod.case 3 using assms(1,3) by (simp add: strtoul_value_def ulong_max_def)
qed

lemma nibbles: "unat (b :: byte) div 16 < 16" "unat b mod 16 < 16"
proof -
  show "unat b div 16 < 16" using unat_byte_less [of b] by (intro less_mult_imp_div_less) linarith
qed simp

lemma set_hex2: "c \<in> set (hex2 b) \<Longrightarrow> ishex c"
  using nibbles [of b] by (auto simp: hex2_def)

lemma vals_hex2: "map (the \<circ> hex_val) (hex2 b) = [unat b div 16, unat b mod 16]"
  using nibbles [of b] by (simp add: hex2_def)

lemma num_of_hex2s: "num_of 16 (concat (map (\<lambda>b. [unat b div 16, unat b mod 16]) bs)) = num_of 256 (map unat (bs :: byte list))"
proof (induction bs rule: rev_induct)
  case (snoc b bs)
  have "num_of 16 (xs @ [x, y]) = 256 * num_of 16 xs + (16 * x + y)" for xs x y by (simp add: num_of_def)
  then show ?case using snoc by (simp add: num_of_def)
qed (simp add: num_of_def)

lemma byte_of_nat: "(of_nat (unat b + 256 * k) :: byte) = b"
proof -
  have "(of_nat (256 * k) :: byte) = 256 * of_nat k" by simp
  also have "(256 :: byte) = 0" by simp
  finally show ?thesis by (simp only: of_nat_add mult_zero_left add_0_right of_nat_unat ucast_id)
qed

lemma div_byte: "(unat (a :: byte) + 256 * k) div 256 = k"
proof -
  have "unat a div 256 = 0" using unat_byte_less [of a] by (intro div_less)
  then show ?thesis by simp
qed

lemma low_bytes_unat:
  "low_bytes (int (num_of 256 (map unat [d, c, b, a]))) = [a, b, c, d :: byte]"
proof -
  let ?n = "unat a + 256 * (unat b + 256 * (unat c + 256 * unat d))"
  have n: "num_of 256 (map unat [d, c, b, a]) = ?n" by (simp add: num_of_def)
  have 1: "?n div 256 = unat b + 256 * (unat c + 256 * unat d)" by (rule div_byte)
  have "?n div 65536 = ?n div 256 div 256" by (simp add: div_mult2_eq [symmetric])
  then have 2: "?n div 65536 = unat c + 256 * unat d" unfolding 1 by (simp only: div_byte)
  have "?n div 16777216 = ?n div 65536 div 256" by (simp add: div_mult2_eq [symmetric])
  then have 3: "?n div 16777216 = unat d + 256 * 0" unfolding 2 by (simp only: div_byte)
  have "int ?n div 256 = int (?n div 256)" "int ?n div 65536 = int (?n div 65536)" "int ?n div 16777216 = int (?n div 16777216)"
    by (simp_all only: zdiv_int of_nat_numeral)
  then show ?thesis unfolding low_bytes_def n
    by (simp only: 1 2 3 of_int_of_nat_eq byte_of_nat)
qed

lemma strtoul16_word:
  assumes "length w = 4"
  shows "strtoul16 (hex_u32 w) = (int (num_of 256 (map unat [w ! 3, w ! 2, w ! 1, w ! 0])), [])"
proof -
  have v: "map (the \<circ> hex_val) (hex_u32 w) = concat (map (\<lambda>b. [unat b div 16, unat b mod 16]) [w ! 3, w ! 2, w ! 1, w ! 0])"
    unfolding hex_u32_def map_append vals_hex2 by simp
  have "16777216 * unat (w ! 3) + 65536 * unat (w ! 2) + 256 * unat (w ! Suc 0) + unat (w ! 0) \<le> 18446744073709551615"
    using unat_byte_less [of "w ! 3"] unat_byte_less [of "w ! 2"] unat_byte_less [of "w ! Suc 0"] unat_byte_less [of "w ! 0"]
    by linarith
  then have "num_of 256 (map unat [w ! 3, w ! 2, w ! 1, w ! 0]) \<le> 18446744073709551615" by (simp add: num_of_def)
  then show ?thesis using strtoul16_digits [of "hex_u32 w"] set_hex2
    by (simp only: v num_of_hex2s) (auto simp: hex_u32_def hex2_def)
qed

lemma list4: "length w = 4 \<Longrightarrow> [w ! 0, w ! 1, w ! 2, w ! 3] = w"
  by (simp add: list_eq_iff_nth_eq less_Suc_eq numeral_eq_Suc)

lemma hex_word_kernel: "length w = 4 \<Longrightarrow> hex_word (hex_u32 w) = Some w"
  using strtoul16_word [of w] low_bytes_unat [of "w ! 3" "w ! 2" "w ! 1" "w ! 0"] list4 [of w]
  by (simp only: hex_word_def Let_def prod.case) simp

lemma length_hex_u32 [simp]: "length (hex_u32 w) = 8"
  by (simp add: hex_u32_def hex2_def)

lemma parse_hex_ipv4_kernel: "length ip = 4 \<Longrightarrow> parse_hex_ipv4 (kernel_ip ip) = Some ip"
  using hex_word_kernel [of ip] by (simp add: parse_hex_ipv4_def kernel_ip_def hex_word_def)

lemma parse_hex_ipv6_kernel: "length ip = 16 \<Longrightarrow> parse_hex_ipv6 (kernel_ip ip) = Some ip"
proof -
  assume l: "length ip = 16"
  have "take 4 ip @ take 4 (drop 4 ip) @ take 4 (drop 8 ip) @ drop 12 ip = ip"
    using append_take_drop_id [of 4 ip] append_take_drop_id [of 4 "drop 4 ip"] append_take_drop_id [of 4 "drop 8 ip"]
    by (simp only: drop_drop) simp
  then show ?thesis
    using l hex_word_kernel [of "take 4 ip"] hex_word_kernel [of "take 4 (drop 4 ip)"]
      hex_word_kernel [of "take 4 (drop 8 ip)"] hex_word_kernel [of "drop 12 ip"]
    by (simp add: parse_hex_ipv6_def kernel_ip_def)
qed

lemma strtoul16_kernel_port: "strtoul16 (kernel_port p) = (int (unat p), [])"
proof -
  let ?h = "ucast (drop_bit 8 p) :: byte" and ?l = "ucast p :: byte"
  have v: "map (the \<circ> hex_val) (kernel_port p) = concat (map (\<lambda>b. [unat b div 16, unat b mod 16]) [?h, ?l])"
    unfolding kernel_port_def map_append vals_hex2 by simp
  have "be16 ?h ?l = p" by simp
  then have n: "num_of 256 (map unat [?h, ?l]) = unat p" using unat_be16 [of ?h ?l] by (simp add: num_of_def)
  have s: "strtoul16 (kernel_port p) = (int (num_of 16 (map (the \<circ> hex_val) (kernel_port p))), [])"
  proof (rule strtoul16_digits)
    show "kernel_port p \<noteq> []" by (simp add: kernel_port_def hex2_def)
    show "ishex c" if "c \<in> set (kernel_port p)" for c using that set_hex2 by (auto simp: kernel_port_def)
    show "num_of 16 (map (the \<circ> hex_val) (kernel_port p)) \<le> 18446744073709551615"
      unfolding v num_of_hex2s n using unat_u16_less [of p] by linarith
  qed
  show ?thesis unfolding s v num_of_hex2s n ..
qed

lemma parse_hex_port_kernel: "parse_hex_port (kernel_port p) = p"
  by (simp add: parse_hex_port_def strtoul16_kernel_port)

definition entry_ok :: "proc_entry \<Rightarrow> bool" where
  "entry_ok e \<longleftrightarrow> length (local_ip e) = length (remote_ip e) \<and> (length (local_ip e) = 4 \<or> length (local_ip e) = 16)
     \<and> inode e \<le> 18446744073709551615"

definition word_token :: "string \<Rightarrow> bool" where
  "word_token t \<longleftrightarrow> t \<noteq> '''' \<and> (\<forall>c \<in> set t. c \<notin> {CHR '' '', CHR 0x09, CHR 0x0A})"

text \<open>
  The line of a socket: columns separated by a blank, some of them right-aligned in a minimal width, the whole padded
  with blanks and ended by a newline. \<open>sw\<close> is the width of the slot number (5 for UDP, 4 for TCP) and \<open>lw\<close> the width
  the line is padded to (127 for UDP, 149 for TCP, 0 for the IPv6 tables). Behind the inode come words the tracer does
  not read (reference count, kernel address, drops).
\<close>

record sock_row =
  w_slot :: nat
  w_state :: byte
  w_tx :: u32
  w_rx :: u32
  w_timer :: byte
  w_when :: u32
  w_retr :: u32
  w_uid :: nat
  w_timeout :: nat
  w_rest :: "string list"

definition hex8 :: "u32 \<Rightarrow> string" where
  "hex8 v = hex2 (ucast (drop_bit 24 v)) @ hex2 (ucast (drop_bit 16 v)) @ hex2 (ucast (drop_bit 8 v)) @ hex2 (ucast v)"

definition kernel_end :: "byte list \<Rightarrow> u16 \<Rightarrow> string" where
  "kernel_end ip p = kernel_ip ip @ '':'' @ kernel_port p"

definition kernel_columns :: "nat \<Rightarrow> sock_row \<Rightarrow> proc_entry \<Rightarrow> (nat \<times> string) list" where
  "kernel_columns sw w e =
     [(Suc sw, dec_nat (w_slot w) @ '':''), (0, kernel_end (local_ip e) (local_port e)), (0, kernel_end (remote_ip e) (remote_port e)),
      (0, hex2 (w_state w)), (0, hex8 (w_tx w) @ '':'' @ hex8 (w_rx w)), (0, hex2 (w_timer w) @ '':'' @ hex8 (w_when w)),
      (0, hex8 (w_retr w)), (5, dec_nat (w_uid w)), (8, dec_nat (w_timeout w)), (0, dec_nat (inode e))]
     @ map (Pair 0) (w_rest w)"

definition blank_columns :: "(nat \<times> string) list \<Rightarrow> string" where
  "blank_columns cs = concat (map (\<lambda>(n, t). '' '' @ pad_left n t) cs)"

definition kernel_line :: "nat \<Rightarrow> nat \<Rightarrow> sock_row \<Rightarrow> proc_entry \<Rightarrow> string" where
  "kernel_line sw lw w e = (let s = tl (blank_columns (kernel_columns sw w e)) in s @ replicate (lw - length s) CHR '' '' @ NL)"

lemma strtok_all_delims: "(\<And>c. c \<in> set s \<Longrightarrow> c \<in> set ds) \<Longrightarrow> strtok ds s = []"
  by (induction s) (simp_all add: strtok_def)

lemma strtok_blanks: "strtok ('' '' @ ds) (replicate k CHR '' '' @ s) = strtok ('' '' @ ds) s"
  by (induction k) simp_all

lemma strtok_columns:
  assumes "\<And>n t. (n, t) \<in> set cs \<Longrightarrow> word_token t" "behind \<noteq> []" "\<And>c. c \<in> set behind \<Longrightarrow> c \<in> {CHR '' '', CHR 0x09, CHR 0x0A}"
  shows "strtok ('' '' @ [CHR 0x09, CHR 0x0A]) (blank_columns cs @ behind) = map snd cs"
  using assms(1)
proof (induction cs)
  case Nil
  show ?case using assms(3) by (simp add: blank_columns_def) (rule strtok_all_delims, auto)
next
  case (Cons x cs)
  obtain n t where x: "x = (n, t)" by (cases x)
  let ?ds = "'' '' @ [CHR 0x09, CHR 0x0A]"
  have t: "t \<noteq> []" "\<And>c. c \<in> set t \<Longrightarrow> c \<notin> set ?ds" using Cons.prems x by (auto simp: word_token_def)
  have "\<exists>d s. blank_columns cs @ behind = d # s \<and> d \<in> set ?ds"
  proof (cases cs)
    case Nil
    then show ?thesis using assms(2,3) by (cases behind) (auto simp: blank_columns_def)
  qed (auto simp: blank_columns_def split: prod.splits)
  then obtain d s where d: "blank_columns cs @ behind = d # s" "d \<in> set ?ds" by blast
  have "strtok ?ds (blank_columns (x # cs) @ behind) = strtok ?ds (t @ d # s)"
    using strtok_blanks [of "[CHR 0x09, CHR 0x0A]" "Suc (n - length t)" "t @ d # s"]
    by (simp add: x blank_columns_def pad_left_def flip: d(1))
  also have "\<dots> = t # strtok ?ds (blank_columns cs @ behind)" unfolding d(1) using strtok_token [OF t d(2)] strtok_delim [OF d(2)] by simp
  finally have "strtok ?ds (blank_columns (x # cs) @ behind) = t # strtok ?ds (blank_columns cs @ behind)" .
  moreover have "strtok ?ds (blank_columns cs @ behind) = map snd cs" using Cons.prems by (intro Cons.IH) auto
  ultimately show ?case by (simp only: x list.map snd_conv)
qed

lemma kernel_ip_hex: "c \<in> set (kernel_ip ip) \<Longrightarrow> ishex c"
  by (auto simp: kernel_ip_def hex_u32_def split: if_splits dest: set_hex2)

lemma kernel_port_hex: "c \<in> set (kernel_port p) \<Longrightarrow> ishex c"
  by (auto simp: kernel_port_def dest: set_hex2)

lemma hex_token: "(\<And>c. c \<in> set t \<Longrightarrow> ishex c \<or> c = CHR '':'') \<Longrightarrow> t \<noteq> '''' \<Longrightarrow> word_token t"
  using ishex_plain by (fastforce simp: word_token_def isspace_def)

lemma length_kernel_ip: "length ip = 4 \<or> length ip = 16 \<Longrightarrow> length (kernel_ip ip) = 2 * length ip"
  by (auto simp: kernel_ip_def)

lemma dec_nat_token: "word_token (dec_nat n)" "word_token (dec_nat n @ '':'')"
  using dec_nat_digits isdigit_not_space by (fastforce simp: word_token_def isspace_def)+

lemma kernel_end_token: "word_token (kernel_end ip p)"
  unfolding kernel_end_def by (rule hex_token; use kernel_ip_hex kernel_port_hex in fastforce)

lemma set_hex8: "c \<in> set (hex8 v) \<Longrightarrow> ishex c"
  by (auto simp: hex8_def dest: set_hex2)

lemma kernel_columns_tokens:
  "(\<And>t. t \<in> set (w_rest w) \<Longrightarrow> word_token t) \<Longrightarrow> (n, t) \<in> set (kernel_columns sw w e) \<Longrightarrow> word_token t"
proof -
  have ne: "hex2 b \<noteq> ''''" "hex8 v \<noteq> ''''" for b v by (simp_all add: hex2_def hex8_def)
  have "word_token (hex2 b)" for b using set_hex2 ne by (intro hex_token) auto
  moreover have "word_token (hex8 v)" for v using set_hex8 ne by (intro hex_token) auto
  moreover have "word_token (hex8 v @ '':'' @ hex8 v')" for v v' using set_hex8 by (intro hex_token) auto
  moreover have "word_token (hex2 b @ '':'' @ hex8 v)" for b v using set_hex2 set_hex8 by (intro hex_token) auto
  ultimately show "(\<And>t. t \<in> set (w_rest w) \<Longrightarrow> word_token t) \<Longrightarrow> (n, t) \<in> set (kernel_columns sw w e) \<Longrightarrow> word_token t"
    unfolding kernel_columns_def using dec_nat_token kernel_end_token by auto
qed

lemma kernel_line_words:
  assumes "\<And>t. t \<in> set (w_rest w) \<Longrightarrow> word_token t"
  shows "strtok ('' '' @ [CHR 0x09, CHR 0x0A]) (kernel_line sw lw w e) = map snd (kernel_columns sw w e)"
proof -
  let ?ds = "'' '' @ [CHR 0x09, CHR 0x0A]" and ?cs = "kernel_columns sw w e"
  obtain s where s: "blank_columns ?cs = CHR '' '' # s" by (simp add: blank_columns_def kernel_columns_def)
  have "strtok ?ds (kernel_line sw lw w e) = strtok ?ds (blank_columns ?cs @ (replicate (lw - length s) CHR '' '' @ NL))"
    unfolding kernel_line_def Let_def s by simp
  also have "\<dots> = map snd ?cs"
    using kernel_columns_tokens [OF assms] by (intro strtok_columns) auto
  finally show ?thesis .
qed

lemma proc_line_kernel:
  assumes e: "entry_ok e" and rest: "\<And>t. t \<in> set (w_rest w) \<Longrightarrow> word_token t"
  shows "proc_line (kernel_line sw lw w e) = Some e"
proof -
  let ?la = "kernel_ip (local_ip e) @ '':'' @ kernel_port (local_port e)"
  let ?ra = "kernel_ip (remote_ip e) @ '':'' @ kernel_port (remote_port e)"
  have tok: "strtok ('' '' @ [CHR 0x09, CHR 0x0A]) (kernel_line sw lw w e) = map snd (kernel_columns sw w e)"
    using rest by (rule kernel_line_words)
  define fields where "fields = take 16 (map snd (kernel_columns sw w e))"
  have f: "fields ! 1 = ?la" "fields ! 2 = ?ra" "\<not> length fields < 10" "fields ! 9 = dec_nat (inode e)"
    by (simp_all add: fields_def kernel_columns_def kernel_end_def)
  have colon: "CHR '':'' \<notin> set (kernel_ip ip)" for ip using kernel_ip_hex ishex_range by blast
  then have c: "strchr ?la (CHR '':'') = Some (length (kernel_ip (local_ip e)))"
    "strchr ?ra (CHR '':'') = Some (length (kernel_ip (remote_ip e)))"
    using strchr_append by simp_all
  have ips: "(if length (kernel_ip (local_ip e)) = 8 then (parse_hex_ipv4 (kernel_ip (local_ip e)), parse_hex_ipv4 (kernel_ip (remote_ip e)))
      else if length (kernel_ip (local_ip e)) = 32 then (parse_hex_ipv6 (kernel_ip (local_ip e)), parse_hex_ipv6 (kernel_ip (remote_ip e)))
      else (None, None)) = (Some (local_ip e), Some (remote_ip e))"
    using e parse_hex_ipv4_kernel parse_hex_ipv6_kernel length_kernel_ip [of "local_ip e"] by (auto simp: entry_ok_def)
  have ino: "strtoul10 (dec_nat (inode e)) = (int (inode e), [])" using e by (intro strtoul10_dec_nat) (simp add: entry_ok_def)
  have cut: "take (length x) (x @ '':'' @ y) = x" "drop (length x + 1) (x @ '':'' @ y) = y" for x y :: string
    by simp_all
  have "\<lparr>local_ip = local_ip e, local_port = local_port e, remote_ip = remote_ip e, remote_port = remote_port e,
      inode = nat (int (inode e))\<rparr> = e" by simp
  then show ?thesis
    unfolding proc_line_def tok fields_def [symmetric] Let_def f(1,2,4) c
    by (simp only: f(3) if_False prod.case option.case cut ips ino parse_hex_port_kernel fst_conv)
qed

section \<open>Claims\<close>

text \<open>
  C18. A line of \<^verbatim>\<open>/proc/net/{tcp,udp}{,6}\<close> as the kernel prints it, with padded columns, the addresses as
  little-endian hexadecimal words, IPv4 or IPv6, any columns behind the inode and the newline, is read back into its
  addresses, ports and inode.
\<close>

theorem socket_line_read_back:
  assumes "entry_ok e" "\<And>t. t \<in> set (w_rest w) \<Longrightarrow> word_token t"
  shows "proc_line (kernel_line sw lw w e) = Some e"
  by (rule proc_line_kernel [OF assms])

definition sample_entry :: proc_entry where
  "sample_entry = \<lparr>local_ip = [127, 0, 0, 1], local_port = 53, remote_ip = [0, 0, 0, 0], remote_port = 0, inode = 4711\<rparr>"

definition sample_row :: sock_row where
  "sample_row = \<lparr>w_slot = 77, w_state = 7, w_tx = 0, w_rx = 0, w_timer = 0, w_when = 0, w_retr = 0, w_uid = 101, w_timeout = 0,
     w_rest = [''2'', ''0000000000000000'', ''0'']\<rparr>"

definition sample_line :: string where
  "sample_line = kernel_line 5 127 sample_row sample_entry"

text \<open>It is the line of a resolver that listens at the local address.\<close>

lemma sample_line_text:
  "sample_line = ''   77: 0100007F:0035 00000000:0000 07 00000000:00000000 00:00000000 00000000   101        0 4711 2 0000000000000000 0''
     @ replicate 10 CHR '' '' @ NL"
  by (simp add: sample_line_def kernel_line_def Let_def blank_columns_def kernel_columns_def sample_row_def sample_entry_def
      kernel_end_def kernel_ip_def kernel_port_def hex_u32_def hex8_def hex2_def udigit_def pad_left_def show_base.simps digit_char_def char_of_def bit_0)
    (simp add: numeral_eq_Suc)

theorem socket_line_read_back_witness: "proc_line sample_line = Some sample_entry"
  unfolding sample_line_def
  by (rule socket_line_read_back) (auto simp: entry_ok_def sample_entry_def sample_row_def word_token_def)

text \<open>
  C26. The direction of a connection: a socket that is found exists in the tables of its protocol and
  owns the source side (outbound) or the destination side (inbound), a UDP socket possibly by its
  local address alone; and when none is found, no socket with an inode in those tables is one of the connection
  in any of these ways, the local address of a UDP socket included.
\<close>

theorem direction_justified:
  assumes "find_inode_with_dir fs orig = (d, i)"
  shows "i \<noteq> 0 \<and> (\<exists>e \<in> table_entries fs (socket_files orig). inode e = i \<and> side_of orig d e) \<or>
    i = 0 \<and> d = DIR_UNKNOWN \<and> (\<forall>e \<in> table_entries fs (socket_files orig). inode e \<noteq> 0 \<longrightarrow> (\<forall>d'. \<not> side_of orig d' e))"
  using assms match_files_sound [of fs orig "[''/proc/net/tcp'', ''/proc/net/tcp6'']" d i]
    match_files_sound [of fs orig "[''/proc/net/udp'', ''/proc/net/udp6'']" d i]
  by (auto simp: find_inode_with_dir_def socket_files_def table_entries_def split: if_splits)

definition sample_net :: netfs where
  "sample_net = \<lparr>n_file = (\<lambda>f. if f = ''/proc/net/udp''
       then Some [''  sl local'', sample_line] else None),
     n_proc = [], n_comm = (\<lambda>_. None),
     n_stat = (\<lambda>p. if p = 42 then Some ''42 (x) S 17 0'' else if p = 17 then Some ''17 (y) S 5 0'' else None),
     n_owner = (\<lambda>_. None), n_user = (\<lambda>_. None), n_ifaddrs = [], n_mono = (0, 0)\<rparr>"

definition sample_conn :: conn_tuple where
  "sample_conn = \<lparr>src_ip = [127, 0, 0, 1], dst_ip = [8, 8, 8, 8], src_port = 53, dst_port = 53, proto = 17\<rparr>"

theorem direction_justified_witness:
  "find_inode_with_dir sample_net sample_conn = (DIR_OUTBOUND, 4711) \<and>
   (\<exists>e \<in> table_entries sample_net (socket_files sample_conn). inode e = 4711 \<and> side_of sample_conn DIR_OUTBOUND e)"
proof -
  have "proc_line sample_line = Some sample_entry"
    unfolding sample_line_def
    by (rule proc_line_kernel) (auto simp: entry_ok_def sample_entry_def sample_row_def word_token_def)
  then have "read_proc_net_file sample_net ''/proc/net/udp'' MAX_PROC_ENTRIES = [sample_entry]"
    by (simp add: read_proc_net_file_def sample_net_def List.map_filter_def MAX_PROC_ENTRIES_def)
  moreover have "match_entries sample_conn [sample_entry] = None"
    by (simp add: sample_conn_def sample_entry_def owns_source_def owns_destination_def ips_eq_def)
  moreover have "match_local sample_conn [sample_entry] = Some (DIR_OUTBOUND, 4711)"
    by (simp add: sample_conn_def sample_entry_def ips_eq_def)
  moreover have "proto sample_conn = 17" by (simp add: sample_conn_def)
  ultimately have "find_inode_with_dir sample_net sample_conn = (DIR_OUTBOUND, 4711)"
    by (simp add: find_inode_with_dir_def Let_def)
  with direction_justified [OF this] show ?thesis by simp
qed

text \<open>
  C25. \<^verbatim>\<open>is_watched\<close> decides whether a process is watched or one of its first 256 ancestors is, walking
  only over real processes; it always answers, also when the parents form a cycle.
\<close>

theorem is_watched_decides:
  "is_watched fs watch p \<longleftrightarrow> 0 < sint p \<and> (p \<in> set watch \<or> (\<exists>n \<le> 256. descends fs watch p n))"
  by (auto simp: is_watched_def is_descendant_iff list_ex_iff)

end
