(* ===== verification/Scan.thy ===== *)
theory Scan
  imports CLib
begin

text \<open>
  \<^verbatim>\<open>sscanf\<close> as \<^verbatim>\<open>src/c/dns.c\<close> (socket tables) and \<^verbatim>\<open>src/c/ca.c\<close> (the status line of a response) use it.
\<close>

text \<open>The conversions the code uses: white space, a character, \<^verbatim>\<open>%*d\<close>, \<^verbatim>\<open>%*s\<close>, \<^verbatim>\<open>%Ns\<close> and \<^verbatim>\<open>%ld\<close>. The result is the
  list of the values assigned before the first conversion that fails.\<close>

datatype scan_dir = Blank | Exact char | SkipInt | SkipWord | WordUpTo nat | LongInt

datatype scan_val = AWord string | ALong int

fun sscanf :: "scan_dir list \<Rightarrow> string \<Rightarrow> scan_val list" where
  "sscanf [] s = []"
| "sscanf (Blank # ds) s = sscanf ds (dropWhile isspace s)"
| "sscanf (Exact c # ds) s = (case s of [] \<Rightarrow> [] | x # r \<Rightarrow> if x = c then sscanf ds r else [])"
| "sscanf (SkipInt # ds) s = (let (v, rest, _) = strtol10 s in if rest = s then [] else sscanf ds rest)"
| "sscanf (SkipWord # ds) s =
     (let u = dropWhile isspace s in if u = '''' then [] else sscanf ds (dropWhile (\<lambda>c. \<not> isspace c) u))"
| "sscanf (WordUpTo n # ds) s =
     (let u = dropWhile isspace s; w = take n (takeWhile (\<lambda>c. \<not> isspace c) u)
      in if u = '''' then [] else AWord w # sscanf ds (drop (length w) u))"
| "sscanf (LongInt # ds) s = (let (v, rest, _) = strtol10 s in if rest = s then [] else ALong v # sscanf ds rest)"

end
