(* ===== verification/Dns_Proc.thy ===== *)
theory Dns_Proc
  imports Dns_Codec Net_Proc Net_Mac Scan
begin

text \<open>
  How the DNS tracer (\<^verbatim>\<open>src/c/dns.c\<close>) names the process behind a query: \<^verbatim>\<open>/proc\<close> on Linux, an \<^verbatim>\<open>lsof\<close>
  scan on macOS, and the cache in front of both; and how the macOS capture splits what it reads from
  the packet filter. What the system answers at one moment is the record \<open>dns_host\<close>: a file is the list
  of the lines \<^verbatim>\<open>fgets\<close> returns, a directory the list of its entries with the targets of their links.
\<close>

section \<open>Definitions\<close>

record dns_host =
  d_udp :: "string \<Rightarrow> string list option"
  d_procs :: "(string \<times> (string \<times> string option) list option) list"
  d_comm :: "int \<Rightarrow> string option"
  d_lsof :: "string list option"
  d_now :: "nat \<times> nat"
  d_clock :: string

subsection \<open>A line of the socket table\<close>

definition udp_format :: "scan_dir list" where
  "udp_format = [Blank, SkipInt, Blank, WordUpTo 127, Blank, SkipWord, Blank, SkipWord, Blank, SkipWord, Blank, SkipWord,
     Blank, SkipWord, Blank, SkipWord, Blank, SkipInt, Blank, SkipInt, Blank, LongInt]"

subsection \<open>Linux: from the port to the process\<close>

definition port_hex :: "u16 \<Rightarrow> string" where
  "port_hex p = snprintf_s 8 (zero_pad 4 (map toupper (hex_nat (unat p))))"

fun inode_lines :: "string \<Rightarrow> string list \<Rightarrow> int" where
  "inode_lines want [] = - 1"
| "inode_lines want (line # ls) =
     (case sscanf udp_format line of
        [AWord local, ALong ino] \<Rightarrow>
          (case strrchr local (CHR '':'') of
             Some i \<Rightarrow> if map toupper (drop (i + 1) local) = map toupper want then ino else inode_lines want ls
           | None \<Rightarrow> inode_lines want ls)
      | _ \<Rightarrow> inode_lines want ls)"

definition inode_for_port :: "dns_host \<Rightarrow> u16 \<Rightarrow> string \<Rightarrow> int" where
  "inode_for_port h port path =
     (case d_udp h path of None \<Rightarrow> - 1 | Some ls \<Rightarrow> if ls = [] then - 1 else inode_lines (port_hex port) (tl ls))"

definition comm_for_pid :: "dns_host \<Rightarrow> int \<Rightarrow> nat \<Rightarrow> string" where
  "comm_for_pid h p cap =
     (case d_comm h p of None \<Rightarrow> snprintf_s cap ''?''
      | Some line \<Rightarrow> takeWhile (\<lambda>c. c \<noteq> CHR 0x0A) (take (cap - 1) line))"

text \<open>The walk over \<^verbatim>\<open>/proc\<close>: the process found, 0 if none, and its name.\<close>

fun dns_scan_proc ::
  "dns_host \<Rightarrow> string \<Rightarrow> nat \<Rightarrow> (string \<times> (string \<times> string option) list option) list \<Rightarrow> string \<Rightarrow> int \<times> string" where
  "dns_scan_proc h target cap [] name = (0, name)"
| "dns_scan_proc h target cap ((nm, fds) # ds) name =
     (let (p, rest, _) = strtol10 nm
      in if rest \<noteq> '''' then dns_scan_proc h target cap ds name
         else case fds of None \<Rightarrow> dns_scan_proc h target cap ds name
         | Some l \<Rightarrow>
             if list_ex (\<lambda>(_, link). case link of None \<Rightarrow> False | Some b \<Rightarrow> snprintf_s 64 b = target) l
             then (let found = to_int32 p; name' = comm_for_pid h found cap
                   in if found \<noteq> 0 then (found, name') else dns_scan_proc h target cap ds name')
             else dns_scan_proc h target cap ds name)"

definition linux_pid_for_udp_port :: "dns_host \<Rightarrow> u16 \<Rightarrow> nat \<Rightarrow> int \<times> string" where
  "linux_pid_for_udp_port h port cap =
     (let i4 = inode_for_port h port ''/proc/net/udp'';
          i = (if i4 < 0 then inode_for_port h port ''/proc/net/udp6'' else i4)
      in if i < 0 then (0, snprintf_s cap ''?'')
         else dns_scan_proc h (snprintf_s 40 (''socket:['' @ dec_int i @ '']'')) cap (d_procs h) (snprintf_s cap ''?''))"

subsection \<open>macOS: the lsof map\<close>

record udp_scan =
  u_pid :: int
  u_name :: string
  u_tab :: "nat \<Rightarrow> int \<times> string"

definition udp_scan_start :: udp_scan where
  "udp_scan_start = \<lparr>u_pid = 0, u_name = ''?'', u_tab = \<lambda>_. (0, '''')\<rparr>"

definition udp_name_line :: "string \<Rightarrow> udp_scan \<Rightarrow> udp_scan" where
  "udp_name_line rest st =
     (let body0 = snprintf_s 256 rest;
          body = (case strstr body0 ''->'' of Some i \<Rightarrow> take i body0 | None \<Rightarrow> body0)
      in case strrchr body (CHR '':'') of None \<Rightarrow> st
         | Some i \<Rightarrow>
             let pstr = drop (i + 1) body; port = fst (strtol10 pstr)
             in if pstr \<noteq> '''' \<and> hd pstr = CHR ''*'' then st
                else if port \<le> 0 \<or> port > 65535 then st
                else st\<lparr>u_tab := (u_tab st)(nat port := (u_pid st, snprintf_s 64 (u_name st)))\<rparr>)"

definition udp_scan_line :: "string \<Rightarrow> udp_scan \<Rightarrow> udp_scan" where
  "udp_scan_line line0 st =
     (let line = trim_right (\<lambda>c. c = CHR 0x0A \<or> c = CHR 0x0D) line0
      in if length line < 2 then st
         else let c = hd line; rest = tl line
           in if c = CHR ''p'' then
                (let (v, left, _) = strtol10 rest in if left \<noteq> rest \<and> left = '''' then st\<lparr>u_pid := to_int32 v\<rparr> else st)
              else if c = CHR ''c'' then st\<lparr>u_name := snprintf_s 64 rest\<rparr>
              else if c = CHR ''n'' then udp_name_line rest st
              else st)"

definition mac_scan_udp :: "dns_host \<Rightarrow> nat \<Rightarrow> int \<times> string" where
  "mac_scan_udp h = (case d_lsof h of None \<Rightarrow> (\<lambda>_. (0, '''')) | Some ls \<Rightarrow> u_tab (fold udp_scan_line ls udp_scan_start))"

subsection \<open>The clock and the caches\<close>

definition now_ms :: "dns_host \<Rightarrow> nat \<times> nat" where
  "now_ms h = dbl_add (dbl (fst (dbl_of_nat (fst (d_now h))) * 1000, snd (dbl_of_nat (fst (d_now h)))))
     (dbl_div (dbl_of_nat (snd (d_now h))) 1000000)"

text \<open>\<^verbatim>\<open>x < k\<close> and \<^verbatim>\<open>x > k\<close> for a \<^verbatim>\<open>double\<close> and an integral constant.\<close>

definition dbl_less :: "nat \<times> nat \<Rightarrow> nat \<Rightarrow> bool" where "dbl_less x k \<longleftrightarrow> fst x < k * snd x"
definition dbl_greater :: "nat \<times> nat \<Rightarrow> nat \<Rightarrow> bool" where "dbl_greater x k \<longleftrightarrow> k * snd x < fst x"

datatype dns_os = OsLinux | OsDarwin | OsOther

record cache_ent =
  ce_pid :: int
  ce_name :: string
  ce_born :: "nat \<times> nat"

record proc_caches =
  pcache :: "u16 \<Rightarrow> cache_ent option"          \<comment> \<open>\<open>None\<close> while \<^verbatim>\<open>set\<close> is false\<close>
  mac_udp :: "nat \<Rightarrow> int \<times> string"
  mac_born :: "nat \<times> nat"

definition mac_pid_for_udp_port :: "dns_host \<Rightarrow> u16 \<Rightarrow> nat \<Rightarrow> proc_caches \<Rightarrow> (int \<times> string) \<times> proc_caches" where
  "mac_pid_for_udp_port h port cap pc =
     (let t = now_ms h;
          pc' = (if fst (mac_born pc) = 0 \<or> dbl_greater (dbl_sub0 t (mac_born pc)) 2000
                 then pc\<lparr>mac_udp := mac_scan_udp h, mac_born := t\<rparr> else pc);
          (p, nm) = mac_udp pc' (unat port)
      in (if p > 0 then (p, snprintf_s cap nm) else (0, snprintf_s cap ''?''), pc'))"

definition pid_for_udp_port :: "dns_os \<Rightarrow> dns_host \<Rightarrow> u16 \<Rightarrow> nat \<Rightarrow> proc_caches \<Rightarrow> (int \<times> string) \<times> proc_caches" where
  "pid_for_udp_port os h port cap pc =
     (case os of OsLinux \<Rightarrow> (linux_pid_for_udp_port h port cap, pc)
      | OsDarwin \<Rightarrow> mac_pid_for_udp_port h port cap pc
      | OsOther \<Rightarrow> ((0, snprintf_s cap ''?''), pc))"

definition proc_lookup :: "dns_os \<Rightarrow> dns_host \<Rightarrow> u16 \<Rightarrow> nat \<Rightarrow> proc_caches \<Rightarrow> (int \<times> string) \<times> proc_caches" where
  "proc_lookup os h port cap pc =
     (let t = now_ms h
      in case pcache pc port of
           Some e \<Rightarrow>
             if dbl_less (dbl_sub0 t (ce_born e)) 2000 then ((ce_pid e, snprintf_s cap (ce_name e)), pc)
             else (let ((p, nm), pc1) = pid_for_udp_port os h port 64 pc
                   in ((p, snprintf_s cap nm),
                       pc1\<lparr>pcache := (pcache pc1)(port \<mapsto> \<lparr>ce_pid = p, ce_name = snprintf_s 64 nm, ce_born = t\<rparr>)\<rparr>))
         | None \<Rightarrow>
             (let ((p, nm), pc1) = pid_for_udp_port os h port 64 pc
              in ((p, snprintf_s cap nm),
                  pc1\<lparr>pcache := (pcache pc1)(port \<mapsto> \<lparr>ce_pid = p, ce_name = snprintf_s 64 nm, ce_born = t\<rparr>)\<rparr>)))"

subsection \<open>The macOS capture\<close>

text \<open>One record of the packet filter's buffer: its frame and what lies behind it, or \<open>None\<close> when the
  rest of the buffer is dropped. \<open>hs\<close> is \<^verbatim>\<open>sizeof(struct bpf_hdr)\<close>; the captured length is at offset
  8 and the header length at offset 16 of a record.\<close>

definition bpf_wordalign :: "int \<Rightarrow> int" where
  "bpf_wordalign n = (n + 3) div 4 * 4"

definition bpf_record :: "nat \<Rightarrow> byte list \<Rightarrow> (byte list \<times> byte list) option outcome" where
  "bpf_record hs r =
     (if length r \<ge> hs then
        and_then (le32_at r 8) (\<lambda>cl. and_then (le16_at r 16) (\<lambda>hl.
          let caplen = to_int32 (uint cl); hdrlen = int (unat hl)
          in if hdrlen \<ge> int hs \<and> caplen \<ge> 0 then
               (if hdrlen + caplen > 2147483647 then Inl SignedOverflow
                else if hdrlen + caplen \<le> int (length r) then
                  and_then (bytes_at r (nat hdrlen) (nat caplen)) (\<lambda>frame.
                    Inr (Some (frame, if bpf_wordalign (hdrlen + caplen) \<ge> int (length r) then []
                                      else drop (nat (bpf_wordalign (hdrlen + caplen))) r)))
                else Inr None)
             else Inr None))
      else Inr None)"

text \<open>\<^verbatim>\<open>cap_next\<close>; \<open>reads\<close> is what the coming calls of \<^verbatim>\<open>read\<close> return, \<open>None\<close> an error other than an
  interruption. When they run out the call has not returned.\<close>

fun cap_next :: "nat \<Rightarrow> byte list \<Rightarrow> byte list option list \<Rightarrow> (byte list option \<times> byte list \<times> byte list option list) option outcome" where
  "cap_next hs r [] =
     and_then (bpf_record hs r) (\<lambda>x. case x of Some (frame, r') \<Rightarrow> Inr (Some (Some frame, r', [])) | None \<Rightarrow> Inr None)"
| "cap_next hs r (rd # reads) =
     and_then (bpf_record hs r) (\<lambda>x. case x of Some (frame, r') \<Rightarrow> Inr (Some (Some frame, r', rd # reads))
       | None \<Rightarrow> (case rd of None \<Rightarrow> Inr (Some (None, [], reads)) | Some d \<Rightarrow> cap_next hs d reads))"

section \<open>Lines of the kernel are not matched\<close>

text \<open>The kernel ends the slot number with a colon. The format has no colon, so the word that should be
  the local address is that colon.\<close>

definition slot_line :: "nat \<Rightarrow> nat \<Rightarrow> string \<Rightarrow> string" where
  "slot_line k n rest = replicate k CHR '' '' @ dec_nat n @ '':'' @ '' '' @ rest"

lemma sscanf_colon:
  assumes "dropWhile isspace s = u" "strtol10 u = (v, CHR '':'' # r, er)" "u \<noteq> CHR '':'' # r" "takeWhile (\<lambda>c. \<not> isspace c) r = ''''"
  shows "\<exists>vs. sscanf udp_format s = AWord '':'' # vs"
proof -
  have "\<not> isspace (CHR '':'')" by (simp add: isspace_def)
  then show ?thesis using assms unfolding udp_format_def by (simp add: Let_def)
qed

lemma sscanf_slot_line: "int n \<le> long_max \<Longrightarrow> \<exists>vs. sscanf udp_format (slot_line k n rest) = AWord '':'' # vs"
proof -
  assume n: "int n \<le> long_max"
  have "dropWhile isspace (slot_line k n rest) = dec_nat n @ '':'' @ '' '' @ rest"
  proof -
    obtain d ds where d: "dec_nat n = d # ds" using show_base_nonempty [of 10 n] by (cases "dec_nat n") auto
    then have "\<not> isspace d" using dec_nat_digits [of d n] isdigit_not_space by simp
    then show ?thesis by (simp add: slot_line_def d isspace_def dropWhile_append)
  qed
  moreover have "strtol10 (dec_nat n @ '':'' @ '' '' @ rest) = (int n, '':'' @ '' '' @ rest, False)"
    using n by (intro strtol10_dec_nat) (auto simp: isdigit_def)
  moreover have "takeWhile (\<lambda>c. \<not> isspace c) ('' '' @ rest) = ''''" by (simp add: isspace_def)
  ultimately show ?thesis using sscanf_colon [of "slot_line k n rest" "dec_nat n @ '':'' @ '' '' @ rest" "int n" "'' '' @ rest" False] by simp
qed

lemma length_port_hex: "port_hex p \<noteq> ''''"
  by (simp add: port_hex_def snprintf_s_def zero_pad_def)

lemma inode_lines_slot:
  "(\<And>l. l \<in> set ls \<Longrightarrow> \<exists>k n rest. int n \<le> long_max \<and> l = slot_line k n rest) \<Longrightarrow> want \<noteq> '''' \<Longrightarrow> inode_lines want ls = - 1"
proof (induction ls)
  case (Cons l ls)
  obtain k n rest where l: "int n \<le> long_max" "l = slot_line k n rest" using Cons.prems(1) [of l] by auto
  obtain vs where "sscanf udp_format l = AWord '':'' # vs" using sscanf_slot_line [OF l(1)] l(2) by blast
  moreover have "inode_lines want ls = - 1" using Cons by auto
  ultimately show ?case using Cons.prems(2) by (auto split: list.splits scan_val.splits)
qed simp

lemma linux_unattributed:
  assumes "\<And>f ls. d_udp h f = Some ls \<Longrightarrow> \<forall>l \<in> set (tl ls). \<exists>k n rest. int n \<le> long_max \<and> l = slot_line k n rest"
  shows "linux_pid_for_udp_port h port cap = (0, snprintf_s cap ''?'')"
proof -
  have "inode_for_port h port f = - 1" for f
    using inode_lines_slot [of "tl (the (d_udp h f))" "port_hex port"] assms [of f] length_port_hex
    by (auto simp: inode_for_port_def split: option.split)
  then show ?thesis by (simp add: linux_pid_for_udp_port_def)
qed

text \<open>
  A table of UDP sockets as the kernel prints it: a heading, then a line per socket, with the width the line is padded to.
  A line fits into the buffer of the reader.
\<close>

type_synonym kernel_sock = "nat \<times> sock_row \<times> proc_entry"

definition sock_line :: "kernel_sock \<Rightarrow> string" where
  "sock_line x = (case x of (lw, w, e) \<Rightarrow> kernel_line 5 lw w e)"

definition ksock_ok :: "kernel_sock \<Rightarrow> bool" where
  "ksock_ok x \<longleftrightarrow> (case x of (lw, w, e) \<Rightarrow>
     int (w_slot w) \<le> long_max \<and> entry_ok e \<and> list_all word_token (w_rest w)) \<and> length (sock_line x) < 512"

definition kernel_file :: "string \<times> kernel_sock list \<Rightarrow> string list" where
  "kernel_file t = fst t # map sock_line (snd t)"

lemma kernel_line_slot: "\<exists>k rest. kernel_line 5 lw w e = slot_line k (w_slot w) rest"
proof -
  let ?s = "tl (blank_columns (kernel_columns 5 w e))"
  have "?s = replicate (6 - length (dec_nat (w_slot w) @ '':'')) CHR '' '' @ dec_nat (w_slot w) @ '':'' @ '' ''
      @ tl (blank_columns (tl (kernel_columns 5 w e)))"
    by (simp add: blank_columns_def kernel_columns_def pad_left_def)
  then have "kernel_line 5 lw w e = slot_line (6 - length (dec_nat (w_slot w) @ '':'')) (w_slot w)
      (tl (blank_columns (tl (kernel_columns 5 w e))) @ replicate (lw - length ?s) CHR '' '' @ NL)"
    unfolding kernel_line_def Let_def slot_line_def by simp
  then show ?thesis by blast
qed

lemma proc_line_sock: "ksock_ok x \<Longrightarrow> proc_line (sock_line x) = Some (snd (snd x))"
  by (auto simp: ksock_ok_def sock_line_def list_all_iff intro!: proc_line_kernel split: prod.splits)

lemma kernel_file_read:
  "list_all ksock_ok socks \<Longrightarrow> map proc_line (tl (kernel_file (heading, socks))) = map (Some \<circ> snd \<circ> snd) socks"
  by (induction socks) (auto simp: kernel_file_def proc_line_sock)

lemma kernel_file_unattributed:
  assumes "\<And>f. d_udp h f = map_option kernel_file (tabs f)" "\<And>f heading socks. tabs f = Some (heading, socks) \<Longrightarrow> list_all ksock_ok socks"
  shows "linux_pid_for_udp_port h port cap = (0, snprintf_s cap ''?'')"
proof (rule linux_unattributed)
  fix f ls assume "d_udp h f = Some ls"
  then obtain heading socks where t: "tabs f = Some (heading, socks)" "ls = kernel_file (heading, socks)" using assms(1) [of f] by auto
  have "\<exists>k n rest. int n \<le> long_max \<and> sock_line x = slot_line k n rest" if "x \<in> set socks" for x
  proof -
    obtain lw w e where x: "x = (lw, w, e)" by (cases x)
    then have "int (w_slot w) \<le> long_max" using assms(2) [OF t(1)] that by (auto simp: list_all_iff ksock_ok_def)
    then show ?thesis using kernel_line_slot [of lw w e] by (auto simp: x sock_line_def)
  qed
  then show "\<forall>l \<in> set (tl ls). \<exists>k n rest. int n \<le> long_max \<and> l = slot_line k n rest"
    by (simp add: t(2) kernel_file_def)
qed

section \<open>Records of the packet filter\<close>

text \<open>A record: time stamps, lengths, the header length \<open>hl\<close> and whatever fills the header up to it.\<close>

definition bpf_enc :: "byte list \<Rightarrow> u32 \<Rightarrow> byte list \<Rightarrow> byte list \<Rightarrow> byte list" where
  "bpf_enc ts dl fill frame =
     ts @ put32 (of_nat (length frame)) @ put32 dl @ put16 (of_nat (18 + length fill)) @ fill @ frame"

definition bpf_pad :: "byte list \<Rightarrow> byte list" where
  "bpf_pad r = r @ replicate ((length r + 3) div 4 * 4 - length r) 0"

definition bpf_ok :: "byte list \<Rightarrow> byte list \<Rightarrow> byte list \<Rightarrow> bool" where
  "bpf_ok ts fill frame \<longleftrightarrow> length ts = 8 \<and> length fill < 60000 \<and> length frame < 1000000"

lemma bpf_wordalign_nat: "bpf_wordalign (int n) = int ((n + 3) div 4 * 4)"
  by (simp add: bpf_wordalign_def)

lemma bpf_fields:
  assumes "bpf_ok ts fill frame"
  shows "le32_at (bpf_enc ts dl fill frame @ rest) 8 = Inr (of_nat (length frame))"
    and "le16_at (bpf_enc ts dl fill frame @ rest) 16 = Inr (of_nat (18 + length fill))"
  using assms le32_at_put32 [of 8 ts] le16_at_put16 [of 16 "ts @ put32 (of_nat (length frame)) @ put32 dl"]
  by (simp_all add: bpf_enc_def bpf_ok_def)

lemma length_bpf_enc: "bpf_ok ts fill frame \<Longrightarrow> length (bpf_enc ts dl fill frame) = 18 + length fill + length frame"
  by (simp add: bpf_enc_def bpf_ok_def)

lemma bpf_lengths:
  assumes "bpf_ok ts fill frame"
  shows "to_int32 (uint (of_nat (length frame) :: u32)) = int (length frame)" "unat (of_nat (18 + length fill) :: u16) = 18 + length fill"
proof -
  have "uint (of_nat (length frame) :: u32) = int (length frame)"
    using assms by (simp only: unsigned_of_nat take_bit_eq_mod of_nat_mod bpf_ok_def) simp
  then show "to_int32 (uint (of_nat (length frame) :: u32)) = int (length frame)" using assms by (simp add: bpf_ok_def)
  show "unat (of_nat (18 + length fill) :: u16) = 18 + length fill"
    using assms by (simp only: unsigned_of_nat take_bit_eq_mod bpf_ok_def) simp
qed

lemma bpf_record_enc:
  assumes "bpf_ok ts fill frame" "hs \<le> 18 + length fill"
  shows "bpf_record hs (bpf_pad (bpf_enc ts dl fill frame) @ rest) = Inr (Some (frame, rest))"
proof -
  let ?e = "bpf_enc ts dl fill frame" and ?n = "18 + length fill + length frame"
  let ?r = "bpf_pad ?e @ rest"
  define pad where "pad = replicate ((length ?e + 3) div 4 * 4 - length ?e) (0 :: byte)"
  have r: "?r = ?e @ (pad @ rest)" by (simp add: bpf_pad_def pad_def)
  note f = bpf_fields [OF assms(1), of dl "pad @ rest"] length_bpf_enc [OF assms(1), of dl] and l = bpf_lengths [OF assms(1)]
  have len: "length (bpf_pad ?e) = (?n + 3) div 4 * 4"
  proof -
    have "?n \<le> (?n + 3) div 4 * 4" by linarith
    then show ?thesis by (simp add: bpf_pad_def f(3))
  qed
  have big: "hs \<le> length ?r" "\<not> int (18 + length fill) + int (length frame) > 2147483647"
    "int (18 + length fill) + int (length frame) \<le> int (length ?r)" "int (18 + length fill) \<ge> int hs \<and> int (length frame) \<ge> 0"
    using assms f(3) by (simp_all add: r bpf_ok_def)
  have s: "int (18 + length fill) + int (length frame) = int ?n" by simp
  have frame: "bytes_at ?r (nat (int (18 + length fill))) (nat (int (length frame))) = Inr frame"
  proof -
    have "drop (18 + length fill) ?r = frame @ pad @ rest"
      unfolding r using assms(1) by (simp add: bpf_enc_def bpf_ok_def)
    then show ?thesis using f(3) unfolding nat_int r by (simp add: bytes_at_def)
  qed
  have next': "(if bpf_wordalign (int ?n) \<ge> int (length ?r) then [] else drop (nat (bpf_wordalign (int ?n))) ?r) = rest"
    unfolding bpf_wordalign_nat nat_int len [symmetric] by simp
  show ?thesis
    unfolding bpf_record_def if_P [OF big(1)]
    unfolding r f(1,2)
    unfolding and_then_Inr Let_def l if_P [OF big(4)]
    using big(2,3) frame next' unfolding r s by (simp only: if_False if_True and_then_Inr)
qed

lemma bpf_record_short_header:
  assumes "bpf_ok ts fill frame" "18 + length fill < hs"
  shows "bpf_record hs (bpf_enc ts dl fill frame @ rest) = Inr None"
proof (cases "length (bpf_enc ts dl fill frame @ rest) \<ge> hs")
  case True
  then show ?thesis
    unfolding bpf_record_def if_P [OF True] bpf_fields [OF assms(1)] and_then_Inr Let_def bpf_lengths [OF assms(1)]
    using assms(2) by simp
qed (simp add: bpf_record_def)

text \<open>What the calls of \<^verbatim>\<open>cap_next\<close> return from one buffer: the frames until the rest is dropped.\<close>

function cap_frames :: "nat \<Rightarrow> byte list \<Rightarrow> byte list list outcome" where
  "cap_frames hs r =
     and_then (bpf_record hs r) (\<lambda>x. case x of None \<Rightarrow> Inr []
       | Some (frame, r') \<Rightarrow> if length r' < length r then and_then (cap_frames hs r') (\<lambda>fs. Inr (frame # fs)) else Inr [])"
  by auto
termination by (relation "measure (\<lambda>(hs, r). length r)") auto

declare cap_frames.simps [simp del]

text \<open>A record with its time stamps, wire length, the filling of its header and its frame.\<close>

type_synonym bpf_rec = "byte list \<times> u32 \<times> byte list \<times> byte list"

definition rec_bytes :: "bpf_rec \<Rightarrow> byte list" where
  "rec_bytes x = (case x of (ts, dl, fill, frame) \<Rightarrow> bpf_pad (bpf_enc ts dl fill frame))"

definition rec_frame :: "bpf_rec \<Rightarrow> byte list" where
  "rec_frame x = (case x of (ts, dl, fill, frame) \<Rightarrow> frame)"

definition rec_ok :: "nat \<Rightarrow> bpf_rec \<Rightarrow> bool" where
  "rec_ok hs x \<longleftrightarrow> (case x of (ts, dl, fill, frame) \<Rightarrow> bpf_ok ts fill frame \<and> hs \<le> 18 + length fill)"

lemma bpf_record_rec: "rec_ok hs x \<Longrightarrow> bpf_record hs (rec_bytes x @ rest) = Inr (Some (rec_frame x, rest))"
  by (cases x) (simp add: rec_ok_def rec_bytes_def rec_frame_def bpf_record_enc)

lemma cap_next_rec: "rec_ok hs x \<Longrightarrow> cap_next hs (rec_bytes x @ rest) reads = Inr (Some (Some (rec_frame x), rest, reads))"
  by (cases reads) (simp_all add: bpf_record_rec)

lemma rec_bytes_nonempty: "rec_ok hs x \<Longrightarrow> 0 < length (rec_bytes x)"
  by (cases x) (simp add: rec_ok_def rec_bytes_def bpf_pad_def bpf_enc_def)

lemma cap_frames_rec:
  "rec_ok hs x \<Longrightarrow> cap_frames hs (rec_bytes x @ rest) = and_then (cap_frames hs rest) (\<lambda>fs. Inr (rec_frame x # fs))"
  using rec_bytes_nonempty [of hs x]
  by (simp add: cap_frames.simps [of hs "rec_bytes x @ rest"] bpf_record_rec)

lemma cap_frames_recs: "0 < hs \<Longrightarrow> list_all (rec_ok hs) xs \<Longrightarrow> cap_frames hs (concat (map rec_bytes xs)) = Inr (map rec_frame xs)"
  by (induction xs) (simp_all add: cap_frames_rec, simp add: cap_frames.simps bpf_record_def)

section \<open>A name line of lsof\<close>

text \<open>The local port of a socket, connected or not, is the one its line is stored under.\<close>

lemma udp_name_local_port:
  assumes "0 < lport" "lport \<le> 65535" "CHR ''-'' \<notin> set addr" "length addr \<le> 200" "peer = '''' \<or> (\<exists>r. peer = ''->'' @ r)"
  shows "udp_name_line (addr @ '':'' @ dec_nat lport @ peer) st =
    st\<lparr>u_tab := (u_tab st)(lport := (u_pid st, snprintf_s 64 (u_name st)))\<rparr>"
proof -
  let ?own = "addr @ '':'' @ dec_nat lport"
  have len: "length (dec_nat lport) \<le> 5" using length_dec_nat [of lport 4] assms(2) by simp
  have minus: "CHR ''-'' \<notin> set ?own" using assms(3) by (simp add: isdigit_def)
  obtain d ds where d: "dec_nat lport = d # ds" using show_base_nonempty [of 10 lport] by (cases "dec_nat lport") auto
  then have star: "d \<noteq> CHR ''*''" using dec_nat_digits [of d lport] by (auto simp: isdigit_def)
  define body where "body = snprintf_s 256 (addr @ '':'' @ dec_nat lport @ peer)"
  have cut: "(case strstr body ''->'' of Some i \<Rightarrow> take i body | None \<Rightarrow> body) = ?own"
  proof (cases "peer = ''''")
    case True
    then have "body = ?own" using len assms(4) by (simp add: body_def)
    then show ?thesis using strstr_absent [OF minus, of "''>''"] by simp
  next
    case False
    then obtain r where r: "peer = ''->'' @ r" using assms(5) by blast
    have "length ?own + 2 \<le> 255" using len assms(4) by simp
    then have "body = ?own @ CHR ''-'' # ''>'' @ take (253 - length ?own) r"
      unfolding body_def snprintf_s_def r append_assoc [symmetric] take_append [of _ "(addr @ '':'') @ dec_nat lport"]
      by (simp add: take_Cons')
    then show ?thesis using strstr_first [OF minus, of "''>''"] by simp
  qed
  have "strrchr ?own (CHR '':'') = Some (length addr)" using strrchr_append [of "CHR '':''" "dec_nat lport" addr] by simp
  moreover have "strtol10 (dec_nat lport) = (int lport, [], False)"
    using strtol10_dec_nat [of lport "[]"] assms(2) by (simp add: long_max_def)
  ultimately show ?thesis unfolding udp_name_line_def body_def [symmetric] Let_def cut
    using assms(1,2) d star by simp
qed

section \<open>Claims\<close>

text \<open>
  C39. On Linux no query is ever attributed: whatever sockets the kernel's UDP tables hold, in the kernel's own format (columns
  padded, line padded and ended by a newline), and although every line of them is read back correctly by the reader the
  \<^verbatim>\<open>net\<close> tracer uses, \<^verbatim>\<open>pid_for_udp_port\<close> finds no process, because its \<^verbatim>\<open>sscanf\<close> format takes the colon after the slot
  number for the local address.
\<close>

theorem linux_dns_unattributed:
  assumes "\<And>f. d_udp h f = map_option kernel_file (tabs f)" "\<And>f heading socks. tabs f = Some (heading, socks) \<Longrightarrow> list_all ksock_ok socks"
  shows "linux_pid_for_udp_port h port cap = (0, snprintf_s cap ''?'') \<and>
    (\<forall>f heading socks. tabs f = Some (heading, socks) \<longrightarrow>
      map proc_line (tl (kernel_file (heading, socks))) = map (Some \<circ> snd \<circ> snd) socks)"
proof (intro conjI allI impI)
  show "linux_pid_for_udp_port h port cap = (0, snprintf_s cap ''?'')"
    by (rule kernel_file_unattributed) (fact assms)+
qed (rule kernel_file_read [OF assms(2)])

definition sample_udp :: "string \<Rightarrow> (string \<times> kernel_sock list) option" where
  "sample_udp f = (if f = ''/proc/net/udp''
     then Some (''   sl  local_address rem_address   st tx_queue rx_queue tr tm->when retrnsmt   uid  timeout inode ref pointer drops'' @ NL,
       [(127, sample_row, sample_entry)]) else None)"

definition sample_dns_host :: dns_host where
  "sample_dns_host = \<lparr>d_udp = (\<lambda>f. map_option kernel_file (sample_udp f)),
     d_procs = [(''71'', Some [(''3'', Some ''socket:[4711]'')])], d_comm = (\<lambda>p. Some (''named'' @ NL)), d_lsof = None,
     d_now = (0, 0), d_clock = ''''\<rparr>"

text \<open>The table of a resolver on port 53 (0035), whose socket is open in process 71.\<close>

theorem linux_dns_unattributed_witness:
  "linux_pid_for_udp_port sample_dns_host 53 16 = (0, ''?'') \<and> local_port sample_entry = 53 \<and> d_udp sample_dns_host ''/proc/net/udp''
    = Some [''   sl  local_address rem_address   st tx_queue rx_queue tr tm->when retrnsmt   uid  timeout inode ref pointer drops'' @ NL,
        ''   77: 0100007F:0035 00000000:0000 07 00000000:00000000 00:00000000 00000000   101        0 4711 2 0000000000000000 0''
          @ replicate 10 CHR '' '' @ NL]"
proof -
  have line: "sock_line (127, sample_row, sample_entry) = sample_line" by (simp add: sock_line_def sample_line_def)
  have "ksock_ok (127, sample_row, sample_entry)"
    unfolding ksock_ok_def line sample_line_text
    by (simp add: sample_row_def sample_entry_def entry_ok_def word_token_def long_max_def)
  then have "list_all ksock_ok socks" if "sample_udp f = Some (heading, socks)" for f heading socks
    using that by (auto simp: sample_udp_def split: if_splits)
  then have "linux_pid_for_udp_port sample_dns_host 53 16 = (0, snprintf_s 16 ''?'')"
    using linux_dns_unattributed [of sample_dns_host sample_udp 53 16] by (simp add: sample_dns_host_def)
  moreover have "d_udp sample_dns_host ''/proc/net/udp'' = Some [fst (the (sample_udp ''/proc/net/udp'')), sample_line]"
    by (simp add: sample_dns_host_def sample_udp_def kernel_file_def line)
  ultimately show ?thesis unfolding sample_line_text by (simp add: sample_entry_def sample_udp_def)
qed

text \<open>
  The buffer the packet filter fills is split into the frames it holds, one per record and in
  order, whatever their lengths and whatever fills the headers, as long as each header is at least as
  long as the structure of the code; a record with a shorter header ends the buffer: its frame and
  all that follow are lost.
\<close>

theorem bpf_frames_split:
  assumes "0 < hs" "list_all (rec_ok hs) xs" "bpf_ok ts fill frame" "18 + length fill < hs"
  shows "cap_frames hs (concat (map rec_bytes xs)) = Inr (map rec_frame xs) \<and>
    cap_frames hs (concat (map rec_bytes xs) @ bpf_enc ts dl fill frame @ rest) = Inr (map rec_frame xs)"
proof
  have "cap_frames hs (bpf_enc ts dl fill frame @ rest) = Inr []"
    by (simp add: cap_frames.simps [of hs "_ @ _"] bpf_record_short_header [OF assms(3,4)])
  then show "cap_frames hs (concat (map rec_bytes xs) @ bpf_enc ts dl fill frame @ rest) = Inr (map rec_frame xs)"
    using assms(2) by (induction xs) (simp_all add: cap_frames_rec)
qed (rule cap_frames_recs [OF assms(1,2)])

theorem bpf_frames_split_witness:
  "cap_frames 20 (bpf_pad (bpf_enc (replicate 8 0) 2 [0, 0] [9, 9]) @ bpf_enc (replicate 8 0) 1 [] [7] @ []) = Inr [[9, 9]]"
  using bpf_frames_split [of 20 "[(replicate 8 0, 2, [0, 0], [9, 9])]" "replicate 8 0" "[]" "[7]" 1 "[]"]
  by (simp add: rec_ok_def bpf_ok_def rec_bytes_def rec_frame_def)

end
