(* ===== verification/Dns_Frames.thy ===== *)
theory Dns_Frames
  imports Dns_Codec
begin

text \<open>
  Ethernet frames that carry a UDP datagram, and that \<^verbatim>\<open>parse_packet\<close> (\<^verbatim>\<open>src/c/dns.c\<close>) finds the DNS
  message in them.
\<close>

section \<open>Frames\<close>

text \<open>A UDP datagram in an Ethernet frame, behind an IPv4 header with any options or an IPv6 header.\<close>

definition ip4_header :: "byte list \<Rightarrow> bool" where
  "ip4_header ip \<longleftrightarrow> 20 \<le> length ip \<and> drop_bit 4 (ip ! 0) = 4 \<and> unat (ip ! 0 AND 0x0F) * 4 = length ip \<and> ip ! 9 = 17"

definition ip6_header :: "byte list \<Rightarrow> bool" where
  "ip6_header ip \<longleftrightarrow> length ip = 40 \<and> drop_bit 4 (ip ! 0) = 6 \<and> ip ! 6 = 17"

definition udp_frame :: "byte list \<Rightarrow> byte list \<Rightarrow> u16 \<Rightarrow> u16 \<Rightarrow> byte list \<Rightarrow> byte list \<Rightarrow> byte list" where
  "udp_frame macs ip src dst len_sum body =
     macs @ put_be16 (if length ip = 40 \<and> drop_bit 4 (ip ! 0) = 6 then 0x86DD else 0x0800) @ ip
       @ put_be16 src @ put_be16 dst @ len_sum @ body"

definition frame_ok :: "byte list \<Rightarrow> byte list \<Rightarrow> byte list \<Rightarrow> bool" where
  "frame_ok macs ip len_sum \<longleftrightarrow> length macs = 12 \<and> length len_sum = 4 \<and> (ip4_header ip \<or> ip6_header ip)"

lemma udp_start_frame:
  assumes "frame_ok macs ip len_sum"
  shows "udp_start (udp_frame macs ip src dst len_sum body) = Inr (Some (14 + length ip, 8 + length body))"
proof -
  let ?kind = "if length ip = 40 \<and> drop_bit 4 (ip ! 0) = 6 then 0x86DD else 0x0800 :: u16"
  let ?f = "udp_frame macs ip src dst len_sum body"
  have len: "length macs = 12" "length len_sum = 4" using assms by (simp_all add: frame_ok_def)
  have f: "?f = macs @ put_be16 ?kind @ ip @ put_be16 src @ put_be16 dst @ len_sum @ body" by (simp add: udp_frame_def)
  have lf: "length ?f = 22 + length ip + length body" by (simp add: f len)
  have eth: "be16_at ?f 12 = Inr ?kind" using be16_at_put [of macs ?kind] len(1) unfolding f by simp
  have ip: "?f ! (14 + k) = ip ! k" if "k < length ip" for k
    using that unfolding f by (simp add: len nth_append put_be16_def)
  show ?thesis
  proof (cases "ip6_header ip")
    case True
    then have "drop_bit 4 (?f ! 14) = 6" "?f ! 20 = 17" using ip [of 0] ip [of 6] by (simp_all add: ip6_header_def)
    then show ?thesis using True lf unfolding udp_start_def eth and_then_Inr by (simp add: ip6_header_def)
  next
    case False
    then have v4: "ip4_header ip" using assms by (simp add: frame_ok_def)
    moreover have "0 < length ip" "9 < length ip" using v4 unfolding ip4_header_def by linarith+
    ultimately have "?f ! 14 = ip ! 0" "?f ! 23 = 17" using ip [of 0] ip [of 9] by (simp_all add: ip4_header_def)
    moreover have "?kind = 0x0800" using v4 by (simp add: ip4_header_def)
    ultimately show ?thesis using v4 lf unfolding udp_start_def eth and_then_Inr
      by (simp add: ip4_header_def)
  qed
qed

lemma parse_packet_frame:
  assumes "frame_ok macs ip len_sum" "src = 53 \<or> dst = 53"
  shows "parse_packet fuel (udp_frame macs ip src dst len_sum body) =
    and_then (parse_dns fuel body) (\<lambda>mo. Inr (map_option (\<lambda>m. (m, src, dst)) mo))"
proof -
  let ?f = "udp_frame macs ip src dst len_sum body"
  have len: "length macs = 12" "length len_sum = 4" using assms(1) by (simp_all add: frame_ok_def)
  define pre where "pre = macs @ put_be16 (if length ip = 40 \<and> drop_bit 4 (ip ! 0) = 6 then 0x86DD else 0x0800 :: u16) @ ip"
  have f: "?f = pre @ put_be16 src @ put_be16 dst @ len_sum @ body" and lp: "length pre = 14 + length ip"
    by (simp_all add: udp_frame_def pre_def len)
  have "be16_at ?f (14 + length ip) = Inr src" using be16_at_put [of pre src] unfolding f lp [symmetric] by simp
  moreover have "be16_at ?f (14 + length ip + 2) = Inr dst"
    using be16_at_put [of "pre @ put_be16 src" dst] unfolding f lp [symmetric] by simp
  moreover have "bytes_at ?f (14 + length ip + 8) (8 + length body - 8) = Inr body"
    unfolding f lp [symmetric] using len(2) by (simp add: bytes_at_def)
  ultimately show ?thesis using assms(2) unfolding parse_packet_def udp_start_frame [OF assms(1)] and_then_Inr
    using lp by (auto simp: f simp del: be16_at_in bytes_at_in)
qed

end
