(* ===== verification/Dns_Events.thy ===== *)
theory Dns_Events
  imports Dns_Proc Dns_Frames
begin

text \<open>
  What the DNS tracer (\<^verbatim>\<open>src/c/dns.c\<close>) does with a captured frame: a query is stored under its
  identifier together with the process behind it, a response is matched with the stored query and
  printed. The lemmas show that queries and responses are matched as the wire has them, that a JSON
  line is one line a JSON reader reads back, and how the columns are aligned.
\<close>

section \<open>Definitions\<close>

record dns_opts =
  o_json :: bool
  o_quiet :: bool
  o_qquiet :: bool
  o_flat :: bool
  o_force :: bool
  o_time :: bool
  o_domain :: string
  o_color :: bool
  o_names :: "string list"
  o_types :: "string list"
  o_pids :: "int list"

record dns_pending =
  pq_query :: string
  pq_qtype :: string
  pq_pid :: int
  pq_name :: string
  pq_sent :: "nat \<times> nat"

text \<open>The state: the queries in flight (\<open>None\<close> while \<^verbatim>\<open>set\<close> is false), the caches, and the output.\<close>

record dns_st =
  w_pending :: "u16 \<Rightarrow> dns_pending option"
  w_caches :: proc_caches
  w_out :: string

subsection \<open>Output\<close>

definition json_step :: "char \<Rightarrow> string" where
  "json_step c =
     (if c = CHR 0x22 \<or> c = CHR 0x5C then [CHR 0x5C, c]
      else if (of_char c :: nat) < 32 then CHR 0x5C # ''u'' @ zero_pad 4 (hex_nat (of_char c))
      else [c])"

fun json_loop :: "nat \<Rightarrow> string \<Rightarrow> string \<Rightarrow> string" where
  "json_loop cap [] w = w"
| "json_loop cap (c # cs) w = (if length w < cap - 8 then json_loop cap cs (w @ json_step c) else w)"

definition json_escape :: "string \<Rightarrow> nat \<Rightarrow> string" where
  "json_escape s cap = json_loop cap s ''''"

definition trunc15 :: "string \<Rightarrow> string" where
  "trunc15 s = (if length s \<le> 15 then snprintf_s 64 s else snprintf_s 64 (take 14 s @ [CHR 0xE2, CHR 0x80, CHR 0xA6]))"

definition in_str_set :: "string list \<Rightarrow> string \<Rightarrow> bool" where
  "in_str_set xs v = list_ex (\<lambda>x. x = v) xs"

definition in_pid_set :: "dns_opts \<Rightarrow> int \<Rightarrow> bool" where
  "in_pid_set cfg v = list_ex (\<lambda>x. x = v) (o_pids cfg)"

definition dns_passes :: "dns_opts \<Rightarrow> string \<Rightarrow> string \<Rightarrow> int \<Rightarrow> string \<Rightarrow> bool" where
  "dns_passes cfg query qtyp p nm \<longleftrightarrow>
     \<not> (o_names cfg \<noteq> [] \<and> \<not> in_str_set (o_names cfg) nm) \<and> \<not> (o_pids cfg \<noteq> [] \<and> \<not> in_pid_set cfg p) \<and>
     \<not> (o_types cfg \<noteq> [] \<and> \<not> in_str_set (o_types cfg) qtyp) \<and> \<not> (o_domain cfg \<noteq> '''' \<and> strstr query (o_domain cfg) = None)"

text \<open>The fixed texts of the JSON line; \<open>DQ\<close> is the double quote.\<close>

abbreviation DQ :: string where "DQ \<equiv> [CHR 0x22]"

definition json_key :: "string \<Rightarrow> string" where
  "json_key k = DQ @ k @ DQ @ '':''"

fun json_answers :: "bool \<Rightarrow> string list \<Rightarrow> string" where
  "json_answers sep [] = ''''"
| "json_answers sep (a # as) = (if sep then '','' else '''') @ DQ @ json_escape a 600 @ DQ @ json_answers True as"

definition json_object :: "dns_opts \<Rightarrow> string \<Rightarrow> string \<Rightarrow> string \<Rightarrow> int \<Rightarrow> string \<Rightarrow> dns_msg \<Rightarrow> nat \<times> nat \<Rightarrow> string" where
  "json_object cfg ts query qtyp p nm resp lat =
     ''{'' @ json_key ''pid'' @ dec_int p @ '','' @ json_key ''name'' @ DQ @ json_escape nm 256 @ DQ
     @ '','' @ json_key ''type'' @ DQ @ qtyp @ DQ @ '','' @ json_key ''query'' @ DQ @ json_escape query 600 @ DQ
     @ '','' @ json_key ''answers'' @ ''['' @ json_answers False (answers resp)
     @ '']'' @ '','' @ json_key ''rcode'' @ DQ @ rcode_str (flags resp AND 0x0F) @ DQ @ '','' @ json_key ''latency_ms'' @ fmt_fixed 3 lat
     @ (if o_time cfg then '','' @ json_key ''ts'' @ DQ @ ts @ DQ else '''') @ ''}''"

definition emit_json :: "dns_opts \<Rightarrow> string \<Rightarrow> string \<Rightarrow> string \<Rightarrow> int \<Rightarrow> string \<Rightarrow> dns_msg \<Rightarrow> nat \<times> nat \<Rightarrow> string" where
  "emit_json cfg ts query qtyp p nm resp lat = json_object cfg ts query qtyp p nm resp lat @ NL"

definition strncat :: "nat \<Rightarrow> string \<Rightarrow> string \<Rightarrow> string" where
  "strncat cap dst s = dst @ take (cap - length dst - 1) s"

fun join_answers :: "bool \<Rightarrow> string list \<Rightarrow> string \<Rightarrow> string" where
  "join_answers sep [] j = j"
| "join_answers sep (a # as) j = join_answers True as (strncat 2048 (if sep then strncat 2048 j '' '' else j) a)"

definition emit_columns :: "dns_opts \<Rightarrow> string \<Rightarrow> string \<Rightarrow> int \<Rightarrow> string \<Rightarrow> string" where
  "emit_columns cfg query qtyp p nm =
     (if o_flat cfg then
        clr (o_color cfg) ''33'' (Some (dec_int p)) @ ''  '' @ clr (o_color cfg) ''96'' (Some nm) @ ''  ''
        @ clr (o_color cfg) ''35'' (Some qtyp) @ ''  '' @ clr (o_color cfg) ''32'' (Some query) @ ''  ''
      else
        pad_right 7 (clr (o_color cfg) ''33'' (Some (dec_int p))) @ ''  ''
        @ pad_right 15 (clr (o_color cfg) ''96'' (Some (trunc15 nm))) @ ''  ''
        @ pad_right 5 (clr (o_color cfg) ''35'' (Some qtyp)) @ ''  ''
        @ pad_right 42 (clr (o_color cfg) ''32'' (Some query)) @ ''  '')"

definition emit_text :: "dns_opts \<Rightarrow> string \<Rightarrow> string \<Rightarrow> string \<Rightarrow> int \<Rightarrow> string \<Rightarrow> dns_msg \<Rightarrow> nat \<times> nat \<Rightarrow> string" where
  "emit_text cfg ts query qtyp p nm resp lat =
     (let rcode = rcode_str (flags resp AND 0x0F); joined = join_answers False (answers resp) ''''
      in (if o_time cfg then clr (o_color cfg) ''36'' (Some ts) @ ''  '' else '''')
         @ emit_columns cfg query qtyp p nm
         @ clr (o_color cfg) ''90'' (Some [CHR 0xE2, CHR 0x86, CHR 0x92, CHR '' ''])
         @ (if rcode = ''NOERROR'' then (if joined \<noteq> '''' then clr (o_color cfg) ''34'' (Some joined) else '''')
            else clr (o_color cfg) ''31'' (Some rcode))
         @ ''  '' @ clr (o_color cfg) ''90'' (Some (snprintf_s 32 (fmt_fixed 1 lat @ ''ms''))) @ NL)"

definition emit :: "dns_opts \<Rightarrow> string \<Rightarrow> string \<Rightarrow> string \<Rightarrow> int \<Rightarrow> string \<Rightarrow> dns_msg \<Rightarrow> nat \<times> nat \<Rightarrow> string" where
  "emit cfg ts query qtyp p nm resp lat =
     (if \<not> dns_passes cfg query qtyp p nm then ''''
      else if o_quiet cfg then query @ NL
      else if o_json cfg then emit_json cfg ts query qtyp p nm resp lat
      else emit_text cfg ts query qtyp p nm resp lat)"

subsection \<open>A frame\<close>

definition store_query :: "dns_os \<Rightarrow> dns_host \<Rightarrow> dns_msg \<Rightarrow> u16 \<Rightarrow> dns_st \<Rightarrow> dns_st" where
  "store_query os h m src st =
     (let ((p, nm), pc) = proc_lookup os h src 64 (w_caches st)
      in st\<lparr>w_caches := pc,
            w_pending := (w_pending st)(msg_id m \<mapsto> \<lparr>pq_query = snprintf_s 256 (question m), pq_qtype = snprintf_s 16 (qtype_str (qtype m)),
              pq_pid = p, pq_name = nm, pq_sent = now_ms h\<rparr>)\<rparr>)"

definition match_response :: "dns_opts \<Rightarrow> dns_host \<Rightarrow> dns_msg \<Rightarrow> dns_st \<Rightarrow> dns_st" where
  "match_response cfg h m st =
     (case w_pending st (msg_id m) of None \<Rightarrow> st
      | Some q \<Rightarrow>
          st\<lparr>w_pending := (w_pending st)(msg_id m := None),
             w_out := w_out st @ emit cfg (d_clock h) (pq_query q) (pq_qtype q) (pq_pid q) (pq_name q) m (dbl_sub0 (now_ms h) (pq_sent q))\<rparr>)"

definition dns_message :: "dns_os \<Rightarrow> dns_opts \<Rightarrow> dns_host \<Rightarrow> dns_msg \<Rightarrow> u16 \<Rightarrow> u16 \<Rightarrow> dns_st \<Rightarrow> dns_st" where
  "dns_message os cfg h m src dst st =
     (let is_query = (flags m AND 0x8000 = 0)
      in if is_query \<and> dst = 53 then store_query os h m src st
         else if \<not> is_query \<and> src = 53 then match_response cfg h m st
         else st)"

definition dns_frame :: "dns_os \<Rightarrow> dns_opts \<Rightarrow> nat \<Rightarrow> dns_host \<Rightarrow> byte list \<Rightarrow> dns_st \<Rightarrow> dns_st outcome" where
  "dns_frame os cfg fuel h frame st =
     and_then (parse_packet fuel frame) (\<lambda>r. case r of None \<Rightarrow> Inr st
       | Some (m, src, dst) \<Rightarrow> Inr (dns_message os cfg h m src dst st))"

section \<open>Queries and responses\<close>

text \<open>A message that was captured: what the system answers at that moment, the message and its ports.\<close>

type_synonym dns_event = "dns_host \<times> dns_msg \<times> u16 \<times> u16"

definition asks :: "dns_event \<Rightarrow> bool" where
  "asks e \<longleftrightarrow> (case e of (h, m, src, dst) \<Rightarrow> flags m AND 0x8000 = 0 \<and> dst = 53)"

definition answers_it :: "dns_event \<Rightarrow> bool" where
  "answers_it e \<longleftrightarrow> (case e of (h, m, src, dst) \<Rightarrow> flags m AND 0x8000 \<noteq> 0 \<and> src = 53)"

definition event_id :: "dns_event \<Rightarrow> u16" where
  "event_id e = (case e of (h, m, src, dst) \<Rightarrow> msg_id m)"

definition about :: "u16 \<Rightarrow> dns_event \<Rightarrow> bool" where
  "about ident e \<longleftrightarrow> event_id e = ident \<and> (asks e \<or> answers_it e)"

definition run_dns :: "dns_os \<Rightarrow> dns_opts \<Rightarrow> dns_event list \<Rightarrow> dns_st \<Rightarrow> dns_st" where
  "run_dns os cfg es st = fold (\<lambda>(h, m, src, dst). dns_message os cfg h m src dst) es st"

text \<open>The specification: an answer belongs to the last message before it with its identifier, if that is
  a query; the line printed is made of that query, the process behind its port when it was sent, and
  the time between the two.\<close>

definition last_about :: "u16 \<Rightarrow> dns_event list \<Rightarrow> nat \<Rightarrow> nat option" where
  "last_about ident es i = List.find (\<lambda>k. about ident (es ! k)) (rev [0..<i])"

definition query_entry :: "dns_os \<Rightarrow> dns_event \<Rightarrow> proc_caches \<Rightarrow> dns_pending" where
  "query_entry os e pc =
     (case e of (h, m, src, dst) \<Rightarrow>
        let (p, nm) = fst (proc_lookup os h src 64 pc)
        in \<lparr>pq_query = snprintf_s 256 (question m), pq_qtype = snprintf_s 16 (qtype_str (qtype m)), pq_pid = p, pq_name = nm,
            pq_sent = now_ms h\<rparr>)"

definition event_caches :: "dns_os \<Rightarrow> dns_event \<Rightarrow> proc_caches \<Rightarrow> proc_caches" where
  "event_caches os e pc = (case e of (h, m, src, dst) \<Rightarrow> if asks e then snd (proc_lookup os h src 64 pc) else pc)"

definition open_query :: "dns_os \<Rightarrow> proc_caches \<Rightarrow> dns_event list \<Rightarrow> u16 \<Rightarrow> nat \<Rightarrow> dns_pending option" where
  "open_query os pc es ident i =
     (case last_about ident es i of None \<Rightarrow> None
      | Some j \<Rightarrow> if asks (es ! j) then Some (query_entry os (es ! j) (fold (event_caches os) (take j es) pc)) else None)"

definition answer_line :: "dns_os \<Rightarrow> dns_opts \<Rightarrow> proc_caches \<Rightarrow> dns_event list \<Rightarrow> nat \<Rightarrow> string" where
  "answer_line os cfg pc es i =
     (if \<not> answers_it (es ! i) then ''''
      else case open_query os pc es (event_id (es ! i)) i of None \<Rightarrow> ''''
      | Some q \<Rightarrow> (case es ! i of (h, m, src, dst) \<Rightarrow>
          emit cfg (d_clock h) (pq_query q) (pq_qtype q) (pq_pid q) (pq_name q) m (dbl_sub0 (now_ms h) (pq_sent q))))"

lemma run_dns_snoc: "run_dns os cfg (es @ [(h, m, src, dst)]) st = dns_message os cfg h m src dst (run_dns os cfg es st)"
  by (simp add: run_dns_def)

lemma asks_not_answers: "asks e \<Longrightarrow> \<not> answers_it e"
  by (auto simp: asks_def answers_it_def split: prod.splits)

lemma last_about_Suc: "last_about ident es (Suc i) = (if about ident (es ! i) then Some i else last_about ident es i)"
  by (simp add: last_about_def)

lemma last_about_less: "last_about ident es i = Some j \<Longrightarrow> j < i"
  by (auto simp: last_about_def find_Some_iff rev_nth)

lemma last_about_append: "i \<le> length es \<Longrightarrow> last_about ident (es @ fs) i = last_about ident es i"
  by (induction i) (simp_all add: last_about_Suc nth_append, simp add: last_about_def)

lemma open_query_append: "i \<le> length es \<Longrightarrow> open_query os pc (es @ fs) ident i = open_query os pc es ident i"
  using last_about_less [of ident es i]
  by (auto simp: open_query_def last_about_append nth_append split: option.split)

lemma answer_line_append: "i < length es \<Longrightarrow> answer_line os cfg pc (es @ fs) i = answer_line os cfg pc es i"
  by (simp add: answer_line_def open_query_append nth_append split: option.split)

lemma open_query_Suc:
  "i < length es \<Longrightarrow> open_query os pc es ident (Suc i) =
     (if about ident (es ! i) then if asks (es ! i) then Some (query_entry os (es ! i) (fold (event_caches os) (take i es) pc)) else None
      else open_query os pc es ident i)"
  by (simp add: open_query_def last_about_Suc)

lemma dns_message_state:
  assumes "e = (h, m, src, dst)"
  shows "w_caches (dns_message os cfg h m src dst st) = event_caches os e (w_caches st)"
    and "w_pending (dns_message os cfg h m src dst st) ident =
      (if about ident e then if asks e then Some (query_entry os e (w_caches st)) else None else w_pending st ident)"
    and "w_out (dns_message os cfg h m src dst st) = w_out st @ (if answers_it e then (case w_pending st (msg_id m) of None \<Rightarrow> ''''
      | Some q \<Rightarrow> emit cfg (d_clock h) (pq_query q) (pq_qtype q) (pq_pid q) (pq_name q) m (dbl_sub0 (now_ms h) (pq_sent q))) else '''')"
  using assms by (auto simp: dns_message_def store_query_def match_response_def event_caches_def query_entry_def about_def
    asks_def answers_it_def event_id_def Let_def split: prod.splits option.splits)

lemma run_dns_matched:
  assumes "w_pending st = (\<lambda>_. None)"
  shows "w_caches (run_dns os cfg es st) = fold (event_caches os) es (w_caches st) \<and>
    w_pending (run_dns os cfg es st) = (\<lambda>ident. open_query os (w_caches st) es ident (length es)) \<and>
    w_out (run_dns os cfg es st) = w_out st @ concat (map (answer_line os cfg (w_caches st) es) [0..<length es])"
proof (induction es rule: rev_induct)
  case Nil
  then show ?case using assms by (simp add: run_dns_def open_query_def last_about_def)
next
  case (snoc e es)
  obtain h m src dst where e: "e = (h, m, src, dst)" by (cases e)
  have lines: "map (answer_line os cfg (w_caches st) (es @ [e])) [0..<length es] = map (answer_line os cfg (w_caches st) es) [0..<length es]"
    by (simp add: answer_line_append)
  have last: "answer_line os cfg (w_caches st) (es @ [e]) (length es) =
      (if answers_it e then (case open_query os (w_caches st) es (msg_id m) (length es) of None \<Rightarrow> ''''
        | Some q \<Rightarrow> emit cfg (d_clock h) (pq_query q) (pq_qtype q) (pq_pid q) (pq_name q) m (dbl_sub0 (now_ms h) (pq_sent q))) else '''')"
    by (simp add: answer_line_def open_query_append e event_id_def split: option.split)
  have pend: "open_query os (w_caches st) (es @ [e]) ident (length (es @ [e])) =
      (if about ident e then if asks e then Some (query_entry os e (fold (event_caches os) es (w_caches st))) else None
       else open_query os (w_caches st) es ident (length es))" for ident
    using open_query_Suc [of "length es" "es @ [e]"] by (simp add: open_query_append)
  let ?st = "run_dns os cfg es st"
  have step: "run_dns os cfg (es @ [e]) st = dns_message os cfg h m src dst ?st" by (simp add: run_dns_snoc e)
  note IH = snoc.IH [THEN conjunct1] snoc.IH [THEN conjunct2, THEN conjunct1] snoc.IH [THEN conjunct2, THEN conjunct2]
  have "w_out (run_dns os cfg (es @ [e]) st) =
      w_out st @ concat (map (answer_line os cfg (w_caches st) (es @ [e])) [0..<length (es @ [e])])"
    unfolding step dns_message_state(3) [OF e] IH length_append_singleton upt_Suc_append [OF le0] map_append lines
      list.map last by simp
  moreover have "w_caches (run_dns os cfg (es @ [e]) st) = fold (event_caches os) (es @ [e]) (w_caches st)"
    unfolding step dns_message_state(1) [OF e] IH by simp
  moreover have "w_pending (run_dns os cfg (es @ [e]) st) = (\<lambda>ident. open_query os (w_caches st) (es @ [e]) ident (length (es @ [e])))"
    unfolding pend by (rule ext) (simp only: step dns_message_state(2) [OF e] IH)
  ultimately show ?case by blast
qed

section \<open>JSON\<close>

text \<open>A reader of JSON strings, RFC 8259 as far as it goes: an unescaped quote ends the string, control
  characters do not occur, a backslash begins \<^verbatim>\<open>\"\<close>, \<^verbatim>\<open>\\\<close> or \<^verbatim>\<open>\uXXXX\<close>, here below 128.\<close>

fun json_char :: "string \<Rightarrow> (char \<times> string) option" where
  "json_char [] = None"
| "json_char (c # s) =
     (if c = CHR 0x22 \<or> (of_char c :: nat) < 32 then None
      else if c \<noteq> CHR 0x5C then Some (c, s)
      else case s of [] \<Rightarrow> None
           | e # r \<Rightarrow>
               if e = CHR 0x22 \<or> e = CHR 0x5C then Some (e, r)
               else if e = CHR ''u'' \<and> 4 \<le> length r \<and> list_all ishex (take 4 r) then
                 (let v = num_of 16 (map (the \<circ> hex_val) (take 4 r)) in if v < 128 then Some (char_of v, drop 4 r) else None)
               else None)"

lemma json_char_shorter: "json_char s = Some (c, r) \<Longrightarrow> length r < length s"
  by (cases s) (auto simp: Let_def split: if_splits list.splits)

function json_string :: "string \<Rightarrow> (string \<times> string) option" where
  "json_string s =
     (if s \<noteq> '''' \<and> hd s = CHR 0x22 then Some ('''', tl s)
      else case json_char s of None \<Rightarrow> None | Some (c, r) \<Rightarrow> map_option (\<lambda>(t, r'). (c # t, r')) (json_string r))"
  by auto
termination by (relation "measure length") (auto dest: json_char_shorter)

declare json_string.simps [simp del]

lemma json_char_step: "json_char (json_step c @ r) = Some (c, r)"
proof (cases "(of_char c :: nat) < 32")
  case True
  define n where "n = (of_char c :: nat)"
  have n: "n < 32" "c = char_of n" using True by (simp_all add: n_def)
  have "list_all (\<lambda>n. json_step (char_of n) = CHR 0x5C # ''u'' @ zero_pad 4 (hex_nat n) \<and> length (zero_pad 4 (hex_nat n)) = 4 \<and>
      list_all ishex (zero_pad 4 (hex_nat n)) \<and> num_of 16 (map (the \<circ> hex_val) (zero_pad 4 (hex_nat n))) = n) [0..<32]"
    by code_simp
  then have "json_step c = CHR 0x5C # ''u'' @ zero_pad 4 (hex_nat n)" "length (zero_pad 4 (hex_nat n)) = 4"
    "list_all ishex (zero_pad 4 (hex_nat n))" "num_of 16 (map (the \<circ> hex_val) (zero_pad 4 (hex_nat n))) = n"
    using n by (auto simp: list_all_iff)
  then show ?thesis using n by simp
next
  case False
  then show ?thesis by (auto simp: json_step_def)
qed

lemma json_string_steps: "json_string (concat (map json_step s) @ CHR 0x22 # r) = Some (s, r)"
proof (induction s)
  case Nil
  then show ?case by (simp add: json_string.simps)
next
  case (Cons c s)
  have "hd (json_step c) \<noteq> CHR 0x22" "json_step c \<noteq> ''''" by (auto simp: json_step_def)
  then show ?case using Cons by (subst json_string.simps) (simp add: json_char_step)
qed

lemma json_loop_steps:
  "\<exists>k. json_loop cap s w = w @ concat (map json_step (take k s)) \<and> k \<le> length s \<and>
     (k = length s \<or> cap - 8 \<le> length (json_loop cap s w))"
proof (induction s arbitrary: w)
  case (Cons c s)
  show ?case
  proof (cases "length w < cap - 8")
    case True
    obtain k where "json_loop cap s (w @ json_step c) = (w @ json_step c) @ concat (map json_step (take k s))" "k \<le> length s"
      "k = length s \<or> cap - 8 \<le> length (json_loop cap s (w @ json_step c))"
      using Cons.IH [of "w @ json_step c"] by auto
    then show ?thesis using True by (intro exI [of _ "Suc k"]) auto
  qed (auto intro: exI [of _ 0])
qed simp

lemma json_loop_length: "length w < cap - 2 \<Longrightarrow> length (json_loop cap s w) < cap - 1"
proof (induction s arbitrary: w)
  case (Cons c s)
  have "length (json_step c) \<le> 6"
  proof (cases "(of_char c :: nat) < 32")
    case True
    then have "length (hex_nat (of_char c)) \<le> 4" using length_show_base [of 16 "of_char c" 3] by simp
    then show ?thesis by (simp add: json_step_def zero_pad_def)
  qed (simp add: json_step_def)
  then show ?case using Cons by auto
qed simp

text \<open>What \<^verbatim>\<open>json_escape\<close> leaves of a text: all of it if the escaped text is short, a prefix otherwise.\<close>

definition json_kept :: "nat \<Rightarrow> string \<Rightarrow> string" where
  "json_kept cap s = fst (the (json_string (json_escape s cap @ [CHR 0x22])))"

lemma json_escape_kept:
  "json_escape s cap = concat (map json_step (json_kept cap s)) \<and> prefix (json_kept cap s) s \<and>
   (length (concat (map json_step s)) \<le> cap - 8 \<longrightarrow> json_kept cap s = s)"
proof -
  obtain k where k: "json_escape s cap = concat (map json_step (take k s))" "k \<le> length s"
    "k = length s \<or> cap - 8 \<le> length (json_escape s cap)"
    using json_loop_steps [of cap s "''''"] by (auto simp: json_escape_def)
  then have kept: "json_kept cap s = take k s" using json_string_steps [of "take k s" "''''"] by (simp add: json_kept_def)
  have "k = length s" if "length (concat (map json_step s)) \<le> cap - 8"
  proof (rule ccontr)
    assume "k \<noteq> length s"
    then have "cap - 8 \<le> length (concat (map json_step (take k s)))" "k < length s" using k by auto
    moreover have "length (concat (map json_step s)) = length (concat (map json_step (take k s)) @ json_step (s ! k) @ concat (map json_step (drop (Suc k) s)))"
      using id_take_nth_drop [OF \<open>k < length s\<close>] by (metis concat.simps(2) concat_append list.simps(9) map_append)
    moreover have "0 < length (json_step (s ! k))" by (simp add: json_step_def)
    ultimately show False using that unfolding length_append by linarith
  qed
  then show ?thesis using k(1) kept take_is_prefix [of k s] by auto
qed

text \<open>A reader of the object \<^verbatim>\<open>emit\<close> prints: numbers as their text, strings unescaped.\<close>

definition strip_text :: "string \<Rightarrow> string \<Rightarrow> string option" where
  "strip_text p s = (if take (length p) s = p then Some (drop (length p) s) else None)"

definition json_text :: "string \<Rightarrow> (string \<times> string) option" where
  "json_text s = Option.bind (strip_text DQ s) json_string"

definition json_number :: "string \<Rightarrow> (string \<times> string) option" where
  "json_number s = (let w = takeWhile (\<lambda>c. c \<noteq> CHR '','' \<and> c \<noteq> CHR ''}'') s in if w = '''' then None else Some (w, drop (length w) s))"

definition json_member :: "string \<Rightarrow> (string \<Rightarrow> ('a \<times> string) option) \<Rightarrow> string \<Rightarrow> ('a \<times> string) option" where
  "json_member k val s = Option.bind (strip_text (json_key k) s) val"

lemma json_string_shorter: "json_string s = Some (t, r) \<Longrightarrow> length r < length s"
proof (induction s arbitrary: t rule: json_string.induct)
  case (1 s)
  show ?case
  proof (cases "s \<noteq> '''' \<and> hd s = CHR 0x22")
    case True
    then show ?thesis using "1.prems" by (cases s) (auto simp: json_string.simps)
  next
    case False
    then obtain c r' where c: "json_char s = Some (c, r')"
      using "1.prems" by (subst (asm) json_string.simps) (auto split: option.splits)
    then obtain t' where "json_string r' = Some (t', r)"
      using "1.prems" False by (subst (asm) json_string.simps) auto
    then show ?thesis using "1.IH" [OF False c refl] json_char_shorter [OF c] by fastforce
  qed
qed

function json_list :: "string \<Rightarrow> (string list \<times> string) option" where
  "json_list s =
     (case json_text s of None \<Rightarrow> None
      | Some (a, r) \<Rightarrow>
          if r \<noteq> '''' \<and> hd r = CHR '']'' then Some ([a], tl r)
          else if r \<noteq> '''' \<and> hd r = CHR '','' then map_option (\<lambda>(as, r'). (a # as, r')) (json_list (tl r))
          else None)"
  by auto
termination
proof (relation "measure length")
  fix s x a r
  assume *: "json_text s = Some x" "(a, r) = x" "r \<noteq> '''' \<and> hd r = CHR '',''"
  then have "length r < length s"
    by (auto simp: json_text_def strip_text_def bind_eq_Some_conv split: if_splits dest!: json_string_shorter)
  then show "(tl r, s) \<in> measure length" using *(3) by simp
qed simp

declare json_list.simps [simp del]

definition json_array :: "string \<Rightarrow> (string list \<times> string) option" where
  "json_array s = Option.bind (strip_text ''['' s) (\<lambda>r. if take 1 r = '']'' then Some ([], tl r) else json_list r)"

record json_event =
  je_pid :: string
  je_name :: string
  je_type :: string
  je_query :: string
  je_answers :: "string list"
  je_rcode :: string
  je_latency :: string
  je_ts :: "string option"

definition read_event :: "string \<Rightarrow> json_event option" where
  "read_event s0 =
     Option.bind (strip_text ''{'' s0) (\<lambda>s. Option.bind (json_member ''pid'' json_number s) (\<lambda>(p, s).
     Option.bind (strip_text '','' s) (\<lambda>s. Option.bind (json_member ''name'' json_text s) (\<lambda>(n, s).
     Option.bind (strip_text '','' s) (\<lambda>s. Option.bind (json_member ''type'' json_text s) (\<lambda>(t, s).
     Option.bind (strip_text '','' s) (\<lambda>s. Option.bind (json_member ''query'' json_text s) (\<lambda>(q, s).
     Option.bind (strip_text '','' s) (\<lambda>s. Option.bind (json_member ''answers'' json_array s) (\<lambda>(as, s).
     Option.bind (strip_text '','' s) (\<lambda>s. Option.bind (json_member ''rcode'' json_text s) (\<lambda>(rc, s).
     Option.bind (strip_text '','' s) (\<lambda>s. Option.bind (json_member ''latency_ms'' json_number s) (\<lambda>(l, s).
     case Option.bind (strip_text '','' s) (json_member ''ts'' json_text) of
       Some (ts, r) \<Rightarrow> if r = ''}'' @ NL then Some \<lparr>je_pid = p, je_name = n, je_type = t, je_query = q, je_answers = as, je_rcode = rc,
         je_latency = l, je_ts = Some ts\<rparr> else None
     | None \<Rightarrow> if s = ''}'' @ NL then Some \<lparr>je_pid = p, je_name = n, je_type = t, je_query = q, je_answers = as, je_rcode = rc,
         je_latency = l, je_ts = None\<rparr> else None))))))))))))))"

lemma strip_text_append [simp]: "strip_text p (p @ r) = Some r"
  by (simp add: strip_text_def)

definition json_plain :: "string \<Rightarrow> bool" where
  "json_plain s \<longleftrightarrow> (\<forall>c \<in> set s. json_step c = [c])"

lemma json_text_kept: "json_text (DQ @ json_escape s cap @ DQ @ r) = Some (json_kept cap s, r)"
  using json_escape_kept [of s cap] json_string_steps [of "json_kept cap s" r] by (simp add: json_text_def strip_text_def)

lemma json_text_plain: "json_plain s \<Longrightarrow> json_text (DQ @ s @ DQ @ r) = Some (s, r)"
proof -
  assume "json_plain s"
  then have "concat (map json_step s) = s" unfolding json_plain_def by (induction s) simp_all
  then show ?thesis using json_string_steps [of s r] by (simp add: json_text_def strip_text_def)
qed

lemma json_list_answers:
  "as \<noteq> [] \<Longrightarrow> json_list (json_answers False as @ '']'' @ r) = Some (map (json_kept 600) as, r)"
proof (induction as)
  case (Cons a as)
  show ?case
  proof (cases as)
    case Nil
    then show ?thesis using json_text_kept [of a 600 "'']'' @ r"] by (simp add: json_list.simps)
  next
    case (Cons b bs)
    then have "json_answers True as = '','' @ json_answers False as" by simp
    then show ?thesis using Cons.IH Cons json_text_kept [of a 600 "'','' @ json_answers False as @ '']'' @ r"]
      by (subst json_list.simps) simp
  qed
qed simp

lemma json_array_answers: "json_array (''['' @ json_answers False as @ '']'' @ r) = Some (map (json_kept 600) as, r)"
proof (cases as)
  case Nil
  then show ?thesis unfolding json_array_def by (simp add: strip_text_def)
next
  case (Cons a bs)
  then have "take 1 (json_answers False as @ '']'' @ r) \<noteq> '']''" by simp
  moreover have "strip_text ''['' (''['' @ json_answers False as @ '']'' @ r) = Some (json_answers False as @ '']'' @ r)"
    by (rule strip_text_append)
  moreover have "json_list (json_answers False as @ '']'' @ r) = Some (map (json_kept 600) as, r)"
    using json_list_answers [of as r] Cons by simp
  ultimately show ?thesis unfolding json_array_def by simp
qed

lemma json_number_text:
  assumes "s \<noteq> ''''" "CHR '','' \<notin> set s" "CHR ''}'' \<notin> set s"
  shows "json_number (s @ '','' @ r) = Some (s, '','' @ r)" and "json_number (s @ ''}'' @ r) = Some (s, ''}'' @ r)"
proof -
  have "takeWhile (\<lambda>c. c \<noteq> CHR '','' \<and> c \<noteq> CHR ''}'') (s @ c # r) = s" if "c = CHR '','' \<or> c = CHR ''}''" for c
    using that assms(2,3) by (subst takeWhile_append2) auto
  then show "json_number (s @ '','' @ r) = Some (s, '','' @ r)" "json_number (s @ ''}'' @ r) = Some (s, ''}'' @ r)"
    using assms(1) by (simp_all add: json_number_def)
qed

lemma json_member_bind: "json_member k val (json_key k @ s) = val s"
  by (simp add: json_member_def)

text \<open>The characters of printed numbers.\<close>

definition num_text :: "string \<Rightarrow> bool" where
  "num_text s \<longleftrightarrow> s \<noteq> '''' \<and> (\<forall>c \<in> set s. isdigit c \<or> c = CHR ''.'' \<or> c = CHR ''-'')"

lemma num_text_dec_nat: "num_text (dec_nat n)"
  using show_base_nonempty [of 10 n] dec_nat_digits by (auto simp: num_text_def)

lemma num_text_append: "num_text s \<Longrightarrow> (\<forall>c \<in> set t. isdigit c \<or> c = CHR ''.'' \<or> c = CHR ''-'') \<Longrightarrow> num_text (s @ t)"
  by (auto simp: num_text_def)

lemma num_text_dec_int: "num_text (dec_int p)"
  using num_text_dec_nat [of "nat p"] num_text_dec_nat [of "nat (- p)"] by (auto simp: dec_int_def num_text_def)

lemma num_text_fixed: "num_text (fmt_fixed p x)"
proof -
  have "isdigit (CHR ''0'')" by (simp add: isdigit_def)
  then have digits: "isdigit c" if "c \<in> set (zero_pad p (dec_nat n))" for c n
    using that dec_nat_digits [of c n] by (auto simp: zero_pad_def)
  show ?thesis
  proof (cases "p = 0")
    case True
    then show ?thesis by (simp add: fmt_fixed_def Let_def num_text_dec_nat)
  next
    case False
    show ?thesis unfolding fmt_fixed_def Let_def if_not_P [OF False]
      by (rule num_text_append [OF num_text_dec_nat]) (use digits in auto)
  qed
qed

lemma num_text_clean: "num_text s \<Longrightarrow> s \<noteq> '''' \<and> CHR '','' \<notin> set s \<and> CHR ''}'' \<notin> set s \<and> CHR 0x0A \<notin> set s"
  by (auto simp: num_text_def isdigit_def)

definition event_of :: "dns_opts \<Rightarrow> string \<Rightarrow> string \<Rightarrow> string \<Rightarrow> int \<Rightarrow> string \<Rightarrow> dns_msg \<Rightarrow> nat \<times> nat \<Rightarrow> json_event" where
  "event_of cfg ts query qtyp p nm resp lat =
     \<lparr>je_pid = dec_int p, je_name = json_kept 256 nm, je_type = qtyp, je_query = json_kept 600 query,
      je_answers = map (json_kept 600) (answers resp), je_rcode = rcode_str (flags resp AND 0x0F), je_latency = fmt_fixed 3 lat,
      je_ts = if o_time cfg then Some ts else None\<rparr>"

lemma strip_brace: "strip_text '','' (''}'' @ r) = None"
  by (simp add: strip_text_def)

lemma read_emit_json:
  assumes "json_plain qtyp" "json_plain (rcode_str (flags resp AND 0x0F))" "json_plain ts"
  shows "read_event (emit_json cfg ts query qtyp p nm resp lat) = Some (event_of cfg ts query qtyp p nm resp lat)"
proof -
  note num = json_number_text [OF num_text_clean [THEN conjunct1] num_text_clean [THEN conjunct2, THEN conjunct1]
      num_text_clean [THEN conjunct2, THEN conjunct2, THEN conjunct1]]
  note p = num(1) [OF num_text_dec_int num_text_dec_int num_text_dec_int]
    and l = num [OF num_text_fixed num_text_fixed num_text_fixed]
  show ?thesis
  proof (cases "o_time cfg")
    case True
    show ?thesis
      unfolding read_event_def emit_json_def json_object_def if_P [OF True] append_assoc strip_text_append json_member_bind bind.bind_lunit prod.case
        p json_text_kept json_text_plain [OF assms(1)] json_array_answers json_text_plain [OF assms(2)] l json_text_plain [OF assms(3)]
        event_of_def option.case if_True by (simp only: refl if_True)
  next
    case False
    show ?thesis
      unfolding read_event_def emit_json_def json_object_def if_not_P [OF False] append_assoc append_Nil strip_text_append json_member_bind bind.bind_lunit prod.case
        p json_text_kept json_text_plain [OF assms(1)] json_array_answers json_text_plain [OF assms(2)] l strip_brace bind.bind_lzero
        event_of_def option.case if_True by (simp only: refl if_True)
  qed
qed

lemma json_step_clean: "c \<in> set (json_step d) \<Longrightarrow> c \<noteq> CHR 0x0A"
proof (cases "(of_char d :: nat) < 32")
  case True
  have "list_all (\<lambda>n. CHR 0x0A \<notin> set (json_step (char_of n))) [0..<32]" by code_simp
  then have "CHR 0x0A \<notin> set (json_step (char_of (of_char d :: nat)))"
    unfolding list_all_iff by (rule bspec) (use True in simp)
  then show "c \<noteq> CHR 0x0A" if "c \<in> set (json_step d)" using that by auto
next
  case False
  then show "c \<noteq> CHR 0x0A" if "c \<in> set (json_step d)" using that by (auto simp: json_step_def split: if_splits)
qed

lemma json_escape_clean: "CHR 0x0A \<notin> set (json_escape s cap)"
  using json_escape_kept [of s cap] json_step_clean by auto

lemma json_plain_clean: "json_plain s \<Longrightarrow> CHR 0x0A \<notin> set s"
  using json_step_clean [of "CHR 0x0A" "CHR 0x0A"] by (auto simp: json_plain_def)

lemma json_answers_clean: "CHR 0x0A \<notin> set (json_answers sep as)"
  by (induction as arbitrary: sep) (simp_all add: json_escape_clean)

lemma json_key_clean: "CHR 0x0A \<notin> set k \<Longrightarrow> CHR 0x0A \<notin> set (json_key k)"
  by (simp add: json_key_def)

lemma json_object_clean:
  assumes "json_plain qtyp" "json_plain (rcode_str (flags resp AND 0x0F))" "json_plain ts"
  shows "CHR 0x0A \<notin> set (json_object cfg ts query qtyp p nm resp lat)"
proof -
  note clean = json_escape_clean json_answers_clean num_text_clean [OF num_text_dec_int, THEN conjunct2, THEN conjunct2, THEN conjunct2]
    num_text_clean [OF num_text_fixed, THEN conjunct2, THEN conjunct2, THEN conjunct2] assms [THEN json_plain_clean]
  have keys: "list_all (\<lambda>k. CHR 0x0A \<notin> set (json_key k)) [''pid'', ''name'', ''type'', ''query'', ''answers'', ''rcode'', ''latency_ms'', ''ts'']"
    unfolding list.pred_inject by (intro conjI json_key_clean TrueI) simp_all
  have texts: "CHR 0x0A \<notin> set ''{''" "CHR 0x0A \<notin> set '',''" "CHR 0x0A \<notin> set DQ" "CHR 0x0A \<notin> set ''[''" "CHR 0x0A \<notin> set '']''"
    "CHR 0x0A \<notin> set ''}''" by simp_all
  note keys' = keys [unfolded list.pred_inject]
  have "CHR 0x0A \<notin> set (if o_time cfg then '','' @ json_key ''ts'' @ DQ @ ts @ DQ else '''')"
    using texts clean keys' by (cases "o_time cfg") (simp_all only: set_append Un_iff if_True if_False, simp_all)
  then show ?thesis unfolding json_object_def set_append Un_iff
    using texts clean keys' by blast
qed

lemma json_plain_append: "json_plain (s @ t) \<longleftrightarrow> json_plain s \<and> json_plain t"
  by (auto simp: json_plain_def)

lemma json_plain_dec: "json_plain (dec_nat n)"
proof -
  have "json_step c = [c]" if "isdigit c" for c using that by (auto simp: json_step_def isdigit_def)
  then show ?thesis using dec_nat_digits by (auto simp: json_plain_def)
qed

lemma json_plain_take: "json_plain s \<Longrightarrow> json_plain (take n s)"
  by (auto simp: json_plain_def dest: in_set_takeD)

lemma json_plain_numbered: "json_plain s \<Longrightarrow> json_plain (snprintf_s n (s @ dec_nat k))"
  by (simp only: snprintf_s_def json_plain_take json_plain_append json_plain_dec)

lemma json_plain_rcode: "json_plain (rcode_str r)"
proof -
  have fixed: "list_all json_plain [''NOERROR'', ''FORMERR'', ''SERVFAIL'', ''NXDOMAIN'', ''NOTIMP'', ''REFUSED'', ''RCODE'']" by code_simp
  show ?thesis unfolding rcode_str_def Let_def
    using fixed [unfolded list.pred_inject] json_plain_numbered [of "''RCODE''" 16] by (simp only: if_split) blast
qed

lemma json_plain_qtype: "json_plain (snprintf_s 16 (qtype_str t))"
proof -
  have fixed: "list_all json_plain [''A'', ''NS'', ''CNAME'', ''SOA'', ''PTR'', ''MX'', ''TXT'', ''AAAA'', ''SRV'', ''ANY'', ''TYPE'']" by code_simp
  have "json_plain (qtype_str t)" unfolding qtype_str_def
    using fixed [unfolded list.pred_inject] json_plain_numbered [of "''TYPE''" 16] by (simp only: if_split) blast
  then show ?thesis by (simp add: snprintf_s_def json_plain_take)
qed

section \<open>A lookup on the wire\<close>

lemma dns_frame_message:
  assumes "frame_ok macs ip len_sum" "src = 53 \<or> dst = 53" "\<forall>l \<in> set ls. label_ok l" "length (name_text ls) \<le> 255"
    "0 \<notin> set (name_text ls)" "\<forall>r \<in> set rs. rr_ok r" "length rs < 65536" "length ls + 2 \<le> fuel"
  shows "dns_frame os cfg fuel h (udp_frame macs ip src dst len_sum (encode_response ident fl ls qt qc rs)) st =
    Inr (dns_message os cfg h \<lparr>msg_id = ident, flags = fl, qtype = qt, question = map chr8 (name_text ls),
      answers = take 16 (map (\<lambda>r. inet_ntop4 (snd r)) rs)\<rparr> src dst st)"
  using parse_packet_frame [OF assms(1,2)] parse_dns_encoded [OF assms(3-8), of ident fl qt qc] by (simp add: dns_frame_def)

section \<open>Claims\<close>

text \<open>
  C11. Queries and responses are matched as on the wire: whatever messages are captured, in any order
  and with identifiers used again, a line is printed exactly for each response whose identifier was
  last used by a query; the line carries the name and type of that query, the process behind its port
  when it was sent, and the time between the two messages. A second response to a query prints nothing.
\<close>

theorem dns_answers_matched:
  assumes "w_pending st = (\<lambda>_. None)"
  shows "w_out (run_dns os cfg es st) = w_out st @ concat (map (answer_line os cfg (w_caches st) es) [0..<length es])"
  by (rule run_dns_matched [OF assms, THEN conjunct2, THEN conjunct2])

definition dns_start :: dns_st where
  "dns_start = \<lparr>w_pending = (\<lambda>_. None), w_caches = \<lparr>pcache = (\<lambda>_. None), mac_udp = (\<lambda>_. (0, '''')), mac_born = (0, 1)\<rparr>, w_out = ''''\<rparr>"

definition quiet_dns :: dns_opts where
  "quiet_dns = \<lparr>o_json = False, o_quiet = True, o_qquiet = False, o_flat = False, o_force = False, o_time = False,
     o_domain = '''', o_color = False, o_names = [], o_types = [], o_pids = []\<rparr>"

definition sample_query :: "dns_event" where
  "sample_query = (sample_dns_host, \<lparr>msg_id = 7, flags = 0x0100, qtype = 1, question = ''ab.c'', answers = []\<rparr>, 4000, 53)"

definition sample_answer :: "dns_event" where
  "sample_answer = (sample_dns_host, \<lparr>msg_id = 7, flags = 0x8180, qtype = 1, question = ''ab.c'', answers = [''10.0.0.1'']\<rparr>, 53, 4000)"

theorem dns_answers_matched_witness:
  "w_out (run_dns OsOther quiet_dns [sample_answer, sample_query, sample_answer, sample_answer] dns_start) = ''ab.c'' @ NL"
proof -
  have kind: "asks sample_query" "\<not> asks sample_answer" "answers_it sample_answer" "\<not> answers_it sample_query"
    "event_id sample_query = 7" "event_id sample_answer = 7"
    by (simp_all add: sample_query_def sample_answer_def asks_def answers_it_def event_id_def)
  let ?es = "[sample_answer, sample_query, sample_answer, sample_answer]"
  have "map (answer_line OsOther quiet_dns (w_caches dns_start) ?es) [0..<length ?es] = ['''', '''', ''ab.c'' @ NL, '''']"
  proof -
    have line: "emit quiet_dns ts ''ab.c'' t p n m l = ''ab.c'' @ NL" for ts t p n m l
      by (simp add: emit_def dns_passes_def quiet_dns_def)
    have q: "pq_query (query_entry os sample_query pc) = ''ab.c''" for os pc
      by (simp add: query_entry_def sample_query_def split: prod.split)
    show ?thesis
      by (simp add: upt_rec answer_line_def open_query_def last_about_def about_def kind q numeral_eq_Suc)
        (simp add: sample_answer_def line)
  qed
  then show ?thesis using dns_answers_matched [of dns_start OsOther quiet_dns ?es]
    by (simp add: dns_start_def)
qed

text \<open>
  C28. A lookup is printed: a query for any name, in an Ethernet frame over IPv4 with any options or
  over IPv6, followed by its response with any number of addresses, prints the line of \<^verbatim>\<open>emit\<close> for
  the name and the type of the query, its first sixteen addresses, the process \<^verbatim>\<open>proc_lookup\<close> finds
  behind the source port and the time between the frames; and the query is no longer in flight.
\<close>

theorem dns_lookup_printed:
  assumes "frame_ok macs ip lsum" "frame_ok macs' ip' lsum'" "fl AND 0x8000 = 0" "fl' AND 0x8000 \<noteq> 0"
    "\<forall>l \<in> set ls. label_ok l" "length (name_text ls) \<le> 255" "0 \<notin> set (name_text ls)" "length ls + 2 \<le> fuel"
    "\<forall>r \<in> set rs. rr_ok r" "length rs < 65536" "fst (proc_lookup os h port 64 (w_caches st)) = (p, nm)"
  shows "\<exists>st'. and_then (dns_frame os cfg fuel h (udp_frame macs ip port 53 lsum (encode_response ident fl ls qt qc [])) st)
      (dns_frame os cfg fuel h' (udp_frame macs' ip' 53 port lsum' (encode_response ident fl' ls qt' qc' rs))) = Inr st' \<and>
    w_out st' = w_out st @ emit cfg (d_clock h') (map chr8 (name_text ls)) (snprintf_s 16 (qtype_str qt)) p nm
      \<lparr>msg_id = ident, flags = fl', qtype = qt', question = map chr8 (name_text ls), answers = take 16 (map (\<lambda>r. inet_ntop4 (snd r)) rs)\<rparr>
      (dbl_sub0 (now_ms h') (now_ms h)) \<and>
    w_pending st' ident = None"
proof -
  note q = dns_frame_message [OF assms(1) disjI2 [OF refl] assms(5-7) _ _ assms(8), of "[]"]
    and r = dns_frame_message [OF assms(2) disjI1 [OF refl] assms(5-7,9,10,8)]
  obtain pc where pl: "proc_lookup os h port 64 (w_caches st) = ((p, nm), pc)"
    using assms(11) by (cases "proc_lookup os h port 64 (w_caches st)") simp
  show ?thesis using assms(3,4,6)
    by (simp add: q r dns_message_def store_query_def match_response_def pl)
qed

definition sample_ip4 :: "byte list" where
  "sample_ip4 = [0x45, 0, 0, 0, 0, 0, 0, 0, 64, 17, 0, 0, 10, 0, 0, 1, 10, 0, 0, 2]"

theorem dns_lookup_printed_witness:
  "\<exists>st'. and_then (dns_frame OsOther quiet_dns 10 sample_dns_host (udp_frame (replicate 12 0) sample_ip4 4000 53 (replicate 4 0)
        (encode_response 7 0x0100 [map ord8 ''ab'', map ord8 ''c''] 1 1 [])) dns_start)
      (dns_frame OsOther quiet_dns 10 sample_dns_host (udp_frame (replicate 12 0) sample_ip4 53 4000 (replicate 4 0)
        (encode_response 7 0x8180 [map ord8 ''ab'', map ord8 ''c''] 1 1 [([0, 0, 0, 9], [10, 0, 0, 1])]))) = Inr st' \<and>
    w_out st' = ''ab.c'' @ NL"
proof -
  let ?ls = "[map ord8 ''ab'', map ord8 ''c'']" and ?rs = "[([0, 0, 0, 9], [10, 0, 0, 1 :: byte])]"
  have t: "name_text ?ls = map ord8 ''ab.c''" by (simp add: name_text_def add_label_def ord8_def)
  have ok: "frame_ok (replicate 12 0) sample_ip4 (replicate 4 0)"
    by (simp add: frame_ok_def ip4_header_def sample_ip4_def drop_bit_eq_div)
  have fl: "(0x0100 :: u16) AND 0x8000 = 0" "(0x8180 :: u16) AND 0x8000 \<noteq> 0" by simp_all
  have h: "\<forall>l\<in>set ?ls. label_ok l" "length (name_text ?ls) \<le> 255" "0 \<notin> set (name_text ?ls)" "length ?ls + 2 \<le> 10"
    "\<forall>r\<in>set ?rs. rr_ok r" "length ?rs < 65536"
    unfolding t by (simp_all add: label_ok_def rr_ok_def ord8_def)
  obtain p nm where p: "fst (proc_lookup OsOther sample_dns_host 4000 64 (w_caches dns_start)) = (p, nm)" by fastforce
  have "emit quiet_dns ts ''ab.c'' ty p n m l = ''ab.c'' @ NL" for ts ty p n m l
    by (simp add: emit_def dns_passes_def quiet_dns_def)
  then show ?thesis
    using dns_lookup_printed [OF ok ok fl h p, of quiet_dns 7 1 1 sample_dns_host 1 1] unfolding t by (auto simp: dns_start_def)
qed

text \<open>
  C29. A JSON line is one line, and a JSON reader reads it back: the process id, the type, the response
  code and the latency as printed, and of the name, the query and each answer a prefix, the whole of
  it unless its escaped form exceeds the buffer of the code.
\<close>

theorem json_line_read_back:
  assumes "o_json cfg" "\<not> o_quiet cfg" "dns_passes cfg query qtyp p nm" "qtyp = snprintf_s 16 (qtype_str t)" "json_plain ts"
  shows "\<exists>l. emit cfg ts query qtyp p nm resp lat = l @ NL \<and> CHR 0x0A \<notin> set l \<and>
    read_event (l @ NL) = Some \<lparr>je_pid = dec_int p, je_name = json_kept 256 nm, je_type = qtyp, je_query = json_kept 600 query,
      je_answers = map (json_kept 600) (answers resp), je_rcode = rcode_str (flags resp AND 0x0F), je_latency = fmt_fixed 3 lat,
      je_ts = if o_time cfg then Some ts else None\<rparr> \<and>
    (\<forall>cap s. prefix (json_kept cap s) s \<and> (length (concat (map json_step s)) \<le> cap - 8 \<longrightarrow> json_kept cap s = s))"
proof -
  have "emit cfg ts query qtyp p nm resp lat = json_object cfg ts query qtyp p nm resp lat @ NL"
    using assms(1-3) by (simp add: emit_def emit_json_def)
  moreover have "json_plain qtyp" using json_plain_qtype assms(4) by simp
  ultimately show ?thesis
    using json_object_clean [of qtyp resp ts cfg query p nm lat] read_emit_json [of qtyp resp ts cfg query p nm lat]
      json_plain_rcode [of "flags resp AND 0x0F"] json_escape_kept assms(5)
    unfolding event_of_def emit_json_def by blast
qed

definition json_dns :: dns_opts where
  "json_dns = quiet_dns\<lparr>o_quiet := False, o_json := True, o_domain := ''ab''\<rparr>"

theorem json_line_read_back_witness:
  "\<exists>l. emit json_dns '''' ''ab.c'' ''A'' 71 ''dig'' empty_msg (3, 2) = l @ NL \<and> CHR 0x0A \<notin> set l \<and>
    (\<exists>e. read_event (l @ NL) = Some e \<and> je_query e = json_kept 600 ''ab.c'')"
proof -
  have q: "(''A'' :: string) = snprintf_s 16 (qtype_str 1)" by (simp add: qtype_str_def)
  have "dns_passes json_dns ''ab.c'' ''A'' 71 ''dig''" by (simp add: dns_passes_def json_dns_def quiet_dns_def)
  then show ?thesis using json_line_read_back [OF _ _ _ q, of json_dns "''ab.c''" 71 "''dig''" "''''" empty_msg "(3, 2)"]
    by (auto simp: json_dns_def quiet_dns_def json_plain_def)
qed

section \<open>Colours and columns\<close>

text \<open>The padding counts the escape sequences: with colours two lines whose process ids differ in
  length have their columns at different places, without colours at the same.\<close>

lemma columns_plain:
  assumes "\<not> o_color cfg" "\<not> o_flat cfg" "length (dec_int p) \<le> 7" "length nm \<le> 15"
  shows "drop 26 (emit_columns cfg query qtyp p nm) = pad_right 5 qtyp @ ''  '' @ pad_right 42 query @ ''  ''"
  using assms by (simp add: emit_columns_def trunc15_def pad_right_def)

lemma columns_colored:
  assumes "o_color cfg" "\<not> o_flat cfg" "length (dec_int p) \<le> 100"
  shows "\<exists>r. emit_columns cfg query qtyp p nm = esc @ ''33m'' @ dec_int p @ esc @ ''0m'' @ ''  '' @ r"
proof -
  have p: "dec_int p \<noteq> ''''" using num_text_dec_int [of p] by (simp add: num_text_def)
  then have "length (dec_int p) \<ge> 1" by (cases "dec_int p") auto
  then show ?thesis using assms p by (auto simp: emit_columns_def pad_right_def clr_fits esc_def)
qed

end
