(* ===== verification/Chained.thy ===== *)
theory Chained
  imports CLib
begin

text \<open>
  Separate chaining with string keys: the scheme of the connection table and of the reverse-DNS cache
  of \<^verbatim>\<open>src/c/net.c\<close>. An array of singly linked lists is a function from bucket numbers to lists; a
  new entry goes to the front of its bucket. The locale \<open>string_map\<close> is the interface the
  handlers rely on.
\<close>

section \<open>Definitions\<close>

record chain_ent =
  key :: string

type_synonym 'e chains = "nat \<Rightarrow> 'e list"

text \<open>FNV-1a, 32 bits.\<close>

definition str_hash :: "string \<Rightarrow> u32" where
  "str_hash s = foldl (\<lambda>h c. (h XOR ucast (ord8 c)) * 16777619) 2166136261 s"

definition bucket :: "nat \<Rightarrow> string \<Rightarrow> nat" where
  "bucket n k = unat (str_hash k) mod n"

definition chain_find :: "nat \<Rightarrow> 'a chain_ent_scheme chains \<Rightarrow> string \<Rightarrow> 'a chain_ent_scheme option" where
  "chain_find n t k = List.find (\<lambda>e. key e = k) (t (bucket n k))"

definition chain_put ::
  "nat \<Rightarrow> (string \<Rightarrow> 'a chain_ent_scheme) \<Rightarrow> 'a chain_ent_scheme chains \<Rightarrow> string \<Rightarrow> 'a chain_ent_scheme chains" where
  "chain_put n fresh t k =
     (case List.find (\<lambda>e. key e = k) (t (bucket n k)) of
        Some _ \<Rightarrow> t
      | None \<Rightarrow> t(bucket n k := fresh k # t (bucket n k)))"

text \<open>An assignment through the pointer a lookup returned: the first entry of that key changes.\<close>

fun upd_first :: "('e \<Rightarrow> bool) \<Rightarrow> ('e \<Rightarrow> 'e) \<Rightarrow> 'e list \<Rightarrow> 'e list" where
  "upd_first p f [] = []"
| "upd_first p f (e # es) = (if p e then f e # es else e # upd_first p f es)"

definition chain_update ::
  "nat \<Rightarrow> ('a chain_ent_scheme \<Rightarrow> 'a chain_ent_scheme) \<Rightarrow> 'a chain_ent_scheme chains \<Rightarrow> string \<Rightarrow> 'a chain_ent_scheme chains" where
  "chain_update n f t k = t(bucket n k := upd_first (\<lambda>e. key e = k) f (t (bucket n k)))"

fun del_first :: "('e \<Rightarrow> bool) \<Rightarrow> 'e list \<Rightarrow> 'e list" where
  "del_first p [] = []"
| "del_first p (e # es) = (if p e then es else e # del_first p es)"

definition chain_delete :: "nat \<Rightarrow> 'a chain_ent_scheme chains \<Rightarrow> string \<Rightarrow> 'a chain_ent_scheme chains" where
  "chain_delete n t k = t(bucket n k := del_first (\<lambda>e. key e = k) (t (bucket n k)))"

text \<open>Every entry is in the bucket of its key, and no bucket has two entries of one key.\<close>

definition chains_ok :: "nat \<Rightarrow> 'a chain_ent_scheme chains \<Rightarrow> bool" where
  "chains_ok n t \<longleftrightarrow> (\<forall>b. distinct (map key (t b)) \<and> (\<forall>e \<in> set (t b). bucket n (key e) = b))"

section \<open>The table is a map\<close>

lemma find_key_Some: "List.find (\<lambda>e. key e = k) es = Some e \<Longrightarrow> e \<in> set es \<and> key e = k"
  by (auto simp: find_Some_iff)

lemma find_key_None: "List.find (\<lambda>e. key e = k) es = None \<longleftrightarrow> k \<notin> key ` set es"
  by (auto simp: find_None_iff)

lemma find_upd_first:
  "(\<And>e. key (f e) = key e) \<Longrightarrow>
   List.find (\<lambda>e. key e = k') (upd_first (\<lambda>e. key e = k) f es) =
     (if k' = k then map_option f (List.find (\<lambda>e. key e = k) es) else List.find (\<lambda>e. key e = k') es)"
  by (induction es) auto

lemma keys_upd_first: "(\<And>e. key (f e) = key e) \<Longrightarrow> map key (upd_first p f es) = map key es"
  by (induction es) auto

lemma find_del_first:
  "distinct (map key es) \<Longrightarrow>
   List.find (\<lambda>e. key e = k') (del_first (\<lambda>e. key e = k) es) = (if k' = k then None else List.find (\<lambda>e. key e = k') es)"
  by (induction es) (auto simp: find_key_None find_None_iff)

lemma set_del_first: "set (del_first p es) \<subseteq> set es"
  by (induction es) auto

lemma distinct_del_first: "distinct (map key es) \<Longrightarrow> distinct (map key (del_first p es))"
  by (induction es) (use set_del_first in fastforce)+

lemma chain_find_put:
  assumes "chains_ok n t" "key (fresh k) = k"
  shows "chains_ok n (chain_put n fresh t k)"
    and "chain_find n (chain_put n fresh t k) = (chain_find n t)(k \<mapsto> (case chain_find n t k of None \<Rightarrow> fresh k | Some e \<Rightarrow> e))"
proof -
  show "chains_ok n (chain_put n fresh t k)"
    using assms by (auto simp: chain_put_def chains_ok_def find_key_None split: option.splits)
  show "chain_find n (chain_put n fresh t k) = (chain_find n t)(k \<mapsto> (case chain_find n t k of None \<Rightarrow> fresh k | Some e \<Rightarrow> e))"
    using assms(2) by (auto simp: chain_put_def chain_find_def fun_eq_iff split: option.splits)
qed

lemma chain_find_update:
  assumes "chains_ok n t" "\<And>e. key (f e) = key e"
  shows "chains_ok n (chain_update n f t k)"
    and "chain_find n (chain_update n f t k) = (chain_find n t)(k := map_option f (chain_find n t k))"
proof -
  have "bucket n (key e) = bucket n k" if "e \<in> set (upd_first (\<lambda>e. key e = k) f (t (bucket n k)))" for e
  proof -
    have "key e \<in> set (map key (upd_first (\<lambda>e. key e = k) f (t (bucket n k))))" using that by simp
    then show ?thesis using assms(1) unfolding keys_upd_first [OF assms(2)] by (auto simp: chains_ok_def)
  qed
  then show "chains_ok n (chain_update n f t k)"
    using assms keys_upd_first [OF assms(2)] by (auto simp: chain_update_def chains_ok_def)
  show "chain_find n (chain_update n f t k) = (chain_find n t)(k := map_option f (chain_find n t k))"
    by (auto simp: chain_update_def chain_find_def fun_eq_iff find_upd_first [OF assms(2)])
qed

lemma chain_find_delete:
  assumes "chains_ok n t"
  shows "chains_ok n (chain_delete n t k)" and "chain_find n (chain_delete n t k) = (chain_find n t)(k := None)"
proof -
  show "chains_ok n (chain_delete n t k)"
    using assms set_del_first distinct_del_first by (fastforce simp: chain_delete_def chains_ok_def)
  have "distinct (map key (t (bucket n k)))" using assms by (simp add: chains_ok_def)
  then show "chain_find n (chain_delete n t k) = (chain_find n t)(k := None)"
    by (auto simp: chain_delete_def chain_find_def fun_eq_iff find_del_first)
qed

lemma chain_find_key: "chain_find n t k = Some e \<Longrightarrow> key e = k"
  unfolding chain_find_def using find_key_Some by blast

subsection \<open>The interface\<close>

locale string_map =
  fixes ok :: "'s \<Rightarrow> bool" and look :: "'s \<Rightarrow> string \<Rightarrow> 'e option"
    and put :: "'s \<Rightarrow> string \<Rightarrow> 's" and upd :: "('e \<Rightarrow> 'e) \<Rightarrow> 's \<Rightarrow> string \<Rightarrow> 's"
    and fresh :: "string \<Rightarrow> 'e" and keeps :: "('e \<Rightarrow> 'e) \<Rightarrow> bool" and fits :: "string \<Rightarrow> bool"
  assumes put_ok: "ok t \<Longrightarrow> fits k \<Longrightarrow> ok (put t k)"
    and look_put: "ok t \<Longrightarrow> fits k \<Longrightarrow> look (put t k) = (look t)(k \<mapsto> (case look t k of None \<Rightarrow> fresh k | Some e \<Rightarrow> e))"
    and upd_ok: "ok t \<Longrightarrow> keeps f \<Longrightarrow> ok (upd f t k)"
    and look_upd: "ok t \<Longrightarrow> keeps f \<Longrightarrow> look (upd f t k) = (look t)(k := map_option f (look t k))"
begin

text \<open>Create-or-find followed by assignments to the entry.\<close>

lemma put_upd:
  "ok t \<Longrightarrow> fits k \<Longrightarrow> keeps f \<Longrightarrow> ok (upd f (put t k) k) \<and>
   look (upd f (put t k) k) = (look t)(k \<mapsto> f (case look t k of None \<Rightarrow> fresh k | Some e \<Rightarrow> e))"
  using put_ok look_put upd_ok look_upd by simp

lemma put_other: "ok t \<Longrightarrow> fits k \<Longrightarrow> k' \<noteq> k \<Longrightarrow> look (put t k) k' = look t k'"
  using look_put by simp

end

locale string_map_del = string_map +
  fixes del :: "'a \<Rightarrow> string \<Rightarrow> 'a"
  assumes del_ok: "ok t \<Longrightarrow> ok (del t k)"
    and look_del: "ok t \<Longrightarrow> look (del t k) = (look t)(k := None)"
begin

lemma del_put: "ok t \<Longrightarrow> fits k \<Longrightarrow> look (del (put t k) k) = (look t)(k := None)"
  using look_del put_ok look_put by simp

end

end
