(* ===== verification/Net_Linux.thy ===== *)
theory Net_Linux
  imports Net_Proc Chained Exec_Linux
begin

text \<open>
  The state and the handlers of the Linux net tracer (\<^verbatim>\<open>src/c/net.c\<close>): the table of the open
  connections, the cache of the asynchronous reverse lookups, the output line, the three event
  handlers and the walk over the netlink messages of a datagram.

  The static variables are two records: the options, set once by \<^verbatim>\<open>net_main\<close>, and the state. The
  process file system and the clock are read at one moment per event. Allocation succeeds. A lookup
  thread is two events of the model: \<open>async_reverse_lookup\<close> adds the address to the list \<open>launched_ips\<close>,
  and \<open>dns_worker\<close>, at any later time, stores the answer. Both hold the lock \<^verbatim>\<open>dns_mu\<close> while they use
  the cache, so the model interleaves whole operations.
\<close>

section \<open>Definitions\<close>

subsection \<open>Connections\<close>

record conn_entry = chain_ent +
  c_tuple :: conn_tuple
  c_pid :: i32
  c_comm :: string
  c_dir :: direction
  start_at :: "nat \<times> nat"     \<comment> \<open>a \<^verbatim>\<open>double\<close>, as numerator and denominator\<close>
  tcp_state :: byte

type_synonym conndb = "conn_entry chains"

definition conn_fresh :: "string \<Rightarrow> conn_entry" where
  "conn_fresh k = \<lparr>key = snprintf_s 160 k, c_tuple = no_tuple, c_pid = 0, c_comm = '''', c_dir = DIR_UNKNOWN,
     start_at = (0, 1), tcp_state = 0\<rparr>"

definition db_get :: "conndb \<Rightarrow> string \<Rightarrow> conn_entry option" where
  "db_get t k = chain_find 1024 t k"

definition db_put :: "conndb \<Rightarrow> string \<Rightarrow> conndb" where
  "db_put t k = chain_put 1024 conn_fresh t k"

definition db_update :: "(conn_entry \<Rightarrow> conn_entry) \<Rightarrow> conndb \<Rightarrow> string \<Rightarrow> conndb" where
  "db_update f t k = chain_update 1024 f t k"

definition db_delete :: "conndb \<Rightarrow> string \<Rightarrow> conndb" where
  "db_delete t k = chain_delete 1024 t k"

subsection \<open>Reverse lookups\<close>

record dns_ent = chain_ent +
  dn_name :: string
  launched :: bool

type_synonym dns_cache = "dns_ent chains"

definition dns_fresh :: "string \<Rightarrow> dns_ent" where
  "dns_fresh k = \<lparr>key = snprintf_s 46 k, dn_name = '''', launched = False\<rparr>"

definition dns_find :: "dns_cache \<Rightarrow> string \<Rightarrow> dns_ent option" where
  "dns_find t k = chain_find 256 t k"

definition dns_get_or_create :: "dns_cache \<Rightarrow> string \<Rightarrow> dns_cache" where
  "dns_get_or_create t k = chain_put 256 dns_fresh t k"

definition dns_update :: "(dns_ent \<Rightarrow> dns_ent) \<Rightarrow> dns_cache \<Rightarrow> string \<Rightarrow> dns_cache" where
  "dns_update f t k = chain_update 256 f t k"

record net_opts =
  watch_pids :: "i32 list"
  show_close :: bool
  show_update :: bool
  show_user :: bool
  show_reverse :: bool
  ipv4_only :: bool
  ipv6_only :: bool
  outbound_only :: bool
  show_errors :: bool
  color_force :: bool
  color_mode :: bool

record net_st =
  conns :: conndb
  cache :: dns_cache
  local_ips :: "string list option"   \<comment> \<open>\<open>None\<close> until \<^verbatim>\<open>pthread_once\<close> has run\<close>
  launched_ips :: "string list"
  nouts :: string

text \<open>The end of a lookup: what \<^verbatim>\<open>getnameinfo\<close> says of the address, if it is one and has a name.\<close>

definition worker_host :: "string option \<Rightarrow> string" where
  "worker_host nb = (case nb of None \<Rightarrow> '''' | Some h \<Rightarrow> snprintf_s 256 (trim_right (\<lambda>c. c = CHR ''.'') (take 255 h)))"

definition dns_worker :: "string \<Rightarrow> string option \<Rightarrow> net_st \<Rightarrow> net_st" where
  "dns_worker ip nb st =
     st\<lparr>cache := dns_update (\<lambda>e. e\<lparr>dn_name := snprintf_s 256 (worker_host nb)\<rparr>) (dns_get_or_create (cache st) ip) ip\<rparr>"

text \<open>The cached name, and the state in which the lookup of an address seen for the first time runs.\<close>

definition async_reverse_lookup :: "string \<Rightarrow> net_st \<Rightarrow> string \<times> net_st" where
  "async_reverse_lookup ip st =
     (let found = dns_find (cache st) ip;
          was = (case found of None \<Rightarrow> False | Some ent \<Rightarrow> launched ent);
          host = (case found of None \<Rightarrow> '''' | Some ent \<Rightarrow> snprintf_s 256 (dn_name ent))
      in if was then (host, st)
         else (host, st\<lparr>cache := dns_update (\<lambda>ent. ent\<lparr>launched := True\<rparr>) (dns_get_or_create (cache st) ip) ip,
                        launched_ips := launched_ips st @ [ip]\<rparr>))"

subsection \<open>Output\<close>

definition net_c :: "net_opts \<Rightarrow> string \<Rightarrow> string \<Rightarrow> string" where
  "net_c cfg code s = clr (color_mode cfg) code (Some s)"

definition addr_text :: "byte list \<Rightarrow> u16 \<Rightarrow> string" where
  "addr_text ip port = snprintf_s 80 (pad_right 24 (snprintf_s 64 (ip_str ip @ '':'' @ dec_nat (unat port))))"

definition event_head :: "netfs \<Rightarrow> net_opts \<Rightarrow> conn_tuple \<Rightarrow> i32 \<Rightarrow> string \<Rightarrow> string" where
  "event_head fs cfg orig p comm =
     (if 0 < sint p then net_c cfg ''33'' (snprintf_s 16 (pad_left 5 (dec_int (sint p)))) else net_c cfg ''2'' ''    ?'')
     @ '' '' @ net_c cfg (if comm \<noteq> '''' then ''96'' else ''2'') (snprintf_s 64 (pad_right 12 (if comm \<noteq> '''' then comm else ''?'')))
     @ (if show_user cfg \<and> 0 < sint p then
          let uname = proc_user fs p
          in net_c cfg (if uname = ''root'' then ''91'' else ''92'') (snprintf_s 280 ('' <'' @ uname @ ''>''))
        else '''')
     @ '' '' @ net_c cfg ''2'' (snprintf_s 16 (pad_right 4 (proto_str (proto orig))))
     @ '' '' @ net_c cfg ''32'' (addr_text (src_ip orig) (src_port orig))"

definition event_mark :: "net_opts \<Rightarrow> direction \<Rightarrow> string \<Rightarrow> string" where
  "event_mark cfg d event =
     (if event = ''CLOSED'' then net_c cfg ''31'' [CHR 0xC3, CHR 0x97]
      else if event = ''UPDATE'' then net_c cfg ''35'' [CHR 0xE2, CHR 0x87, CHR 0x92]
      else net_c cfg ''36'' (dir_arrow d))"

definition event_host :: "net_opts \<Rightarrow> conn_tuple \<Rightarrow> direction \<Rightarrow> net_st \<Rightarrow> string \<times> net_st" where
  "event_host cfg orig d st =
     (if show_reverse cfg then
        let (host, st') = async_reverse_lookup (if d = DIR_INBOUND then ip_str (src_ip orig) else ip_str (dst_ip orig)) st
        in (if host \<noteq> '''' then net_c cfg ''2'' (snprintf_s 300 ('' ['' @ host @ '']'')) else '''', st')
      else ('''', st))"

definition print_event ::
  "netfs \<Rightarrow> net_opts \<Rightarrow> conn_tuple \<Rightarrow> i32 \<Rightarrow> string \<Rightarrow> direction \<Rightarrow> string \<Rightarrow> string \<Rightarrow> net_st \<Rightarrow> net_st" where
  "print_event fs cfg orig p comm d event extra st =
     (let (host, st') = event_host cfg orig d st
      in st'\<lparr>nouts := nouts st' @ event_head fs cfg orig p comm @ '' '' @ event_mark cfg d event @ '' ''
           @ net_c cfg ''33'' (addr_text (dst_ip orig) (dst_port orig)) @ host
           @ (if extra \<noteq> '''' then '' '' @ net_c cfg ''36'' extra else '''') @ NL\<rparr>)"

subsection \<open>Event handlers\<close>

definition mono_now :: "netfs \<Rightarrow> nat \<times> nat" where
  "mono_now fs = dbl_add (dbl_of_nat (fst (n_mono fs))) (dbl_div (dbl_of_nat (snd (n_mono fs))) 1000000000)"

text \<open>\<^verbatim>\<open>is_local_ip\<close> reads the interfaces on its first call, which only a connection without a socket makes.\<close>

definition once_local_ips :: "netfs \<Rightarrow> conn_tuple \<Rightarrow> net_st \<Rightarrow> net_st" where
  "once_local_ips fs orig st =
     (if snd (find_inode_with_dir fs orig) = 0 \<and> local_ips st = None
      then st\<lparr>local_ips := Some (init_local_ips fs)\<rparr> else st)"

definition the_local_ips :: "net_st \<Rightarrow> string list" where
  "the_local_ips st = (case local_ips st of None \<Rightarrow> [] | Some ips \<Rightarrow> ips)"

definition shown :: "netfs \<Rightarrow> net_opts \<Rightarrow> i32 \<Rightarrow> bool" where
  "shown fs cfg p \<longleftrightarrow> \<not> (watch_pids cfg \<noteq> [] \<and> \<not> is_watched fs (watch_pids cfg) p)"

text \<open>\<^verbatim>\<open>db_put\<close> and the assignments to the entry it returns.\<close>

definition store_conn :: "netfs \<Rightarrow> string \<Rightarrow> conn_tuple \<Rightarrow> i32 \<Rightarrow> string \<Rightarrow> direction \<Rightarrow> byte \<Rightarrow> conndb \<Rightarrow> conndb" where
  "store_conn fs k orig p comm d s t =
     db_update (\<lambda>ent. ent\<lparr>c_tuple := orig, c_pid := p, c_comm := snprintf_s 64 comm, c_dir := d,
                         start_at := mono_now fs, tcp_state := s\<rparr>) (db_put t k) k"

definition handle_new :: "netfs \<Rightarrow> net_opts \<Rightarrow> string \<Rightarrow> conn_tuple \<Rightarrow> byte list \<Rightarrow> net_st \<Rightarrow> net_st outcome" where
  "handle_new fs cfg k orig payload st0 =
     (let st = once_local_ips fs orig st0;
          (p, comm, d) = find_pid_and_dir fs (the_local_ips st) orig
      in if \<not> shown fs cfg p then Inr st
         else if outbound_only cfg \<and> d = DIR_INBOUND then Inr st
         else and_then (if proto orig = 6 then parse_tcp_state payload else Inr 0) (\<lambda>s.
           Inr (print_event fs cfg orig p comm d '''' ''''
             (st\<lparr>conns := store_conn fs k orig p comm d s (conns st)\<rparr>))))"

definition known :: "net_st \<Rightarrow> string \<Rightarrow> i32 \<times> string \<times> direction" where
  "known st k = (case db_get (conns st) k of None \<Rightarrow> (0, '''', DIR_UNKNOWN)
                 | Some ent \<Rightarrow> (c_pid ent, snprintf_s 64 (c_comm ent), c_dir ent))"

definition handle_update :: "netfs \<Rightarrow> net_opts \<Rightarrow> string \<Rightarrow> conn_tuple \<Rightarrow> byte list \<Rightarrow> net_st \<Rightarrow> net_st outcome" where
  "handle_update fs cfg k orig payload st =
     (let (p, comm, d) = known st k
      in if \<not> shown fs cfg p then Inr st
         else if outbound_only cfg \<and> d = DIR_INBOUND then Inr st
         else if proto orig = 6 then
           and_then (parse_tcp_state payload) (\<lambda>s.
             Inr (print_event fs cfg orig p comm d ''UPDATE'' (snprintf_s 16 (tcp_state_name s))
               (st\<lparr>conns := db_update (\<lambda>ent. ent\<lparr>tcp_state := s\<rparr>) (conns st) k\<rparr>)))
         else Inr (print_event fs cfg orig p comm d ''UPDATE'' '''' st))"

definition handle_destroy :: "netfs \<Rightarrow> net_opts \<Rightarrow> string \<Rightarrow> conn_tuple \<Rightarrow> net_st \<Rightarrow> net_st" where
  "handle_destroy fs cfg k orig st =
     (let (p, comm, d) = known st k;
          st' = st\<lparr>conns := db_delete (conns st) k\<rparr>
      in case db_get (conns st) k of None \<Rightarrow> st'
         | Some ent \<Rightarrow>
             if \<not> shown fs cfg p then st'
             else print_event fs cfg orig p comm d ''CLOSED''
                    (snprintf_s 32 (fmt_fixed 3 (dbl_sub0 (mono_now fs) (start_at ent)) @ ''s'')) st')"

subsection \<open>Netlink messages\<close>

definition skipped :: "net_opts \<Rightarrow> conn_tuple \<Rightarrow> bool" where
  "skipped cfg orig \<longleftrightarrow> ipv4_only cfg \<and> length (src_ip orig) \<noteq> 4 \<or> ipv6_only cfg \<and> length (src_ip orig) = 4
     \<or> proto orig \<noteq> 6 \<and> proto orig \<noteq> 17"

text \<open>One message, with its type, its flags and its payload behind the \<^verbatim>\<open>nfgenmsg\<close>.\<close>

definition ct_message :: "netfs \<Rightarrow> net_opts \<Rightarrow> nat \<Rightarrow> u16 \<Rightarrow> byte list \<Rightarrow> net_st \<Rightarrow> net_st outcome" where
  "ct_message fs cfg t flags payload st =
     and_then (parse_tuple payload 1) (\<lambda>tup.
       case tup of None \<Rightarrow> Inr st
       | Some orig \<Rightarrow>
           if skipped cfg orig then Inr st
           else let k = tuple_key orig; is_new = (t = 256); is_create = (flags AND 0x400 \<noteq> 0)
             in if is_new \<and> is_create then handle_new fs cfg k orig payload st
                else if is_new \<and> \<not> is_create \<and> show_update cfg then handle_update fs cfg k orig payload st
                else if \<not> is_new \<and> show_close cfg then Inr (handle_destroy fs cfg k orig st)
                else if \<not> is_new then Inr (st\<lparr>conns := db_delete (conns st) k\<rparr>)
                else Inr st)"

text \<open>A signed subtraction of the C \<^verbatim>\<open>int\<close>.\<close>

definition int_minus :: "int \<Rightarrow> int \<Rightarrow> int outcome" where
  "int_minus a b = (if to_int32 (a - b) = a - b then Inr (a - b) else Inl SignedOverflow)"

definition nl_body :: "netfs \<Rightarrow> net_opts \<Rightarrow> byte list \<Rightarrow> nat \<Rightarrow> int \<Rightarrow> net_st \<Rightarrow> net_st outcome" where
  "nl_body fs cfg data off mlen st =
     and_then (le16_at data (off + 4)) (\<lambda>tw. let t = unat tw in
       if t = 256 \<or> t = 258 then
         and_then (int_minus mlen 16) (\<lambda>data_len.
           if data_len \<ge> 4 then
             and_then (le16_at data (off + 6)) (\<lambda>flags.
             and_then (bytes_at data (off + 20) (nat (data_len - 4))) (\<lambda>payload. ct_message fs cfg t flags payload st))
           else Inr st)
       else Inr st)"

text \<open>\<open>off\<close> is \<^verbatim>\<open>data\<close> as a distance from the buffer, \<open>len\<close> the C variable. The conversions to
  \<^verbatim>\<open>int\<close> are those of the code: a length of \<open>2\<^sup>3\<^sup>1\<close> or more is negative. A read behind the received
  bytes counts as outside.\<close>

fun process_nl_msgs :: "netfs \<Rightarrow> net_opts \<Rightarrow> nat \<Rightarrow> byte list \<Rightarrow> nat \<Rightarrow> int \<Rightarrow> net_st \<Rightarrow> net_st outcome" where
  "process_nl_msgs fs cfg 0 data off len st = Inl OutOfFuel"
| "process_nl_msgs fs cfg (Suc fuel) data off len st =
     (if len \<ge> 16 then
        and_then (le32_at data off) (\<lambda>mlen.
          if unat mlen < 16 \<or> to_int32 (uint mlen) > len then Inr st
          else and_then (nl_body fs cfg data off (to_int32 (uint mlen)) st) (\<lambda>st'.
            let aligned = nlmsg_align mlen
            in if to_int32 (int aligned) \<ge> len then Inr st'
               else and_then (int_minus len (to_int32 (int aligned))) (\<lambda>len'.
                 process_nl_msgs fs cfg fuel data (off + aligned) len' st')))
      else Inr st)"

declare process_nl_msgs.simps(2) [simp del]

section \<open>The tables are maps\<close>

definition conns_ok :: "conndb \<Rightarrow> bool" where "conns_ok t \<longleftrightarrow> chains_ok 1024 t"
definition cache_ok :: "dns_cache \<Rightarrow> bool" where "cache_ok t \<longleftrightarrow> chains_ok 256 t"
definition keeps_key :: "('a chain_ent_scheme \<Rightarrow> 'a chain_ent_scheme) \<Rightarrow> bool" where
  "keeps_key f \<longleftrightarrow> (\<forall>x. key (f x) = key x)"

interpretation conns: string_map_del conns_ok db_get db_put db_update conn_fresh keeps_key "\<lambda>k. length k < 160" db_delete
  by unfold_locales
    (simp_all add: conns_ok_def db_get_def [abs_def] db_put_def db_update_def db_delete_def keeps_key_def conn_fresh_def
      chain_find_put chain_find_update chain_find_delete)

interpretation cache: string_map cache_ok dns_find dns_get_or_create dns_update dns_fresh keeps_key "\<lambda>k. length k < 46"
  by unfold_locales
    (simp_all add: cache_ok_def dns_find_def [abs_def] dns_get_or_create_def dns_update_def keeps_key_def dns_fresh_def
      chain_find_put chain_find_update)

end
