(* ===== verification/Exec_Events.thy ===== *)
theory Exec_Events
  imports Exec_Linux
begin

text \<open>
  Correctness of the Linux exec tracer over whole datagrams and whole runs: the messages the kernel's
  process connector sends (written out as an encoder), their delivery to the handlers, memory safety
  of the walk, the reachable states with their invariant, and the claims about the handlers.
\<close>

section \<open>The kernel's messages\<close>

definition put64 :: "u64 \<Rightarrow> byte list" where
  "put64 v = put32 (ucast v) @ put32 (ucast (drop_bit 32 v))"

text \<open>
  What the kernel fills in beside the event (\<^verbatim>\<open>struct nlmsghdr\<close>, \<^verbatim>\<open>struct cn_msg\<close>, \<^verbatim>\<open>struct proc_event\<close>): the type of
  the netlink message, flags, sequence number and sender, the connector's sequence number, acknowledgement and flags, and
  the processor. Any values are allowed.
\<close>

record nl_meta =
  nm_type :: u16
  nm_flags :: u16
  nm_seq :: u32
  nm_port :: u32
  cm_seq :: u32
  cm_ack :: u32
  cm_flags :: u16
  ev_cpu :: u32

definition nl_frame :: "nl_meta \<Rightarrow> byte list \<Rightarrow> byte list" where
  "nl_frame m body =
     put32 (of_nat (16 + length body)) @ put16 (nm_type m) @ put16 (nm_flags m) @ put32 (nm_seq m) @ put32 (nm_port m) @ body"

definition cn_event :: "nl_meta \<Rightarrow> u32 \<Rightarrow> u64 \<Rightarrow> byte list \<Rightarrow> byte list" where
  "cn_event m what tsNs ev =
     put32 1 @ put32 1 @ put32 (cm_seq m) @ put32 (cm_ack m) @ put16 (of_nat (16 + length ev)) @ put16 (cm_flags m)
     @ put32 what @ put32 (ev_cpu m) @ put64 tsNs @ ev"

text \<open>
  The events. Their data is a union of 24 bytes: an exec event uses the first 8 and leaves the others, \<open>pad\<close>; an exit
  event, for which the union is that long, fills it with process, thread group, wait status, signal, parent and the
  parent's thread group; of the others (fork, uid change and so on) only the kind matters.
\<close>

datatype proc_event =
    Exec i32 i32 "byte list" u64
  | Exit i32 i32 u32 u32 "i32 \<times> i32" u64
  | Other u32 "byte list" u64

definition exec_data :: "i32 \<Rightarrow> i32 \<Rightarrow> byte list \<Rightarrow> byte list" where
  "exec_data p tgid pad = put32 p @ put32 tgid @ pad"

definition exit_data :: "i32 \<Rightarrow> i32 \<Rightarrow> u32 \<Rightarrow> u32 \<Rightarrow> i32 \<times> i32 \<Rightarrow> byte list" where
  "exit_data p tgid code sig par = put32 p @ put32 tgid @ put32 code @ put32 sig @ put32 (fst par) @ put32 (snd par)"

fun encode_event :: "nl_meta \<Rightarrow> proc_event \<Rightarrow> byte list" where
  "encode_event m (Exec p tgid pad ts) = cn_event m 0x00000002 ts (exec_data p tgid pad)"
| "encode_event m (Exit p tgid code sig par ts) = cn_event m 0x80000000 ts (exit_data p tgid code sig par)"
| "encode_event m (Other what ev ts) = cn_event m what ts ev"

text \<open>The data has the 24 bytes of the union.\<close>

fun event_ok :: "proc_event \<Rightarrow> bool" where
  "event_ok (Exec p tgid pad ts) \<longleftrightarrow> length pad = 16"
| "event_ok (Exit p tgid code sig par ts) \<longleftrightarrow> True"
| "event_ok (Other what ev ts) \<longleftrightarrow> what \<noteq> 0x00000002 \<and> what \<noteq> 0x80000000 \<and> length ev = 24"

definition nl_events :: "(nl_meta \<times> proc_event) list \<Rightarrow> byte list" where
  "nl_events es = concat (map (\<lambda>(m, e). nl_frame m (encode_event m e)) es)"

fun run_event :: "procfs \<Rightarrow> exec_opts \<Rightarrow> nat \<Rightarrow> proc_event \<Rightarrow> exec_st \<Rightarrow> exec_st outcome" where
  "run_event fs cfg fuel (Exec p tgid pad ts) st = handleExec fs cfg fuel (exec_data p tgid pad) ts st"
| "run_event fs cfg fuel (Exit p tgid code sig par ts) st = handleExit cfg (exit_data p tgid code sig par) ts st"
| "run_event fs cfg fuel (Other what ev ts) st = Inr st"

fun run_events :: "procfs \<Rightarrow> exec_opts \<Rightarrow> nat \<Rightarrow> proc_event list \<Rightarrow> exec_st \<Rightarrow> exec_st outcome" where
  "run_events fs cfg fuel [] st = Inr st"
| "run_events fs cfg fuel (e # es) st = and_then (run_event fs cfg fuel e st) (run_events fs cfg fuel es)"

section \<open>Delivery\<close>

lemma le64_at_put64 [byte_simps]: "i = length pre \<Longrightarrow> le64_at (pre @ put64 v @ post) i = Inr v"
proof -
  assume i: "i = length pre"
  have "le32_at (pre @ put32 (ucast v) @ (put32 (ucast (drop_bit 32 v)) @ post)) i = Inr (ucast v)"
    using i by (rule le32_at_put32)
  moreover have "le32_at ((pre @ put32 (ucast v)) @ put32 (ucast (drop_bit 32 v)) @ post) (i + 4) = Inr (ucast (drop_bit 32 v))"
    using i by (intro le32_at_put32) simp
  moreover have "ucast (ucast v :: u32) OR push_bit 32 (ucast (ucast (drop_bit 32 v) :: u32)) = v"
    by (rule bit_word_eqI) (auto simp: bit_simps)
  ultimately show ?thesis by (simp add: le64_at_def put64_def)
qed

lemma length_cn_event [simp]: "length (cn_event m what ts ev) = 36 + length ev"
  by (simp add: cn_event_def put64_def)

lemma dispatch_cn_event:
  "dispatch_event fs cfg fuel (cn_event m what ts ev) st =
     (if what = 0x00000002 then handleExec fs cfg fuel ev ts st
      else if what = 0x80000000 then handleExit cfg ev ts st else Inr st)"
proof -
  let ?d = "cn_event m what ts ev"
  let ?a = "put32 1 @ put32 1 @ put32 (cm_seq m) @ put32 (cm_ack m) @ put16 (of_nat (16 + length ev)) @ put16 (cm_flags m)"
  have "le32_at ?d 0 = Inr 1" using le32_at_put32 [of 0 "[]" 1] by (simp add: cn_event_def)
  moreover have "le32_at ?d 4 = Inr 1" using le32_at_put32 [of 4 "put32 1" 1] by (simp add: cn_event_def)
  moreover have "le32_at ?d 20 = Inr what" using le32_at_put32 [of 20 ?a what] by (simp add: cn_event_def)
  moreover have "le64_at ?d (20 + 8) = Inr ts"
    using le64_at_put64 [of 28 "?a @ put32 what @ put32 (ev_cpu m)" ts ev] by (simp add: cn_event_def)
  moreover have "drop (20 + 16) ?d = ev" by (simp add: cn_event_def put64_def)
  ultimately show ?thesis unfolding dispatch_event_def by simp
qed

lemma dispatch_encoded: "event_ok e \<Longrightarrow> dispatch_event fs cfg fuel (encode_event m e) st = run_event fs cfg fuel e st"
  by (cases e) (auto simp: dispatch_cn_event)

lemma encode_length: "event_ok e \<Longrightarrow> length (encode_event m e) = 60"
  by (cases e) (auto simp: exec_data_def exit_data_def)

lemma nlmsg_align_of_nat: "n < 2147483648 \<Longrightarrow> nlmsg_align (of_nat n) = (n + 3) div 4 * 4"
proof -
  assume n: "n < 2147483648"
  have "(3 :: u32) = mask 2" by (simp add: mask_eq_exp_minus_1)
  have "(of_nat n + 3 :: u32) AND NOT 3 = push_bit 2 (drop_bit 2 (of_nat n + 3))"
    unfolding \<open>(3 :: u32) = mask 2\<close>
    by (rule bit_word_eqI) (auto simp: bit_simps not_less dest!: le_Suc_ex)
  moreover have "(of_nat n + 3 :: u32) = of_nat (n + 3)" by simp
  moreover have "unat (push_bit 2 (drop_bit 2 (of_nat (n + 3) :: u32))) = (n + 3) div 4 * 4"
  proof -
    have w: "unat (of_nat (n + 3) :: u32) = n + 3" using n by (simp only: unsigned_of_nat take_bit_eq_mod) simp
    have "push_bit 2 (drop_bit 2 (n + 3)) = (n + 3) div 4 * 4" by (simp add: push_bit_eq_mult drop_bit_eq_div)
    moreover have "take_bit LENGTH(32) ((n + 3) div 4 * 4) = (n + 3) div 4 * 4"
      using n by (simp only: take_bit_eq_mod) simp
    moreover have "take_bit LENGTH(32) (n + 3) = n + 3" using n by (simp add: take_bit_eq_mod)
    ultimately show ?thesis by (simp only: unsigned_push_bit_eq unsigned_drop_bit_eq w)
  qed
  ultimately show "nlmsg_align (of_nat n) = (n + 3) div 4 * 4" by (simp only: nlmsg_align_def)
qed

lemma nlmsg_align_mult4: "4 dvd n \<Longrightarrow> n < 2147483648 \<Longrightarrow> nlmsg_align (of_nat n) = n"
  by (auto simp: nlmsg_align_of_nat)

lemma dispatch_frame:
  assumes "4 dvd length body" "length body < 2147483632"
  shows "dispatchNlMsg fs cfg fuel (pre @ nl_frame m body @ post) (length pre) st =
    and_then (dispatch_event fs cfg fuel body st)
      (dispatchNlMsg fs cfg fuel (pre @ nl_frame m body @ post) (length (pre @ nl_frame m body)))"
proof -
  let ?data = "pre @ nl_frame m body @ post" and ?len = "of_nat (16 + length body) :: u32"
  have len: "length (nl_frame m body) = 16 + length body" by (simp add: nl_frame_def)
  have "le32_at ?data (length pre) = Inr ?len"
    using le32_at_put32 [of "length pre" pre ?len] by (simp add: nl_frame_def)
  moreover have u: "unat ?len = 16 + length body"
    using assms by (simp add: unsigned_of_nat take_bit_eq_mod del: of_nat_add)
  moreover have "nlmsg_align ?len = 16 + length body"
    using assms by (intro nlmsg_align_mult4) simp_all
  moreover have "take (length body) (drop (length pre + 16) ?data) = body" by (simp add: nl_frame_def)
  ultimately show ?thesis
    using len by (subst dispatchNlMsg.simps) (simp add: add.assoc del: of_nat_add)
qed

lemma dispatch_frames:
  assumes "\<And>m e. (m, e) \<in> set es \<Longrightarrow> event_ok e"
  shows "dispatchNlMsg fs cfg fuel (pre @ nl_events es) (length pre) st = run_events fs cfg fuel (map snd es) st"
  using assms
proof (induction es arbitrary: pre st)
  case Nil
  show ?case by (subst dispatchNlMsg.simps) (simp add: nl_events_def)
next
  case (Cons me es)
  obtain m e where me: "me = (m, e)" by (cases me)
  have e: "event_ok e" using Cons.prems me by auto
  let ?f = "nl_frame m (encode_event m e)"
  have split: "nl_events (me # es) = ?f @ nl_events es" by (simp add: nl_events_def me)
  have "dispatchNlMsg fs cfg fuel (pre @ ?f @ nl_events es) (length (pre @ ?f)) st' = run_events fs cfg fuel (map snd es) st'" for st'
    using Cons.IH [of "pre @ ?f" st'] Cons.prems by auto
  then show ?case
    unfolding split using dispatch_frame [of "encode_event m e" fs cfg fuel pre m "nl_events es" st] encode_length [OF e, of m] dispatch_encoded [OF e]
    by (simp add: me fun_eq_iff [symmetric] and_then_def split: sum.splits)
qed

section \<open>Memory safety of the walk\<close>

lemma pidDepth_in_bounds: "pidDepth fs cfg db fuel p \<noteq> Inl OutOfBounds"
  by (induction fuel arbitrary: p)
    (auto simp: Let_def and_then_eq_Inl split: option.splits if_splits)

lemma rehash_in_bounds: "probe_rehash fresh clear copy fuel j db \<noteq> Inl OutOfBounds"
  by (induction fuel arbitrary: j db) (auto simp: Let_def split: option.splits)

lemma handleExec_in_bounds: "handleExec fs cfg fuel data ts st \<noteq> Inl OutOfBounds"
  by (auto simp: handleExec_def Let_def pidDepth_in_bounds and_then_eq_Inl split: option.splits if_splits)

lemma handleExit_in_bounds: "handleExit cfg data ts st \<noteq> Inl OutOfBounds"
proof -
  have "piddb_delete db p \<noteq> Inl OutOfBounds" for db p
    by (simp add: piddb_delete_def probe_delete_def rehash_in_bounds split: option.splits)
  then show ?thesis
    by (auto simp: handleExit_def Let_def and_then_eq_Inl split: option.splits)
qed

lemma dispatch_event_in_bounds: "dispatch_event fs cfg fuel d st \<noteq> Inl OutOfBounds"
proof (cases "length d \<ge> 36")
  case True
  then show ?thesis
    by (simp add: dispatch_event_def le64_at_def Let_def handleExec_in_bounds handleExit_in_bounds)
qed (simp add: dispatch_event_def)

lemma dispatch_in_bounds: "dispatchNlMsg fs cfg fuel data off st \<noteq> Inl OutOfBounds"
proof (induction fs cfg fuel data off st rule: dispatchNlMsg.induct)
  case (1 fs cfg fuel data off st)
  then show ?case
    by (subst dispatchNlMsg.simps) (auto simp: dispatch_event_in_bounds and_then_eq_Inl)
qed

section \<open>Reachable states\<close>

text \<open>A state of the tracer: the initial one, or the one after an event was handled, with whatever the
  process file system holds at that moment, while the table has a free slot.\<close>

inductive exec_reach :: "exec_opts \<Rightarrow> exec_st \<Rightarrow> bool" for cfg where
  start: "exec_reach cfg \<lparr>pdb = empty_piddb, outs = '''', errs = ''''\<rparr>"
| event: "exec_reach cfg st \<Longrightarrow> not_full (pdb st) \<Longrightarrow> run_event fs cfg fuel e st = Inr st' \<Longrightarrow> exec_reach cfg st'"

definition exec_inv :: "exec_st \<Rightarrow> bool" where
  "exec_inv st \<longleftrightarrow> probe_ok (pdb st) \<and>
     (\<forall>p ent. lookup (pdb st) p = Some ent \<longrightarrow> 0 \<le> depth ent \<and> cmdline ent \<noteq> None)"

lemma exec_data_simps [simp]: "length (exec_data p t pad) = 8 + length pad" "le32_at (exec_data p t pad) 0 = Inr p"
  using le32_at_put32 [of 0 "[]" p "put32 t @ pad"] by (simp_all add: exec_data_def)

lemma exit_data_simps [simp]:
  "length (exit_data p t c sig par) = 24" "le32_at (exit_data p t c sig par) 0 = Inr p" "le32_at (exit_data p t c sig par) 8 = Inr c"
  using le32_at_put32 [of 0 "[]" p] le32_at_put32 [of 8 "put32 p @ put32 t" c] by (simp_all add: exit_data_def)

lemma run_event_inv:
  assumes inv: "exec_inv st" and room: "not_full (pdb st)" and run: "run_event fs cfg fuel e st = Inr st'"
  shows "exec_inv st'"
proof (cases e)
  case (Exec p t pad ts)
  with run obtain d err where d: "pidDepth fs cfg (pdb st) fuel p = Inr (d, err)"
    by (cases "pidDepth fs cfg (pdb st) fuel p") (auto simp: handleExec_def)
  show ?thesis
  proof (cases "d < 0")
    case True
    then have "st' = st\<lparr>errs := errs st @ err\<rparr>"
      using run Exec handleExec_untracked [of "exec_data p t pad" p fs cfg st fuel d err ts] d by simp
    then show ?thesis using inv by (simp add: exec_inv_def)
  next
    case False
    then show ?thesis
      using handleExec_tracked [of st "exec_data p t pad" p fs cfg fuel d err ts] d run Exec inv room
      by (auto simp: exec_inv_def traced_def)
  qed
next
  case (Exit p t code sig par ts)
  then show ?thesis
    using handleExit_spec [of st "exit_data p t code sig par" p code cfg ts] run inv room by (auto simp: exec_inv_def)
next
  case (Other what ev ts)
  then show ?thesis using run inv by simp
qed

lemma exec_reach_inv: "exec_reach cfg st \<Longrightarrow> exec_inv st"
proof (induction rule: exec_reach.induct)
  case start
  show ?case by (simp add: exec_inv_def)
next
  case (event st fs fuel e st')
  then show ?case using run_event_inv by blast
qed

lemma run_event_progress:
  assumes inv: "exec_inv st" and room: "not_full (pdb st)"
    and walk: "\<And>p. \<exists>r. pidDepth fs cfg (pdb st) fuel p = Inr r"
  shows "\<exists>st'. run_event fs cfg fuel e st = Inr st'"
proof (cases e)
  case (Exec p t pad ts)
  obtain d err where d: "pidDepth fs cfg (pdb st) fuel p = Inr (d, err)" using walk by force
  show ?thesis
    using handleExec_tracked [of st "exec_data p t pad" p fs cfg fuel d err ts]
      handleExec_untracked [of "exec_data p t pad" p fs cfg st fuel d err ts] d Exec inv room
    by (cases "d < 0") (auto simp: exec_inv_def)
next
  case (Exit p t code sig par ts)
  then show ?thesis
    using handleExit_spec [of st "exit_data p t code sig par" p code cfg ts] inv room by (auto simp: exec_inv_def)
qed simp

lemma pidDepth_terminates:
  assumes "acyclic_parents fs rank" "rank p < fuel"
  shows "\<exists>r. pidDepth fs cfg db fuel p = Inr r"
  using assms(2)
proof (induction fuel arbitrary: p)
  case (Suc fuel)
  show ?case
  proof (cases "parent fs p")
    case None
    then have "sint (statPPID fs p) < 0 \<or> statPPID fs p = 0"
      by (auto simp: parent_def Let_def split: if_splits) (metis le_less signed_eq_0_iff)
    then show ?thesis by (auto simp: Let_def)
  next
    case (Some q)
    then have q: "q = statPPID fs p" by (auto simp: parent_def Let_def split: if_splits)
    have "rank q < fuel" using assms(1) Some Suc.prems by (fastforce simp: acyclic_parents_def)
    then obtain d e where "pidDepth fs cfg db fuel q = Inr (d, e)" using Suc.IH by force
    then show ?thesis using q by (auto simp: Let_def split: option.splits)
  qed
qed simp

lemma elapsed_text_near:
  assumes "unat (tsNs - start) < 2 ^ 53"
  shows "\<exists>ms. elapsed_text tsNs start = ''time='' @ dec_nat (ms div 1000) @ ''.'' @ zero_pad 3 (dec_nat (ms mod 1000)) @ ''s''
    \<and> ms * 1000000 < unat (tsNs - start) + 1000000 \<and> unat (tsNs - start) < ms * 1000000 + 1000000"
proof -
  let ?ns = "unat (tsNs - start)"
  let ?ms = "ms_of_ns ?ns"
  have near: "?ms * 1000000 < ?ns + 1000000" "?ns < ?ms * 1000000 + 1000000"
    using ms_of_ns_near [OF assms] by simp_all
  have "?ms div 1000 < 10 ^ Suc 9" using near(1) assms by simp
  then have "length (dec_nat (?ms div 1000)) \<le> Suc 9" by (rule length_dec_nat)
  moreover have "length (dec_nat (?ms mod 1000)) \<le> Suc 2" by (rule length_dec_nat) simp
  ultimately have "length (''time='' @ dec_nat (?ms div 1000) @ ''.'' @ zero_pad 3 (dec_nat (?ms mod 1000)) @ ''s'') < 32"
    by (simp add: zero_pad_def)
  then have "elapsed_text tsNs start = ''time='' @ dec_nat (?ms div 1000) @ ''.'' @ zero_pad 3 (dec_nat (?ms mod 1000)) @ ''s''"
    by (simp add: elapsed_text_def fmt_fixed_def ms_of_ns_def Let_def)
  with near show ?thesis by blast
qed

section \<open>Depths in the table\<close>

text \<open>\<open>fs\<close> shows no process with another parent than \<open>fs0\<close> does; it may show fewer processes.\<close>

definition sub_world :: "procfs \<Rightarrow> procfs \<Rightarrow> bool" where
  "sub_world fs fs0 \<longleftrightarrow> (\<forall>p q. parent fs p = Some q \<longrightarrow> parent fs0 p = Some q)"

lemma sub_world_refl [simp]: "sub_world fs fs" by (simp add: sub_world_def)

lemma sub_world_depth: "depth_of fs cfg p d \<Longrightarrow> sub_world fs fs0 \<Longrightarrow> depth_of fs0 cfg p d"
  by (induction rule: depth_of.induct) (auto simp: sub_world_def intro: depth_of.intros)

text \<open>The states the tracer reaches while every process keeps the parent it has in \<open>fs0\<close>.\<close>

inductive calm_reach :: "procfs \<Rightarrow> exec_opts \<Rightarrow> exec_st \<Rightarrow> bool" for fs0 cfg where
  start: "calm_reach fs0 cfg \<lparr>pdb = empty_piddb, outs = '''', errs = ''''\<rparr>"
| event: "calm_reach fs0 cfg st \<Longrightarrow> not_full (pdb st) \<Longrightarrow> sub_world fs fs0 \<Longrightarrow> run_event fs cfg fuel e st = Inr st' \<Longrightarrow>
    calm_reach fs0 cfg st'"

lemma calm_reach_reach: "calm_reach fs0 cfg st \<Longrightarrow> exec_reach cfg st"
  by (induction rule: calm_reach.induct) (auto intro: exec_reach.intros)

text \<open>Every non-negative answer is a true depth, whatever part of the world is visible.\<close>

lemma pidDepth_sound:
  assumes "sub_world fs fs0" "depths_true fs0 cfg db" "pidDepth fs cfg db fuel p = Inr (d, e)"
  shows "d = - 1 \<or> depth_of fs0 cfg p d"
  using assms(3)
proof (induction fuel arbitrary: p d e)
  case (Suc fuel)
  let ?q = "statPPID fs p"
  show ?case
  proof (cases "isWatchRoot cfg p \<or> sint ?q < 0 \<or> ?q = 0")
    case True
    then show ?thesis using Suc.prems by (auto simp: Let_def intro: depth_of.root split: if_splits)
  next
    case False
    then have "sint ?q \<noteq> 0" by (metis signed_eq_0_iff)
    with False have "parent fs p = Some ?q" by (simp add: parent_def Let_def)
    then have q: "parent fs0 p = Some ?q" using assms(1) by (simp add: sub_world_def)
    show ?thesis
    proof (cases "isWatchRoot cfg ?q")
      case True
      then show ?thesis using Suc.prems False q by (auto simp: Let_def intro: depth_of.child)
    next
      case nr: False
      then have up: "depth_of fs0 cfg ?q k \<Longrightarrow> depth_of fs0 cfg p (k + 1)" for k
        using q False by (auto intro: depth_of.deeper)
      show ?thesis
      proof (cases "piddb_find db ?q")
        case (Some i)
        then have "depth_of fs0 cfg ?q (depth (tab db i))"
          using assms(2) by (simp add: depths_true_def lookup_def piddb_find_def)
        then show ?thesis using Suc.prems False nr Some up by (auto simp: Let_def)
      next
        case None
        then obtain k e' where k: "pidDepth fs cfg db fuel ?q = Inr (k, e')" "d = (if k < 0 then - 1 else k + 1)"
          using Suc.prems False nr by (auto simp: Let_def and_then_eq_Inr split: if_splits)
        then show ?thesis using Suc.IH [OF k(1)] up by auto
      qed
    qed
  qed
qed simp

lemma run_event_depths_true:
  assumes inv: "exec_inv st" and room: "not_full (pdb st)" and sub: "sub_world fs fs0"
    and true: "depths_true fs0 cfg (pdb st)" and run: "run_event fs cfg fuel e st = Inr st'"
  shows "depths_true fs0 cfg (pdb st')"
proof (cases e)
  case (Exec p t pad ts)
  with run obtain d err where d: "pidDepth fs cfg (pdb st) fuel p = Inr (d, err)"
    by (cases "pidDepth fs cfg (pdb st) fuel p") (auto simp: handleExec_def)
  show ?thesis
  proof (cases "d < 0")
    case True
    then have "st' = st\<lparr>errs := errs st @ err\<rparr>"
      using run Exec handleExec_untracked [of "exec_data p t pad" p fs cfg st fuel d err ts] d by simp
    then show ?thesis using true by simp
  next
    case False
    then have "depth_of fs0 cfg p d" using pidDepth_sound [OF sub true d] by auto
    moreover have "lookup (pdb st') = (lookup (pdb st))(p \<mapsto> traced p d ts (readFirstArg fs p))"
      using handleExec_tracked [of st "exec_data p t pad" p fs cfg fuel d err ts] d run Exec inv room False
      by (auto simp: exec_inv_def)
    ultimately show ?thesis using true by (simp add: depths_true_def traced_def)
  qed
next
  case (Exit p t code sig par ts)
  then have "lookup (pdb st') = (lookup (pdb st))(p := None)"
    using handleExit_spec [of st "exit_data p t code sig par" p code cfg ts] run inv room by (auto simp: exec_inv_def)
  then show ?thesis using true by (simp add: depths_true_def)
next
  case (Other what ev ts)
  then show ?thesis using run true by simp
qed

lemma calm_reach_true:
  assumes "calm_reach fs0 cfg st" "acyclic_parents fs0 rank"
  shows "depths_true fs0 cfg (pdb st)"
  using assms(1)
proof (induction rule: calm_reach.induct)
  case start
  show ?case by (simp add: depths_true_def)
next
  case (event st fs fuel e st')
  then show ?case using run_event_depths_true exec_reach_inv calm_reach_reach by blast
qed

lemma pidDepth_sub_world:
  assumes "acyclic_parents fs0 rank" "sub_world fs fs0" "depths_true fs0 cfg db" "rank p < fuel"
  shows "\<exists>d e. pidDepth fs cfg db fuel p = Inr (d, e) \<and>
    (d = - 1 \<or> depth_of fs0 cfg p d) \<and> (d = - 1 \<and> sub_world fs0 fs \<longrightarrow> (\<nexists>k. depth_of fs0 cfg p k))"
proof -
  have ac: "acyclic_parents fs rank" using assms(1,2) by (auto simp: acyclic_parents_def sub_world_def)
  from pidDepth_terminates [OF ac assms(4)] obtain d e where d: "pidDepth fs cfg db fuel p = Inr (d, e)" by force
  have "\<nexists>k. depth_of fs0 cfg p k" if "d = - 1" "sub_world fs0 fs"
  proof -
    have "depths_true fs cfg db" using assms(3) sub_world_depth [OF _ that(2)] by (auto simp: depths_true_def)
    from pidDepth_spec [OF ac this assms(4)] d that(1) have "\<nexists>k. depth_of fs cfg p k"
      by (auto dest: depth_of_nonneg split: if_splits)
    then show ?thesis using sub_world_depth [OF _ that(2)] by blast
  qed
  then show ?thesis using d pidDepth_sound [OF assms(2,3) d] by blast
qed

section \<open>A full table\<close>

text \<open>The multiplier of the hash is odd, so it has an inverse modulo \<open>2\<^sup>3\<^sup>2\<close>: processes \<open>i * 244002641\<close>
  have the home slots \<open>i\<close>.\<close>

definition full_piddb :: pidDB where
  "full_piddb = \<lparr>tab = (\<lambda>i. piddb_fresh (of_nat i * 244002641)), plen = int CAP\<rparr>"

lemma pid_hash_inverse: "i < CAP \<Longrightarrow> unat (pid_hash (of_nat i * 244002641)) = i"
proof -
  assume i: "i < CAP"
  have "(of_nat i * 244002641 :: u32) * 2654435761 = of_nat i * (244002641 * 2654435761)" by (simp only: mult.assoc)
  also have "(244002641 * 2654435761 :: u32) = 1" by simp
  finally have h: "pid_hash (of_nat i * 244002641) = of_nat i AND 16383" by (simp only: pid_hash_def mult_1_right)
  have "unat (of_nat i :: u32) = i" using i by (simp add: unsigned_of_nat take_bit_eq_mod)
  then show ?thesis unfolding h unat_mask14 using i by simp
qed

lemma full_piddb_ok: "probe_ok full_piddb" "\<not> not_full full_piddb"
proof -
  have home: "home (tab full_piddb i) = i" if "i < CAP" for i
    using pid_hash_inverse [OF that] by (simp add: home_def full_piddb_def piddb_fresh_def)
  have "keys_distinct (tab full_piddb)"
    unfolding keys_distinct_def using home by (metis home_def)
  moreover have "path_ok (tab full_piddb) i" if "i < CAP" for i
    using home [OF that] by (simp add: path_ok_def path_used_def dist_def full_piddb_def piddb_fresh_def)
  moreover have "card (used_slots (tab full_piddb)) = CAP"
    by (rule card_used_full) (simp add: full_piddb_def piddb_fresh_def)
  ultimately show "probe_ok full_piddb" by (simp add: probe_ok_def) (simp add: full_piddb_def)
  show "\<not> not_full full_piddb" by (simp add: not_full_def full_piddb_def)
qed

lemma full_piddb_lacks_1: "lookup full_piddb 1 = None"
proof -
  have "e_pid (tab full_piddb s) \<noteq> 1" if "s < CAP" for s
  proof
    assume e: "e_pid (tab full_piddb s) = 1"
    then have "s = unat (pid_hash 1)"
      using pid_hash_inverse [OF that] by (simp add: full_piddb_def piddb_fresh_def)
    then have "s = 14769" by (simp add: pid_hash_def)
    then show False using e by (simp add: full_piddb_def piddb_fresh_def)
  qed
  then show ?thesis by (auto simp: lookup_None_iff [OF full_piddb_ok(1)] entries_def used_slots_def)
qed

section \<open>Claims\<close>

definition sample_cfg :: exec_opts where
  "sample_cfg = \<lparr>watchPIDs = [1], showCwd = False, showEnv = False, flatMode = False, fullPath = False,
     showArgs = True, showErrors = True, showExit = True, showUser = False, colorMode = False, colorForce = False\<rparr>"

definition sample_rank :: "i32 \<Rightarrow> nat" where
  "sample_rank p = (if p = 42 then 2 else if p = 17 then 1 else 0)"

lemma sample_parents:
  "parent sample_fs p = (if p = 42 then Some 17 else if p = 17 then Some 1 else None)"
proof -
  have "statPPID sample_fs 42 = of_nat 17"
    by (rule statPPID_record [where pre = "''42 (a) b''" and st = "''S''" and rest = "''0 0''"])
      (simp_all add: sample_fs_def isspace_def)
  moreover have "statPPID sample_fs 17 = of_nat 1"
    by (rule statPPID_record [where pre = "''17 (init''" and st = "''S''" and rest = "''0''"])
      (simp_all add: sample_fs_def isspace_def)
  moreover have "p \<noteq> 42 \<Longrightarrow> p \<noteq> 17 \<Longrightarrow> statPPID sample_fs p = - 1" for p
    by (simp add: statPPID_def sample_fs_def)
  ultimately show ?thesis by (simp add: parent_def)
qed

lemma sample_acyclic: "acyclic_parents sample_fs sample_rank"
  by (simp add: acyclic_parents_def sample_parents sample_rank_def)

lemma sample_depth: "depth_of sample_fs sample_cfg 42 1"
proof -
  have "depth_of sample_fs sample_cfg 17 0"
    by (rule depth_of.child [where q = 1]) (simp_all add: sample_parents isWatchRoot_def sample_cfg_def)
  then have "depth_of sample_fs sample_cfg 42 (0 + 1)"
    by (intro depth_of.deeper [where q = 17]) (simp_all add: sample_parents isWatchRoot_def sample_cfg_def)
  then show ?thesis by simp
qed

definition start_st :: "pidDB \<Rightarrow> exec_st" where
  "start_st db = \<lparr>pdb = db, outs = '''', errs = ''''\<rparr>"

lemma sample_first_event:
  "\<exists>st. run_event sample_fs sample_cfg 3 (Exec 17 17 (replicate 16 0) 5) (start_st empty_piddb) = Inr st \<and> lookup (pdb st) 17 \<noteq> None"
proof -
  have "statPPID sample_fs 17 = of_nat 1"
    by (rule statPPID_record [where pre = "''17 (init''" and st = "''S''" and rest = "''0''"])
      (simp_all add: sample_fs_def isspace_def)
  then have "pidDepth sample_fs sample_cfg empty_piddb (Suc 2) 17 = Inr (0, '''')"
    unfolding pidDepth.simps by (simp add: isWatchRoot_def sample_cfg_def)
  then have d: "pidDepth sample_fs sample_cfg (pdb (start_st empty_piddb)) 3 17 = Inr (0, '''')"
    by (simp only: start_st_def exec_st.simps numeral_3_eq_3 numeral_2_eq_2)
  have ok: "probe_ok (pdb (start_st empty_piddb))" "not_full (pdb (start_st empty_piddb))" by (simp_all add: start_st_def)
  have data: "8 \<le> length (exec_data 17 17 (replicate 16 0))" "le32_at (exec_data 17 17 (replicate 16 0)) 0 = Inr 17" by simp_all
  obtain st where "handleExec sample_fs sample_cfg 3 (exec_data 17 17 (replicate 16 0)) 5 (start_st empty_piddb) = Inr st"
    "lookup (pdb st) = (lookup (pdb (start_st empty_piddb)))(17 \<mapsto> traced 17 0 5 (readFirstArg sample_fs 17))"
    using handleExec_tracked [OF ok data d order_refl, of 5] by (elim exE conjE)
  then show ?thesis unfolding run_event.simps by (intro exI [of _ st]) (simp only: fun_upd_same option.distinct simp_thms)
qed



lemma sample_walk: "\<exists>e. pidDepth sample_fs sample_cfg empty_piddb 3 42 = Inr (1, e)"
proof -
  have "depths_true sample_fs sample_cfg empty_piddb" by (simp add: depths_true_def)
  from pidDepth_spec [OF sample_acyclic this, of 42 3] obtain d e
    where "pidDepth sample_fs sample_cfg empty_piddb 3 42 = Inr (d, e)" "depth_of sample_fs sample_cfg 42 d"
    using sample_depth by (auto simp: sample_rank_def split: if_splits)
  then show ?thesis using depth_of_unique [OF _ sample_depth] by blast
qed

text \<open>
  C20. An exec event of a descendant of a watched process: the table maps the process to its new depth,
  start time and command and every other process as before, it stays well formed, and the output is
  the \<open>execed\<close> line of a process that was known (with \<^verbatim>\<open>-t\<close>) followed by the line of the new program.
\<close>

theorem handleExec_records:
  assumes "probe_ok (pdb st)" "not_full (pdb st)" "8 \<le> length data" "le32_at data 0 = Inr p"
    and "pidDepth fs cfg (pdb st) fuel p = Inr (d, e)" "0 \<le> d"
  shows "\<exists>st'. handleExec fs cfg fuel data tsNs st = Inr st' \<and> probe_ok (pdb st') \<and>
    lookup (pdb st') = (lookup (pdb st))(p \<mapsto> traced p d tsNs (readFirstArg fs p)) \<and> errs st' = errs st @ e \<and>
    outs st' = outs st @ execed_text cfg (lookup (pdb st) p) p @ printExec fs cfg p d"
  by (rule handleExec_tracked [OF assms])

theorem handleExec_records_witness:
  "\<exists>st'. handleExec sample_fs sample_cfg 3 (exec_data 42 42 (replicate 16 0)) 5 (start_st empty_piddb) = Inr st' \<and>
     lookup (pdb st') = [42 \<mapsto> traced 42 1 5 ''sh''] \<and> outs st' = printExec sample_fs sample_cfg 42 1"
proof -
  obtain e where e: "pidDepth sample_fs sample_cfg empty_piddb 3 42 = Inr (1, e)" using sample_walk by blast
  have "readCmdline sample_fs 42 = [''sh'', '''', ''-c'']"
    using nul_vector_encode [of "[''sh'', '''', ''-c'', '''']"] by (simp add: readCmdline_def sample_fs_def)
  then have "readFirstArg sample_fs 42 = ''sh''" by (simp add: readFirstArg_def)
  then show ?thesis
    using handleExec_records [of "start_st empty_piddb" "exec_data 42 42 (replicate 16 0)" 42 sample_fs sample_cfg 3 1 e 5] e
    by (auto simp: start_st_def execed_text_def)
qed

text \<open>
  When the table has no free slot, an exec event of a traced process that is not in it makes
  \<^verbatim>\<open>handleExec\<close> use the null pointer \<^verbatim>\<open>piddb_get\<close> returned.
\<close>

theorem handleExec_full_table:
  assumes "probe_ok (pdb st)" "\<not> not_full (pdb st)" "lookup (pdb st) p = None"
    and "8 \<le> length data" "le32_at data 0 = Inr p" "pidDepth fs cfg (pdb st) fuel p = Inr (d, e)" "0 \<le> d"
  shows "handleExec fs cfg fuel data tsNs st = Inl NullDeref"
  by (rule handleExec_full [OF assms])

theorem handleExec_full_table_witness:
  "handleExec sample_fs sample_cfg 1 (exec_data 1 1 (replicate 16 0)) 5 (start_st full_piddb) = Inl NullDeref"
  using handleExec_full_table [of "start_st full_piddb" 1 "exec_data 1 1 (replicate 16 0)" sample_fs sample_cfg 1 0 "''''" 5]
    full_piddb_ok full_piddb_lacks_1
  by (simp add: start_st_def isWatchRoot_def sample_cfg_def)

text \<open>
  An exit event removes exactly that process from the table and, with \<^verbatim>\<open>-t\<close>, prints its exit
  line from the entry it had; an unknown process changes nothing.
\<close>

theorem handleExit_removes:
  assumes "probe_ok (pdb st)" "not_full (pdb st)"
    and "24 \<le> length data" "le32_at data 0 = Inr p" "le32_at data 8 = Inr code"
  shows "\<exists>st'. handleExit cfg data tsNs st = Inr st' \<and> probe_ok (pdb st') \<and>
    lookup (pdb st') = (lookup (pdb st))(p := None) \<and> errs st' = errs st \<and>
    outs st' = outs st @ (case lookup (pdb st) p of None \<Rightarrow> ''''
      | Some ent \<Rightarrow> if showExit cfg then exit_line cfg ent p code tsNs else '''')"
  by (rule handleExit_spec [OF assms])

theorem handleExit_removes_witness:
  "\<exists>db st'. lookup db = [7 \<mapsto> piddb_fresh 7, 16391 \<mapsto> piddb_fresh 16391] \<and>
     handleExit sample_cfg (exit_data 7 7 256 17 (1, 1)) 9 (start_st db) = Inr st' \<and>
     lookup (pdb st') 7 = None \<and> lookup (pdb st') 16391 = Some (piddb_fresh 16391) \<and>
     outs st' = exit_line sample_cfg (piddb_fresh 7) 7 256 9"
proof -
  obtain db where db: "probe_ok db" "lookup db = [7 \<mapsto> piddb_fresh 7, 16391 \<mapsto> piddb_fresh 16391]" "not_full db"
    using two_entries by blast
  have "showExit sample_cfg" by (simp add: sample_cfg_def)
  then show ?thesis
    using handleExit_removes [of "start_st db" "exit_data 7 7 256 17 (1, 1)" 7 256 sample_cfg 9] db
    by (intro exI [of _ db]) (auto simp: start_st_def)
qed

text \<open>
  C4. The walk over a datagram of process events in the kernel's format, whatever the other header fields and the unused
  bytes of an event hold, hands every exec and exit event in it to its handler exactly once, in order, with the data,
  process and time stamp the kernel put there, and skips the other kinds.
\<close>

theorem datagram_delivered:
  assumes "\<And>m e. (m, e) \<in> set es \<Longrightarrow> event_ok e"
  shows "dispatchNlMsg fs cfg fuel (nl_events es) 0 st = run_events fs cfg fuel (map snd es) st"
  using dispatch_frames [of es fs cfg fuel "[]" st] assms by simp

definition sample_meta :: nl_meta where
  "sample_meta = \<lparr>nm_type = 3, nm_flags = 0, nm_seq = 77, nm_port = 0, cm_seq = 77, cm_ack = 0, cm_flags = 0, ev_cpu = 2\<rparr>"

definition sample_events :: "proc_event list" where
  "sample_events = [Exec 42 42 (replicate 16 0) 5, Other 1 (replicate 24 0) 6, Exit 42 42 0 17 (17, 17) 9]"

theorem datagram_delivered_witness:
  "length (nl_events (map (Pair sample_meta) sample_events)) = 3 * 76 \<and>
   dispatchNlMsg sample_fs sample_cfg 3 (nl_events (map (Pair sample_meta) sample_events)) 0 (start_st empty_piddb)
   = run_events sample_fs sample_cfg 3 sample_events (start_st empty_piddb)"
proof -
  have "event_ok e" if "(m, e) \<in> set (map (Pair sample_meta) sample_events)" for m e
    using that by (auto simp: sample_events_def)
  from datagram_delivered [of "map (Pair sample_meta) sample_events" sample_fs sample_cfg 3 "start_st empty_piddb", OF this]
  show ?thesis by (simp add: comp_def) (simp add: sample_events_def nl_events_def nl_frame_def exec_data_def exit_data_def)
qed

text \<open>Whatever a datagram contains, the walk never reads outside it.\<close>

theorem dispatch_stays_in_bounds: "dispatchNlMsg fs cfg fuel data off st \<noteq> Inl OutOfBounds"
  by (rule dispatch_in_bounds)

text \<open>
  C5. In every state the tracer reaches while its table has free slots, the table is well formed and
  holds only processes with a non-negative depth and a command; and every further event is handled
  to the end, provided no process is its own ancestor.
\<close>

theorem exec_reach_invariant:
  assumes "exec_reach cfg st"
  shows "probe_ok (pdb st) \<and> (\<forall>p ent. lookup (pdb st) p = Some ent \<longrightarrow> 0 \<le> depth ent \<and> cmdline ent \<noteq> None) \<and>
    (not_full (pdb st) \<and> acyclic_parents fs rank \<and> (\<forall>p. rank p < fuel) \<longrightarrow>
      (\<exists>st'. run_event fs cfg fuel e st = Inr st'))"
proof -
  have inv: "exec_inv st" by (rule exec_reach_inv [OF assms])
  moreover have "\<exists>st'. run_event fs cfg fuel e st = Inr st'"
    if "not_full (pdb st)" "acyclic_parents fs rank" "\<forall>p. rank p < fuel"
    using run_event_progress [OF inv that(1)] pidDepth_terminates [OF that(2)] that(3) by blast
  ultimately show ?thesis by (auto simp: exec_inv_def)
qed

theorem exec_reach_invariant_witness:
  "exec_reach sample_cfg (start_st empty_piddb) \<and>
   (\<exists>st'. run_event sample_fs sample_cfg 3 (Exec 42 42 (replicate 16 0) 5) (start_st empty_piddb) = Inr st')"
proof -
  have "exec_reach sample_cfg (start_st empty_piddb)" unfolding start_st_def by (rule exec_reach.start)
  then show ?thesis
    using exec_reach_invariant [of sample_cfg "start_st empty_piddb" sample_fs sample_rank 3 "Exec 42 42 (replicate 16 0) 5"] sample_acyclic
    by (auto simp: start_st_def sample_rank_def)
qed

text \<open>
  The time an exit line shows is the difference of the two time stamps, in seconds with three
  decimals, and within a millisecond of the exact value for runs of up to \<open>2\<^sup>5\<^sup>3\<close> nanoseconds (over
  a hundred days).
\<close>

theorem exit_time_accurate:
  assumes "unat (tsNs - start) < 2 ^ 53"
  shows "\<exists>ms. elapsed_text tsNs start = ''time='' @ dec_nat (ms div 1000) @ ''.'' @ zero_pad 3 (dec_nat (ms mod 1000)) @ ''s''
    \<and> ms * 1000000 < unat (tsNs - start) + 1000000 \<and> unat (tsNs - start) < ms * 1000000 + 1000000"
  by (rule elapsed_text_near [OF assms])

theorem exit_time_accurate_witness:
  "\<exists>ms. elapsed_text 2500000000 1000000000 = ''time='' @ dec_nat (ms div 1000) @ ''.'' @ zero_pad 3 (dec_nat (ms mod 1000)) @ ''s''
    \<and> ms * 1000000 < 1501000000 \<and> 1499000000 < ms * 1000000"
  using exit_time_accurate [of 2500000000 1000000000] by auto

end
