(* ===== verification/Net_Events.thy ===== *)
theory Net_Events
  imports Net_Linux Exec_Events
begin

text \<open>
  What the Linux net tracer does with a datagram: every conntrack message reaches its handler, the
  handlers implement a map of the open connections, and the reachable states keep their invariant.
\<close>

section \<open>Text lengths and keys\<close>

lemma length_ip_str: "length (ip_str ip) < 46"
  using length_inet_ntop4 [of ip] length_inet_ntop6 [of ip] by (simp add: ip_str_def)

lemma length_tuple_key: "length (tuple_key t) < 160"
  by (simp add: tuple_key_def snprintf_s_less)

lemma inet_ntop4_inj:
  assumes "length a = 4" "length b = 4" "inet_ntop4 a = inet_ntop4 b"
  shows "a = b"
proof -
  have "a ! 0 = b ! 0 \<and> a ! 1 = b ! 1 \<and> a ! 2 = b ! 2 \<and> a ! 3 = b ! 3"
    using assms(3) unfolding inet_ntop4_def
    by (auto dest!: split_at simp: dec_nat_inj word_unat_eq_iff)
  then show ?thesis using list4 [OF assms(1)] list4 [OF assms(2)] by metis
qed

lemma tuple_key_inj4:
  assumes "length (src_ip t) = 4" "length (dst_ip t) = 4" "length (src_ip u) = 4" "length (dst_ip u) = 4"
    and "tuple_key t = tuple_key u"
  shows "t = u"
proof -
  have sep: "c \<notin> set (inet_ntop4 ip)" if "c \<in> {CHR '':'', CHR ''|''}" for c ip using that by (auto simp: inet_ntop4_def)
  have full: "tuple_key x = inet_ntop4 (src_ip x) @ '':'' @ dec_nat (unat (src_port x)) @ ''|'' @ inet_ntop4 (dst_ip x)
      @ '':'' @ dec_nat (unat (dst_port x)) @ ''|'' @ dec_nat (unat (proto x))"
    if "length (src_ip x) = 4" "length (dst_ip x) = 4" for x
    using that length_inet_ntop4 [of "src_ip x"] length_inet_ntop4 [of "dst_ip x"] length_byte_text [of "proto x"]
      length_show_base [of 10 "unat (src_port x)" 4] unat_u16_less [of "src_port x"]
      length_show_base [of 10 "unat (dst_port x)" 4] unat_u16_less [of "dst_port x"]
    by (simp add: tuple_key_def ip_str_def)
  have "src_ip t = src_ip u \<and> src_port t = src_port u \<and> dst_ip t = dst_ip u \<and> dst_port t = dst_port u \<and> proto t = proto u"
    using assms(5) unfolding full [OF assms(1,2)] full [OF assms(3,4)]
    by (auto dest!: split_at simp: dec_nat_inj sep word_unat_eq_iff intro: inet_ntop4_inj assms)
  then show ?thesis by simp
qed

section \<open>The handlers\<close>

lemma async_lookup_fields [simp]:
  "conns (snd (async_reverse_lookup ip st)) = conns st" "local_ips (snd (async_reverse_lookup ip st)) = local_ips st"
  by (simp_all add: async_reverse_lookup_def Let_def)

lemma event_host_conns [simp]: "conns (snd (event_host cfg orig d st)) = conns st"
  by (simp add: event_host_def case_prod_beta)

lemma print_event_conns [simp]: "conns (print_event fs cfg orig p comm d ev extra st) = conns st"
  by (simp add: print_event_def case_prod_beta)

lemma once_local_ips_fields [simp]:
  "conns (once_local_ips fs orig st) = conns st" "cache (once_local_ips fs orig st) = cache st"
  "launched_ips (once_local_ips fs orig st) = launched_ips st"
  by (simp_all add: once_local_ips_def)

text \<open>The attribution of a new connection and the entry the tracer stores for it.\<close>

definition attributed :: "netfs \<Rightarrow> net_st \<Rightarrow> conn_tuple \<Rightarrow> i32 \<times> string \<times> direction" where
  "attributed fs st orig = find_pid_and_dir fs (the_local_ips (once_local_ips fs orig st)) orig"

definition accepted :: "netfs \<Rightarrow> net_opts \<Rightarrow> i32 \<Rightarrow> direction \<Rightarrow> bool" where
  "accepted fs cfg p d \<longleftrightarrow> shown fs cfg p \<and> \<not> (outbound_only cfg \<and> d = DIR_INBOUND)"

definition entry_of :: "netfs \<Rightarrow> string \<Rightarrow> conn_tuple \<Rightarrow> i32 \<Rightarrow> string \<Rightarrow> direction \<Rightarrow> byte \<Rightarrow> conn_entry" where
  "entry_of fs k orig p comm d s =
     \<lparr>key = k, c_tuple = orig, c_pid = p, c_comm = snprintf_s 64 comm, c_dir = d, start_at = mono_now fs, tcp_state = s\<rparr>"

lemma store_conn_map:
  assumes "conns_ok t" "length k < 160"
  shows "conns_ok (store_conn fs k orig p comm d s t)"
    and "db_get (store_conn fs k orig p comm d s t) = (db_get t)(k \<mapsto> entry_of fs k orig p comm d s)"
proof -
  let ?f = "\<lambda>ent. ent\<lparr>c_tuple := orig, c_pid := p, c_comm := snprintf_s 64 comm, c_dir := d,
      start_at := mono_now fs, tcp_state := s\<rparr>"
  have "key (case db_get t k of None \<Rightarrow> conn_fresh k | Some ent \<Rightarrow> ent) = k"
    using assms(2) by (auto simp: db_get_def conn_fresh_def split: option.split dest: chain_find_key)
  then have "?f (case db_get t k of None \<Rightarrow> conn_fresh k | Some ent \<Rightarrow> ent) = entry_of fs k orig p comm d s"
    by (simp add: entry_of_def)
  then show "conns_ok (store_conn fs k orig p comm d s t)"
    "db_get (store_conn fs k orig p comm d s t) = (db_get t)(k \<mapsto> entry_of fs k orig p comm d s)"
    using conns.put_upd [OF assms, of ?f] by (simp_all add: store_conn_def keeps_key_def)
qed

lemma handle_new_spec:
  assumes "conns_ok (conns st)" "length k < 160" "attributed fs st orig = (p, comm, d)" "parse_tcp_state payload = Inr s"
  shows "\<exists>st'. handle_new fs cfg k orig payload st = Inr st' \<and> conns_ok (conns st') \<and>
    db_get (conns st') = (if accepted fs cfg p d
      then (db_get (conns st))(k \<mapsto> entry_of fs k orig p comm d (if proto orig = 6 then s else 0)) else db_get (conns st))"
  using assms store_conn_map [OF assms(1,2)] by (auto simp: handle_new_def attributed_def accepted_def Let_def)

lemma handle_update_spec:
  assumes "conns_ok (conns st)" "known st k = (p, comm, d)" "parse_tcp_state payload = Inr s"
  shows "\<exists>st'. handle_update fs cfg k orig payload st = Inr st' \<and> conns_ok (conns st') \<and>
    db_get (conns st') = (if accepted fs cfg p d \<and> proto orig = 6
      then (db_get (conns st))(k := map_option (tcp_state_update (\<lambda>_. s)) (db_get (conns st) k)) else db_get (conns st))"
  using assms by (auto simp: handle_update_def accepted_def Let_def keeps_key_def conns.upd_ok conns.look_upd)

lemma handle_destroy_spec:
  assumes "conns_ok (conns st)"
  shows "conns_ok (conns (handle_destroy fs cfg k orig st)) \<and>
    db_get (conns (handle_destroy fs cfg k orig st)) = (db_get (conns st))(k := None)"
  using assms by (auto simp: handle_destroy_def case_prod_beta Let_def conns.del_ok conns.look_del split: option.split)

lemma ct_message_total: "\<exists>st'. ct_message fs cfg t flags payload st = Inr st'"
proof -
  obtain tup s where "parse_tuple payload 1 = Inr tup" "parse_tcp_state payload = Inr s"
    using parse_tuple_total parse_tcp_state_total by meson
  then show ?thesis
    by (cases tup) (auto simp: ct_message_def handle_new_def handle_update_def Let_def case_prod_beta)
qed

section \<open>Delivery\<close>

text \<open>A netlink message: its type, its flags and its body. The kernel pads each to a multiple of four.\<close>

type_synonym nl_msg = "u16 \<times> u16 \<times> byte list"

fun nl_bytes :: "nl_msg \<Rightarrow> byte list" where
  "nl_bytes (t, flags, body) =
     put32 (of_nat (16 + length body)) @ put16 t @ put16 flags @ put32 0 @ put32 0 @ body
     @ replicate ((length body + 3) div 4 * 4 - length body) 0"

definition datagram :: "nl_msg list \<Rightarrow> byte list" where
  "datagram ms = concat (map nl_bytes ms)"

fun run_msg :: "netfs \<Rightarrow> net_opts \<Rightarrow> nl_msg \<Rightarrow> net_st \<Rightarrow> net_st outcome" where
  "run_msg fs cfg (t, flags, body) st =
     (if (t = 256 \<or> t = 258) \<and> 4 \<le> length body then ct_message fs cfg (unat t) flags (drop 4 body) st else Inr st)"

fun run_msgs :: "netfs \<Rightarrow> net_opts \<Rightarrow> nl_msg list \<Rightarrow> net_st \<Rightarrow> net_st outcome" where
  "run_msgs fs cfg [] st = Inr st"
| "run_msgs fs cfg (m # ms) st = and_then (run_msg fs cfg m st) (run_msgs fs cfg ms)"

lemma run_msg_total: "\<exists>st'. run_msg fs cfg m st = Inr st'"
  by (cases m) (simp add: ct_message_total)

lemma run_msgs_total: "\<exists>st'. run_msgs fs cfg ms st = Inr st'"
proof (induction ms arbitrary: st)
  case (Cons m ms)
  then show ?case using run_msg_total [of fs cfg m st] by auto
qed simp

lemma length_nl_bytes: "length (nl_bytes (t, flags, body)) = (16 + length body + 3) div 4 * 4"
proof -
  have "16 + length body + 3 = length body + 3 + 4 * 4" by simp
  then have "(16 + length body + 3) div 4 = (length body + 3) div 4 + 4" by (simp only: div_mult_self3 add.commute)
  moreover have "length body \<le> (length body + 3) div 4 * 4" by linarith
  ultimately show ?thesis by simp
qed

lemma nl_body_frame:
  assumes "length body < 2147483632"
  shows "nl_body fs cfg (pre @ nl_bytes (t, flags, body) @ post) (length pre) (int (16 + length body)) st = run_msg fs cfg (t, flags, body) st"
proof -
  let ?data = "pre @ nl_bytes (t, flags, body) @ post" and ?l = "put32 (of_nat (16 + length body))"
  have t: "le16_at ?data (length pre + 4) = Inr t"
    using le16_at_put16 [of "length pre + 4" "pre @ ?l" t] by simp
  have f: "le16_at ?data (length pre + 6) = Inr flags"
    using le16_at_put16 [of "length pre + 6" "pre @ ?l @ put16 t" flags] by simp
  have m: "int_minus (int (16 + length body)) 16 = Inr (int (length body))" using assms by (simp add: int_minus_def)
  have p: "bytes_at ?data (length pre + 20) (nat (int (length body) - 4)) = Inr (drop 4 body)" if "4 \<le> length body"
  proof -
    have n: "nat (int (length body) - 4) = length body - 4" using that by linarith
    have d: "drop (length pre + 20) ?data = drop 4 body @ replicate ((length body + 3) div 4 * 4 - length body) 0 @ post"
      using that by simp
    have "length pre + 20 + (length body - 4) \<le> length ?data" using that by simp
    then show ?thesis unfolding n using d by (simp only: bytes_at_in) simp
  qed
  have tt: "unat t = 256 \<longleftrightarrow> t = 256" "unat t = 258 \<longleftrightarrow> t = 258" by (simp_all add: word_unat_eq_iff)
  show ?thesis
    unfolding nl_body_def t and_then_Inr Let_def tt m f run_msg.simps
    by (simp add: p del: nl_bytes.simps)
qed

lemma walk_frame:
  assumes "length (nl_bytes (t, flags, body) @ post) < 2147483648"
  shows "process_nl_msgs fs cfg (Suc fuel) (pre @ nl_bytes (t, flags, body) @ post) (length pre) (int (length (nl_bytes (t, flags, body) @ post))) st =
    and_then (run_msg fs cfg (t, flags, body) st) (\<lambda>st'. if post = [] then Inr st'
      else process_nl_msgs fs cfg fuel (pre @ nl_bytes (t, flags, body) @ post) (length (pre @ nl_bytes (t, flags, body))) (int (length post)) st')"
proof -
  let ?data = "pre @ nl_bytes (t, flags, body) @ post" and ?n = "16 + length body"
  have n: "?n \<le> length (nl_bytes (t, flags, body))" unfolding length_nl_bytes by linarith
  then have small: "?n < 2147483648" and body: "length body < 2147483632" using assms by simp_all
  have l: "le32_at ?data (length pre) = Inr (of_nat ?n)"
    using le32_at_put32 [of "length pre" pre "of_nat ?n"] by simp
  have u: "unat (of_nat ?n :: u32) = ?n" "uint (of_nat ?n :: u32) = int ?n"
    using small by (simp_all only: unsigned_of_nat take_bit_eq_mod of_nat_mod) simp_all
  have a: "nlmsg_align (of_nat ?n) = length (nl_bytes (t, flags, body))"
    using small(1) by (simp only: nlmsg_align_of_nat length_nl_bytes)
  have len: "int (length (nl_bytes (t, flags, body) @ post)) \<ge> 16" using n by simp
  have i: "to_int32 (int ?n) = int ?n" "to_int32 (int (length (nl_bytes (t, flags, body)))) = int (length (nl_bytes (t, flags, body)))"
    using small(1) assms by simp_all
  have m: "int_minus (int (length (nl_bytes (t, flags, body) @ post))) (int (length (nl_bytes (t, flags, body)))) = Inr (int (length post))"
    using assms by (simp add: int_minus_def)
  have c: "\<not> (?n < 16 \<or> int ?n > int (length (nl_bytes (t, flags, body) @ post)))" using n by simp
  have e: "int (length (nl_bytes (t, flags, body))) \<ge> int (length (nl_bytes (t, flags, body) @ post)) \<longleftrightarrow> post = []" by simp
  show ?thesis
    unfolding process_nl_msgs.simps(2) if_P [OF len] l and_then_Inr u i if_not_P [OF c] nl_body_frame [OF body] a Let_def e m
    by (simp only: length_append)
qed

lemma nl_bytes_nonempty: "nl_bytes m \<noteq> []"
  by (cases m) (simp add: put32_def)

lemma walk_frames:
  "ms \<noteq> [] \<Longrightarrow> length (datagram ms) < 2147483648 \<Longrightarrow> length ms \<le> fuel \<Longrightarrow>
   process_nl_msgs fs cfg fuel (pre @ datagram ms) (length pre) (int (length (datagram ms))) st = run_msgs fs cfg ms st"
proof (induction ms arbitrary: pre fuel st)
  case (Cons m ms)
  obtain t fl body where m: "m = (t, fl, body)" by (cases m)
  obtain fuel' where fuel: "fuel = Suc fuel'" "length ms \<le> fuel'" using Cons.prems(3) by (cases fuel) auto
  have d: "datagram (m # ms) = nl_bytes m @ datagram ms" by (simp add: datagram_def)
  have e: "datagram ms = [] \<longleftrightarrow> ms = []" using nl_bytes_nonempty by (cases ms) (simp_all add: datagram_def)
  have small: "length (datagram ms) < 2147483648" using Cons.prems(2) by (simp add: d)
  have ih: "process_nl_msgs fs cfg fuel' (pre @ nl_bytes m @ datagram ms) (length (pre @ nl_bytes m)) (int (length (datagram ms))) st'
      = run_msgs fs cfg ms st'" if "ms \<noteq> []" for st'
    using Cons.IH [OF that small fuel(2), of "pre @ nl_bytes m" st'] by (simp only: append_assoc)
  have "process_nl_msgs fs cfg fuel (pre @ datagram (m # ms)) (length pre) (int (length (datagram (m # ms)))) st
      = and_then (run_msg fs cfg m st) (\<lambda>st'. if ms = [] then Inr st'
          else process_nl_msgs fs cfg fuel' (pre @ nl_bytes m @ datagram ms) (length (pre @ nl_bytes m)) (int (length (datagram ms))) st')"
    using walk_frame [of t fl body "datagram ms" fs cfg fuel' pre st] Cons.prems(2) by (simp only: d [unfolded m] fuel(1) m e)
  then show ?case using ih run_msg_total [of fs cfg m st] by (cases "ms = []") (auto simp del: run_msg.simps)
qed simp

subsection \<open>Lengths the walk does not survive\<close>

lemma to_int32_wraps: "2147483648 \<le> n \<Longrightarrow> n < 4294967296 \<Longrightarrow> to_int32 n = n - 4294967296"
proof -
  assume n: "2147483648 \<le> n" "n < 4294967296"
  have "(n + 2147483648) mod 4294967296 = (n - 2147483648 + 4294967296) mod 4294967296" by (simp add: add.commute)
  also have "\<dots> = n - 2147483648" using n by (simp only: mod_add_self2) simp
  finally show ?thesis by (simp add: to_int32_def)
qed

lemma wrapped_length:
  assumes "16 \<le> length data" "length data < 2147483632" "le32_at data 0 = Inr mlen" "le16_at data 4 = Inr t" "2147483664 \<le> unat mlen"
  shows "process_nl_msgs fs cfg (Suc fuel) data 0 (int (length data)) st =
    (let a = to_int32 (int (nlmsg_align mlen))
     in if a \<ge> int (length data) then Inr st
        else and_then (int_minus (int (length data)) a) (\<lambda>len'. process_nl_msgs fs cfg fuel data (nlmsg_align mlen) len' st))"
proof -
  define n where "n = unat mlen"
  have n: "2147483664 \<le> n" "n < 4294967296" using assms(5) unsigned_less [of mlen, where ?'a = nat] by (simp_all add: n_def)
  then have i: "to_int32 (uint mlen) = int n - 4294967296"
    unfolding uint_nat n_def [symmetric] by (intro to_int32_wraps) linarith+
  have "to_int32 (uint mlen) < 0" "\<not> (unat mlen < 16 \<or> to_int32 (uint mlen) > int (length data))"
    "- 2147483632 \<le> to_int32 (uint mlen)"
    unfolding i n_def [symmetric] using n by simp_all
  moreover from this have "nl_body fs cfg data 0 (to_int32 (uint mlen)) st = Inr st"
    using assms(4) by (simp add: nl_body_def Let_def int_minus_def)
  ultimately show ?thesis using assms(1,3) by (subst process_nl_msgs.simps) (simp add: Let_def)
qed

lemma align_wraps: "4294967293 \<le> unat mlen \<Longrightarrow> nlmsg_align mlen = 0"
proof -
  assume a: "4294967293 \<le> unat mlen"
  have "unat mlen < 4294967296" using unsigned_less [of mlen, where ?'a = nat] by simp
  then have "unat mlen \<in> {4294967293, 4294967294, 4294967295}" using a by auto
  then have "mlen = 4294967293 \<or> mlen = 4294967294 \<or> mlen = 4294967295" by (auto simp: word_unat_eq_iff)
  then show ?thesis by (auto simp: nlmsg_align_def)
qed

lemma walk_hangs:
  assumes "16 \<le> length data" "length data < 2147483632" "le32_at data 0 = Inr mlen" "4294967293 \<le> unat mlen"
  shows "process_nl_msgs fs cfg fuel data 0 (int (length data)) st = Inl OutOfFuel"
proof (induction fuel)
  case (Suc fuel)
  obtain t where t: "le16_at data 4 = Inr t" using assms(1) by simp
  have big: "2147483664 \<le> unat mlen" using assms(4) by linarith
  have "int_minus (int (length data)) 0 = Inr (int (length data))" using assms(2) by (simp add: int_minus_def)
  moreover have "to_int32 (int 0) = 0" "\<not> 0 \<ge> int (length data)" using assms(1) by auto
  ultimately show ?case
    unfolding wrapped_length [OF assms(1-3) t big] align_wraps [OF assms(4)] Let_def by (simp only: if_False and_then_Inr Suc)
qed simp

lemma walk_leaves_buffer:
  assumes "16 \<le> length data" "length data < 2147483632" "le32_at data 0 = Inr 4294967280"
  shows "process_nl_msgs fs cfg (Suc (Suc fuel)) data 0 (int (length data)) st = Inl OutOfBounds"
proof -
  obtain t where t: "le16_at data 4 = Inr t" using assms(1) by simp
  have "nlmsg_align 4294967280 = 4294967280" "to_int32 4294967280 = - 16" by (simp_all add: nlmsg_align_def to_int32_def)
  moreover have "int_minus (int (length data)) (- 16) = Inr (int (length data) + 16)" using assms(2) by (simp add: int_minus_def)
  moreover have "process_nl_msgs fs cfg (Suc fuel) data 4294967280 (int (length data) + 16) st = Inl OutOfBounds"
    using assms(2) by (subst process_nl_msgs.simps) (simp add: le32_at_def byte_at_def)
  ultimately show ?thesis using wrapped_length [OF assms(1-3) t] by simp
qed

section \<open>The table of open connections\<close>

text \<open>What the kernel reports about a connection, and the message that says it.\<close>

datatype ct_event = Opened conn_tuple byte | Changed conn_tuple byte | Closed conn_tuple

fun event_tuple :: "ct_event \<Rightarrow> conn_tuple" where
  "event_tuple (Opened t s) = t"
| "event_tuple (Changed t s) = t"
| "event_tuple (Closed t) = t"

definition ct_body :: "nl_attr list \<Rightarrow> byte list \<Rightarrow> conn_tuple \<Rightarrow> byte list \<Rightarrow> byte list" where
  "ct_body mid rest t info = [if length (src_ip t) = 4 then 2 else 10, 0, 0, 0] @ enc_tuple t @ enc_attrs mid @ info @ rest"

text \<open>Only TCP has a state to report.\<close>

definition ct_info :: "conn_tuple \<Rightarrow> byte \<Rightarrow> byte list" where
  "ct_info t s = (if proto t = 6 then enc_protoinfo s else [])"

fun ct_msg :: "nl_attr list \<Rightarrow> byte list \<Rightarrow> ct_event \<Rightarrow> nl_msg" where
  "ct_msg mid rest (Opened t s) = (256, 0x600, ct_body mid rest t (ct_info t s))"
| "ct_msg mid rest (Changed t s) = (256, 0, ct_body mid rest t (ct_info t s))"
| "ct_msg mid rest (Closed t) = (258, 0, ct_body mid rest t [])"

text \<open>The connections the tracer knows, as a map; \<open>att\<close> attributes a new one.\<close>

fun ct_spec ::
  "netfs \<Rightarrow> net_opts \<Rightarrow> (conn_tuple \<Rightarrow> i32 \<times> string \<times> direction) \<Rightarrow> ct_event
   \<Rightarrow> (string \<Rightarrow> conn_entry option) \<Rightarrow> string \<Rightarrow> conn_entry option" where
  "ct_spec fs cfg att (Opened t s) m =
     (case att t of (p, comm, d) \<Rightarrow>
        if \<not> skipped cfg t \<and> accepted fs cfg p d
        then m(tuple_key t \<mapsto> entry_of fs (tuple_key t) t p comm d (if proto t = 6 then s else 0)) else m)"
| "ct_spec fs cfg att (Changed t s) m =
     (if \<not> skipped cfg t \<and> show_update cfg \<and> proto t = 6
      then m(tuple_key t := map_option (\<lambda>ent. if accepted fs cfg (c_pid ent) (c_dir ent) then ent\<lparr>tcp_state := s\<rparr> else ent) (m (tuple_key t)))
      else m)"
| "ct_spec fs cfg att (Closed t) m = (if skipped cfg t then m else m(tuple_key t := None))"

lemma handle_update_map:
  assumes "conns_ok (conns st)" "parse_tcp_state payload = Inr s"
  shows "\<exists>st'. handle_update fs cfg k orig payload st = Inr st' \<and> conns_ok (conns st') \<and>
    db_get (conns st') = (if proto orig = 6
      then (db_get (conns st))(k := map_option (\<lambda>ent. if accepted fs cfg (c_pid ent) (c_dir ent) then ent\<lparr>tcp_state := s\<rparr> else ent)
             (db_get (conns st) k)) else db_get (conns st))"
proof -
  obtain p comm d where kn: "known st k = (p, comm, d)" by (cases "known st k")
  from handle_update_spec [OF assms(1) kn assms(2), of fs cfg orig] kn show ?thesis
    by (cases "db_get (conns st) k") (auto simp: known_def fun_eq_iff)
qed

lemma ct_info_read:
  assumes "tuple_ok t" "attrs_ok mid"
  obtains s' where "parse_tcp_state (enc_tuple t @ enc_attrs mid @ ct_info t s @ rest) = Inr s'" "proto t = 6 \<Longrightarrow> s' = s"
proof (cases "proto t = 6")
  case True
  then show ?thesis using that parse_tcp_state_enc [OF assms, of s rest] by (simp add: ct_info_def)
next
  case False
  then show ?thesis using that parse_tcp_state_total by blast
qed

lemma ct_message_tracked:
  assumes "conns_ok (conns st)" "tuple_ok (event_tuple ev)" "attrs_ok mid"
  shows "\<exists>st'. run_msg fs cfg (ct_msg mid rest ev) st = Inr st' \<and> conns_ok (conns st') \<and>
    db_get (conns st') = ct_spec fs cfg (attributed fs st) ev (db_get (conns st))"
proof (cases ev)
  case (Opened t s)
  let ?p = "enc_tuple t @ enc_attrs mid @ ct_info t s @ rest"
  have ok: "tuple_ok t" using assms(2) Opened by simp
  obtain s' where s': "parse_tcp_state ?p = Inr s'" "proto t = 6 \<Longrightarrow> s' = s" using ct_info_read [OF ok assms(3)] by blast
  have read: "parse_tuple ?p 1 = Inr (Some t)" using parse_tuple_enc [OF ok] by simp
  obtain p comm d where "attributed fs st t = (p, comm, d)" by (cases "attributed fs st t")
  then show ?thesis
    using handle_new_spec [OF assms(1) length_tuple_key, of fs t p comm d ?p s' cfg] read s' assms(1) Opened
    by (auto simp: ct_message_def ct_body_def Let_def)
next
  case (Changed t s)
  let ?p = "enc_tuple t @ enc_attrs mid @ ct_info t s @ rest"
  have ok: "tuple_ok t" using assms(2) Changed by simp
  obtain s' where s': "parse_tcp_state ?p = Inr s'" "proto t = 6 \<Longrightarrow> s' = s" using ct_info_read [OF ok assms(3)] by blast
  have read: "parse_tuple ?p 1 = Inr (Some t)" using parse_tuple_enc [OF ok] by simp
  then show ?thesis
    using handle_update_map [OF assms(1) s'(1), of fs cfg "tuple_key t" t] s'(2) assms(1) Changed
    by (auto simp: ct_message_def ct_body_def Let_def)
next
  case (Closed t)
  have "parse_tuple (enc_tuple t @ enc_attrs mid @ rest) 1 = Inr (Some t)" using parse_tuple_enc [of t] assms(2) Closed by simp
  then show ?thesis
    using handle_destroy_spec [OF assms(1), of fs cfg "tuple_key t" t] assms(1) Closed
    by (auto simp: ct_message_def ct_body_def Let_def conns.del_ok conns.look_del)
qed

section \<open>Reachable states\<close>

text \<open>A message is handled with whatever the process file system holds at that moment; a lookup that was
  started ends at any later time with any answer.\<close>

definition net_start :: net_st where
  "net_start = \<lparr>conns = \<lambda>_. [], cache = \<lambda>_. [], local_ips = None, launched_ips = [], nouts = ''''\<rparr>"

inductive net_reach :: "net_opts \<Rightarrow> net_st \<Rightarrow> bool" for cfg where
  start: "net_reach cfg net_start"
| message: "net_reach cfg st \<Longrightarrow> run_msg fs cfg m st = Inr st' \<Longrightarrow> net_reach cfg st'"
| answer: "net_reach cfg st \<Longrightarrow> ip \<in> set (launched_ips st) \<Longrightarrow> net_reach cfg (dns_worker ip nb st)"

definition conns_inv :: "net_opts \<Rightarrow> conndb \<Rightarrow> bool" where
  "conns_inv cfg t \<longleftrightarrow> conns_ok t \<and>
     (\<forall>k ent. db_get t k = Some ent \<longrightarrow> k = tuple_key (c_tuple ent) \<and> \<not> skipped cfg (c_tuple ent)
        \<and> \<not> (outbound_only cfg \<and> c_dir ent = DIR_INBOUND))"

definition cache_inv :: "net_st \<Rightarrow> bool" where
  "cache_inv st \<longleftrightarrow> cache_ok (cache st) \<and> distinct (launched_ips st) \<and>
     (\<forall>ip \<in> set (launched_ips st). length ip < 46) \<and>
     (\<forall>ip. ip \<in> set (launched_ips st) \<longleftrightarrow> (\<exists>ent. dns_find (cache st) ip = Some ent \<and> launched ent))"

lemma lookup_inv:
  assumes "cache_inv st" "length ip < 46"
  shows "cache_inv (snd (async_reverse_lookup ip st))"
proof (cases "\<exists>ent. dns_find (cache st) ip = Some ent \<and> launched ent")
  case True
  then show ?thesis using assms by (auto simp: async_reverse_lookup_def)
next
  case False
  let ?f = "\<lambda>ent. ent\<lparr>launched := True\<rparr>"
  let ?c = "dns_update ?f (dns_get_or_create (cache st) ip) ip"
  have put: "cache_ok ?c \<and> dns_find ?c = (dns_find (cache st))(ip \<mapsto> ?f (case dns_find (cache st) ip of None \<Rightarrow> dns_fresh ip | Some ent \<Rightarrow> ent))"
    using assms by (intro cache.put_upd) (simp_all add: cache_inv_def keeps_key_def)
  have st: "snd (async_reverse_lookup ip st) = st\<lparr>cache := ?c, launched_ips := launched_ips st @ [ip]\<rparr>"
    using False by (auto simp: async_reverse_lookup_def Let_def split: option.splits)
  have "ip \<notin> set (launched_ips st)" using False assms(1) by (simp add: cache_inv_def)
  then show ?thesis using put assms unfolding st by (auto simp: cache_inv_def)
qed

lemma worker_inv:
  assumes "cache_inv st" "ip \<in> set (launched_ips st)"
  shows "cache_inv (dns_worker ip nb st)"
proof -
  let ?f = "\<lambda>ent. ent\<lparr>dn_name := snprintf_s 256 (worker_host nb)\<rparr>"
  let ?c = "dns_update ?f (dns_get_or_create (cache st) ip) ip"
  have len: "length ip < 46" and ent: "\<exists>ent. dns_find (cache st) ip = Some ent \<and> launched ent"
    using assms by (auto simp: cache_inv_def)
  have put: "cache_ok ?c \<and> dns_find ?c = (dns_find (cache st))(ip \<mapsto> ?f (case dns_find (cache st) ip of None \<Rightarrow> dns_fresh ip | Some ent \<Rightarrow> ent))"
    using assms(1) len by (intro cache.put_upd) (simp_all add: cache_inv_def keeps_key_def)
  then show ?thesis using assms ent by (auto simp: cache_inv_def dns_worker_def)
qed

lemma cache_inv_cong: "cache st' = cache st \<Longrightarrow> launched_ips st' = launched_ips st \<Longrightarrow> cache_inv st' = cache_inv st"
  by (simp add: cache_inv_def)

lemma print_event_cache: "cache_inv st \<Longrightarrow> cache_inv (print_event fs cfg orig p comm d ev extra st)"
proof -
  assume inv: "cache_inv st"
  let ?s = "snd (event_host cfg orig d st)"
  have "cache_inv ?s" using inv lookup_inv length_ip_str by (simp add: event_host_def case_prod_beta)
  moreover have "cache_inv (print_event fs cfg orig p comm d ev extra st) = cache_inv ?s"
    by (rule cache_inv_cong) (simp_all add: print_event_def case_prod_beta)
  ultimately show ?thesis by simp
qed

lemma handlers_cache:
  "cache_inv st \<Longrightarrow> handle_new fs cfg k orig payload st = Inr st' \<Longrightarrow> cache_inv st'"
  "cache_inv st \<Longrightarrow> handle_update fs cfg k orig payload st = Inr st' \<Longrightarrow> cache_inv st'"
  "cache_inv st \<Longrightarrow> cache_inv (handle_destroy fs cfg k orig st)"
  by (auto simp: handle_new_def handle_update_def handle_destroy_def Let_def case_prod_beta and_then_eq_Inr
      split: if_splits option.split
      intro!: print_event_cache cong: cache_inv_cong)

lemma handlers_conns:
  assumes "conns_inv cfg (conns st)" "\<not> skipped cfg orig"
  shows "handle_new fs cfg (tuple_key orig) orig payload st = Inr st' \<Longrightarrow> conns_inv cfg (conns st')"
    and "handle_update fs cfg k orig payload st = Inr st' \<Longrightarrow> conns_inv cfg (conns st')"
    and "conns_inv cfg (conns (handle_destroy fs cfg k orig st))"
    and "conns_inv cfg (db_delete (conns st) k)"
proof -
  have ok: "conns_ok (conns st)" using assms(1) by (simp add: conns_inv_def)
  obtain s where s: "parse_tcp_state payload = Inr s" using parse_tcp_state_total by blast
  show "conns_inv cfg (conns st')" if "handle_new fs cfg (tuple_key orig) orig payload st = Inr st'"
  proof -
    obtain p comm d where a: "attributed fs st orig = (p, comm, d)" by (cases "attributed fs st orig")
    from handle_new_spec [OF ok length_tuple_key [of orig] a s, of cfg] that assms show ?thesis
      by (auto simp: conns_inv_def entry_of_def accepted_def split: if_splits)
  qed
  show "conns_inv cfg (conns st')" if "handle_update fs cfg k orig payload st = Inr st'"
    using handle_update_map [OF ok s, of fs cfg k orig] that assms(1)
    by (auto simp: conns_inv_def split: if_splits)
  show "conns_inv cfg (conns (handle_destroy fs cfg k orig st))"
    using handle_destroy_spec [OF ok, of fs cfg k orig] assms(1) by (auto simp: conns_inv_def split: if_splits)
  show "conns_inv cfg (db_delete (conns st) k)"
    using assms(1) ok by (auto simp: conns_inv_def conns.del_ok conns.look_del split: if_splits)
qed

lemma run_msg_inv:
  assumes "conns_inv cfg (conns st)" "cache_inv st" "run_msg fs cfg m st = Inr st'"
  shows "conns_inv cfg (conns st') \<and> cache_inv st'"
proof -
  obtain t flags body where m: "m = (t, flags, body)" by (cases m)
  show ?thesis
  proof (cases "(t = 256 \<or> t = 258) \<and> 4 \<le> length body")
    case True
    obtain tup where tup: "parse_tuple (drop 4 body) 1 = Inr tup" using parse_tuple_total by blast
    have run: "ct_message fs cfg (unat t) flags (drop 4 body) st = Inr st'" using assms(3) True by (simp add: m)
    note run' = run [unfolded ct_message_def tup and_then_Inr]
    show ?thesis
    proof (cases "tup = None \<or> skipped cfg (the tup)")
      case True
      then show ?thesis using run' assms by (auto split: option.splits)
    next
      case False
      then obtain orig where o: "tup = Some orig" "\<not> skipped cfg orig" by auto
      have "cache_inv (st\<lparr>conns := c\<rparr>)" for c using assms(2) by (simp add: cache_inv_def)
      then show ?thesis
        using run' o assms(1,2) handlers_conns [OF assms(1) o(2)] handlers_cache [OF assms(2)]
        by (auto simp: Let_def split: if_splits)
    qed
  qed (use assms in \<open>auto simp: m\<close>)
qed

lemma net_reach_inv: "net_reach cfg st \<Longrightarrow> conns_inv cfg (conns st) \<and> cache_inv st"
proof (induction rule: net_reach.induct)
  case start
  show ?case by (simp add: net_start_def conns_inv_def cache_inv_def conns_ok_def cache_ok_def chains_ok_def
        db_get_def dns_find_def chain_find_def)
next
  case (message st fs m st')
  then show ?case using run_msg_inv by blast
next
  case (answer st ip nb)
  then show ?case using worker_inv by (simp add: dns_worker_def)
qed

text \<open>Once its lookup has ended, the address is shown with the name.\<close>

lemma lookup_answered:
  assumes "cache_inv st" "length ip < 46"
  shows "fst (async_reverse_lookup ip (dns_worker ip nb st)) = worker_host nb"
proof -
  have "length (worker_host nb) < 256"
    using snprintf_s_less [of 256 "trim_right (\<lambda>c. c = CHR ''.'') (take 255 (the nb))"] by (auto simp: worker_host_def split: option.split)
  moreover have "\<exists>ent. dns_find (cache (dns_worker ip nb st)) ip = Some ent \<and> dn_name ent = snprintf_s 256 (worker_host nb)"
    using cache.put_upd [of "cache st" ip "\<lambda>ent. ent\<lparr>dn_name := snprintf_s 256 (worker_host nb)\<rparr>"] assms
    by (auto simp: cache_inv_def dns_worker_def keeps_key_def)
  ultimately show ?thesis by (auto simp: async_reverse_lookup_def Let_def)
qed

section \<open>Claims\<close>

text \<open>
  C10. Every netlink message of a datagram is handled exactly once and in order, whatever its type,
  flags and body, padded or not; the walk ends, and so does every handler.
\<close>

theorem net_datagram_delivered:
  assumes "ms \<noteq> []" "length (datagram ms) < 2147483648"
  shows "process_nl_msgs fs cfg (length ms) (datagram ms) 0 (int (length (datagram ms))) st = run_msgs fs cfg ms st \<and>
    (\<exists>st'. run_msgs fs cfg ms st = Inr st')"
  using walk_frames [OF assms, of "length ms" fs cfg "[]" st] run_msgs_total by simp

definition net_defaults :: net_opts where
  "net_defaults = \<lparr>watch_pids = [], show_close = False, show_update = False, show_user = False, show_reverse = False,
     ipv4_only = False, ipv6_only = False, outbound_only = False, show_errors = True, color_force = False, color_mode = False\<rparr>"

theorem net_datagram_delivered_witness:
  "process_nl_msgs sample_net net_defaults 2 (datagram [(3, 0, [1, 2]), (258, 0, [2, 0, 0, 0])]) 0 40 net_start = Inr net_start"
proof -
  have "parse_tuple [] 1 = Inr None" by (simp add: parse_tuple_def parse_nla_def nla_loop_nil NLA_MAX_TYPE_def)
  then have "run_msgs sample_net net_defaults [(3, 0, [1, 2]), (258, 0, [2, 0, 0, 0])] net_start = Inr net_start"
    by (simp add: ct_message_def)
  moreover have "length (datagram [(3, 0, [1, 2]), (258, 0, [2, 0, 0, 0])]) = 40" by (simp add: datagram_def)
  ultimately show ?thesis
    using net_datagram_delivered [of "[(3, 0, [1, 2]), (258, 0, [2, 0, 0, 0])]" sample_net net_defaults net_start]
    by (simp add: numeral_2_eq_2)
qed

text \<open>
  C9. The table of connections is the map of the connections the kernel has opened and not closed: a
  message about a new connection that passes the filters records it, an update changes the TCP state
  of a known one, a close removes it, and nothing else changes.
\<close>

theorem connections_tracked:
  assumes "conns_ok (conns st)" "tuple_ok (event_tuple ev)" "attrs_ok mid"
  shows "\<exists>st'. run_msg fs cfg (ct_msg mid rest ev) st = Inr st' \<and> conns_ok (conns st') \<and>
    db_get (conns st') = ct_spec fs cfg (attributed fs st) ev (db_get (conns st))"
  by (rule ct_message_tracked [OF assms])

theorem connections_tracked_witness:
  "\<exists>st'. run_msg sample_net net_defaults (ct_msg [(3, [0, 0, 1, 0x8E])] [] (Closed sample_conn)) net_start = Inr st' \<and>
     db_get (conns st') (tuple_key sample_conn) = None"
proof -
  have "conns_ok (conns net_start)" by (simp add: net_start_def conns_ok_def chains_ok_def)
  moreover have "tuple_ok (event_tuple (Closed sample_conn))" by (simp add: tuple_ok_def sample_conn_def)
  moreover have "attrs_ok [(3, [0, 0, 1, 0x8E])]" by (simp add: attrs_ok_def nla_types)
  moreover have "\<not> skipped net_defaults sample_conn" by (simp add: skipped_def net_defaults_def sample_conn_def)
  ultimately show ?thesis
    using connections_tracked [of net_start "Closed sample_conn" "[(3, [0, 0, 1, 0x8E])]" sample_net net_defaults "[]"]
    by (auto simp del: run_msg.simps ct_msg.simps)
qed

text \<open>
  The key of a connection is its own: two IPv4 connections with the same key are the same.
\<close>

theorem tuple_key_unique:
  assumes "length (src_ip t) = 4" "length (dst_ip t) = 4" "length (src_ip u) = 4" "length (dst_ip u) = 4"
  shows "tuple_key t = tuple_key u \<longleftrightarrow> t = u"
  using tuple_key_inj4 [OF assms] by auto

theorem tuple_key_unique_witness: "tuple_key sample_conn \<noteq> tuple_key (sample_conn\<lparr>src_port := 54\<rparr>)"
  using tuple_key_unique [of sample_conn "sample_conn\<lparr>src_port := 54\<rparr>"] by (simp add: sample_conn_def)

text \<open>
  C8. In every state the tracer reaches, with lookups ending at any time, the connection table is well
  formed and holds each connection under its own key and only connections the filters let through,
  and no address is ever looked up twice.
\<close>

theorem net_reach_invariant:
  assumes "net_reach cfg st"
  shows "conns_inv cfg (conns st) \<and> cache_inv st"
  by (rule net_reach_inv [OF assms])

theorem net_reach_invariant_witness: "conns_inv net_defaults (conns net_start) \<and> cache_inv net_start"
  by (rule net_reach_invariant) (rule net_reach.start)

text \<open>
  A message length of \<open>2\<^sup>3\<^sup>1\<close> or more is negative as an \<^verbatim>\<open>int\<close> and passes the length check. The last
  three lengths round up to zero, and the walk never moves on; a length of \<open>2\<^sup>3\<^sup>2 - 16\<close> takes it
  out of the buffer.
\<close>

theorem huge_length_passes:
  assumes "16 \<le> length data" "length data < 2147483632" "le32_at data 0 = Inr mlen"
  shows "(4294967293 \<le> unat mlen \<longrightarrow> (\<forall>fuel. process_nl_msgs fs cfg fuel data 0 (int (length data)) st = Inl OutOfFuel)) \<and>
    (mlen = 4294967280 \<longrightarrow> process_nl_msgs fs cfg (Suc (Suc fuel)) data 0 (int (length data)) st = Inl OutOfBounds)"
  using walk_hangs [OF assms] walk_leaves_buffer assms by blast

theorem huge_length_passes_witness:
  "process_nl_msgs sample_net net_defaults 1000 (put32 4294967295 @ replicate 12 0) 0 16 net_start = Inl OutOfFuel"
  using huge_length_passes [of "put32 4294967295 @ replicate 12 0" 4294967295 sample_net net_defaults net_start]
    le32_at_put32 [of 0 "[]" 4294967295 "replicate 12 0"] by simp

end
