(* ===== verification/Net_Main.thy ===== *)
theory Net_Main
  imports Net_Events Exec_Main
begin

text \<open>
  The command line of the Linux net tracer and its main program (\<^verbatim>\<open>net_main\<close> of \<^verbatim>\<open>src/c/net.c\<close>).
  The operating system's answers are the parameter \<open>exec_host\<close> of the exec tracer's main program.
\<close>

section \<open>Definitions\<close>

record net_args =
  n_opts :: net_opts
  n_out :: "string option"
  n_cmd :: "string list"

definition net_initial :: net_args where
  "net_initial = \<lparr>n_opts = net_defaults, n_out = None, n_cmd = []\<rparr>"

definition is_sptab :: "char \<Rightarrow> bool" where
  "is_sptab c \<longleftrightarrow> c = CHR '' '' \<or> c = CHR 0x09"

fun net_pid_items :: "(int \<Rightarrow> bool) \<Rightarrow> string list \<Rightarrow> i32 list \<Rightarrow> leave + i32 list" where
  "net_pid_items esrch [] ws = Inr ws"
| "net_pid_items esrch (t # ts) ws =
     (let s = trim_right is_sptab (trim_left is_sptab t)
      in if s = '''' then net_pid_items esrch ts ws
         else let (v, rest, _) = strtol10 s
              in if rest \<noteq> [] \<or> v \<le> 0 then Inl (Fatal (''-p: invalid PID: '' @ s))
                 else if esrch (to_int32 v) then Inl (Fatal (''-p '' @ dec_int v @ '': no such process''))
                 else net_pid_items esrch ts (if length ws < 256 then ws @ [of_int v] else ws))"

definition net_flag :: "char \<Rightarrow> (net_opts \<Rightarrow> net_opts) option" where
  "net_flag ch =
     (if ch = CHR ''c'' then Some (color_force_update (\<lambda>_. True))
      else if ch = CHR ''t'' then Some (show_close_update (\<lambda>_. True))
      else if ch = CHR ''U'' then Some (show_update_update (\<lambda>_. True))
      else if ch = CHR ''u'' then Some (show_user_update (\<lambda>_. True))
      else if ch = CHR ''r'' then Some (show_reverse_update (\<lambda>_. True))
      else if ch = CHR ''4'' then Some (ipv4_only_update (\<lambda>_. True))
      else if ch = CHR ''6'' then Some (ipv6_only_update (\<lambda>_. True))
      else if ch = CHR ''O'' then Some (outbound_only_update (\<lambda>_. True))
      else if ch = CHR ''Q'' then Some (show_errors_update (\<lambda>_. False))
      else None)"

text \<open>The letters of one argument. \<^verbatim>\<open>-p\<close> and \<^verbatim>\<open>-o\<close> take the next argument and drop the letters behind them.\<close>

fun net_letters :: "(int \<Rightarrow> bool) \<Rightarrow> string \<Rightarrow> string list \<Rightarrow> net_args \<Rightarrow> leave + (string list \<times> net_args)" where
  "net_letters esrch [] rest a = Inr (rest, a)"
| "net_letters esrch (ch # chs) rest a =
     (case net_flag ch of
        Some f \<Rightarrow> net_letters esrch chs rest (a\<lparr>n_opts := f (n_opts a)\<rparr>)
      | None \<Rightarrow>
          if ch = CHR ''p'' then
            (case rest of [] \<Rightarrow> Inl (Fatal ''flag -p requires an argument'')
             | v # rest' \<Rightarrow>
                 (case net_pid_items esrch (strtok '','' v) (watch_pids (n_opts a)) of Inl l \<Rightarrow> Inl l
                  | Inr ws \<Rightarrow> Inr (rest', a\<lparr>n_opts := (n_opts a)\<lparr>watch_pids := ws\<rparr>\<rparr>)))
          else if ch = CHR ''o'' then
            (case rest of [] \<Rightarrow> Inl (Fatal ''flag -o requires an argument'')
             | v # rest' \<Rightarrow> Inr (rest', a\<lparr>n_out := Some v\<rparr>))
          else if ch = CHR ''h'' then Inl UsageText
          else Inl (Fatal (''unknown flag -'' @ [ch])))"

lemma net_letters_shorter: "net_letters esrch chs rest a = Inr (rest', a') \<Longrightarrow> length rest' \<le> length rest"
  by (induction chs arbitrary: a) (auto split: option.splits if_splits list.splits sum.splits)

function net_parse_args :: "(int \<Rightarrow> bool) \<Rightarrow> string list \<Rightarrow> net_args \<Rightarrow> leave + net_args" where
  "net_parse_args esrch [] a = Inr a"
| "net_parse_args esrch (w # ws) a =
     (if length w < 2 \<or> hd w \<noteq> CHR ''-'' then Inr (a\<lparr>n_cmd := w # ws\<rparr>)
      else case net_letters esrch (tl w) ws a of Inl l \<Rightarrow> Inl l
           | Inr (rest, a') \<Rightarrow> net_parse_args esrch rest a')"
  by pat_completeness auto
termination
  by (relation "measure (\<lambda>(esrch, ws, a). length ws)") (auto dest: net_letters_shorter)

definition net_color :: "exec_host \<Rightarrow> net_opts \<Rightarrow> net_opts" where
  "net_color h cfg =
     (if color_force cfg then cfg\<lparr>color_mode := True\<rparr>
      else if h_no_color h = None then cfg\<lparr>color_mode := is_terminal (h_tty h)\<rparr> else cfg)"

definition net_groups :: "net_opts \<Rightarrow> u32" where
  "net_groups cfg = (1 OR 4) OR (if show_update cfg then 2 else 0)"

text \<open>Command mode: the process id of the child joins the watched ones.\<close>

definition net_watch_child :: "i32 \<Rightarrow> net_args \<Rightarrow> net_args" where
  "net_watch_child child a =
     (if n_cmd a \<noteq> [] \<and> length (watch_pids (n_opts a)) < 256
      then a\<lparr>n_opts := (n_opts a)\<lparr>watch_pids := watch_pids (n_opts a) @ [child]\<rparr>\<rparr> else a)"

definition net_setup :: "exec_host \<Rightarrow> i32 \<Rightarrow> string list \<Rightarrow> leave + net_args" where
  "net_setup h child args =
     (case net_parse_args (h_esrch h) args net_initial of Inl l \<Rightarrow> Inl l
      | Inr a \<Rightarrow>
          if n_out a \<noteq> None \<and> \<not> h_opens h (the (n_out a))
          then Inl (Fatal (''open '' @ the (n_out a) @ '': '' @ h_strerror h))
          else Inr (net_watch_child child (a\<lparr>n_opts := net_color h (n_opts a)\<rparr>)))"

definition net_fatal_text :: "string \<Rightarrow> string" where
  "net_fatal_text msg = ''proc-trace-net: '' @ msg @ NL"

text \<open>The receive loop: the state and what has been written to the error stream.\<close>

fun net_loop :: "net_opts \<Rightarrow> nat \<Rightarrow> (netfs \<times> recv) list \<Rightarrow> net_st \<times> string \<Rightarrow> (net_st \<times> string) outcome" where
  "net_loop cfg fuel [] st = Inr st"
| "net_loop cfg fuel ((fs, r) # turns) (st, err) =
     (case r of
        Interrupted \<Rightarrow> net_loop cfg fuel turns (st, err)
      | RecvError msg \<Rightarrow>
          net_loop cfg fuel turns (st, err @ (if show_errors cfg then ''proc-trace-net: recvfrom: '' @ msg @ NL else ''''))
      | Datagram d \<Rightarrow>
          and_then (process_nl_msgs fs cfg fuel (take 1048576 d) 0 (int (length (take 1048576 d))) st) (\<lambda>st'.
            net_loop cfg fuel turns (st', err)))"

definition net_stub :: "string \<Rightarrow> string \<times> int" where
  "net_stub os =
     (''tracep net: network-connection tracing is only supported on Linux and macOS (this is '' @ os @ '').'' @ NL
      @ ''Only `tracep ca` and `tracep dns` run on '' @ os @ ''.'' @ NL, 1)"

section \<open>The loop\<close>

text \<open>
  The lengths in the message headers of a datagram, as the walk meets them, are below \<open>2\<^sup>3\<^sup>1\<close>. Nothing else is asked of
  the bytes: the datagram may be empty, end within a message, or hold lengths that are too small or too large.
\<close>

function lengths_sane :: "byte list \<Rightarrow> bool" where
  "lengths_sane d =
     (if length d < 16 then True
      else case le32_at d 0 of Inl e \<Rightarrow> True
        | Inr mlen \<Rightarrow> unat mlen < 2147483648
            \<and> (if 16 \<le> unat mlen \<and> unat mlen \<le> length d then lengths_sane (drop ((unat mlen + 3) div 4 * 4) d) else True))"
  by auto
termination by (relation "measure length") (auto simp: div_greater_zero_iff)

declare lengths_sane.simps [simp del]

lemma lengths_sane_step:
  assumes "lengths_sane d" "16 \<le> length d" "le32_at d 0 = Inr mlen"
  shows "unat mlen < 2147483648"
    and "16 \<le> unat mlen \<Longrightarrow> unat mlen \<le> length d \<Longrightarrow> lengths_sane (drop ((unat mlen + 3) div 4 * 4) d)"
  using assms(1) unfolding lengths_sane.simps [of d] using assms(2,3) by (simp_all split: if_splits)

lemma nl_body_any:
  assumes "16 \<le> n" "off + n \<le> length data" "n < 2147483648"
  shows "\<exists>m. nl_body fs cfg data off (int n) st = run_msg fs cfg m st"
proof -
  obtain t flags where tf: "le16_at data (off + 4) = Inr t" "le16_at data (off + 6) = Inr flags" using assms by simp
  let ?body = "take (n - 16) (drop (off + 16) data)"
  have len: "length ?body = n - 16" using assms by simp
  have m: "int_minus (int n) 16 = Inr (int (n - 16))" using assms by (simp add: int_minus_def)
  have p: "bytes_at data (off + 20) (nat (int (n - 16) - 4)) = Inr (drop 4 ?body)" if "4 \<le> n - 16"
  proof -
    have n: "nat (int (n - 16) - 4) = n - 20" using that by linarith
    have "off + 20 + (n - 20) \<le> length data" using assms that by linarith
    then show ?thesis unfolding n by (simp only: bytes_at_in) (simp add: drop_take add.commute)
  qed
  have tt: "unat t = 256 \<longleftrightarrow> t = 256" "unat t = 258 \<longleftrightarrow> t = 258" by (simp_all add: word_unat_eq_iff)
  have c: "int (n - 16) \<ge> 4 \<longleftrightarrow> 4 \<le> n - 16" by linarith
  have "nl_body fs cfg data off (int n) st = run_msg fs cfg (t, flags, ?body) st"
    unfolding nl_body_def tf and_then_Inr Let_def tt m run_msg.simps len c by (simp add: p del: drop_take)
  then show ?thesis by blast
qed

lemma walk_reach:
  assumes "net_reach cfg st" "lengths_sane d" "length d < 2147483632" "length d div 16 < fuel"
  shows "\<exists>st'. process_nl_msgs fs cfg fuel (pre @ d) (length pre) (int (length d)) st = Inr st' \<and> net_reach cfg st'"
  using assms
proof (induction fuel arbitrary: pre d st)
  case (Suc fuel)
  show ?case
  proof (cases "16 \<le> length d")
    case False
    then show ?thesis using Suc.prems(1) by (simp add: process_nl_msgs.simps)
  next
    case True
    then obtain mlen where l: "le32_at d 0 = Inr mlen" by simp
    have byte: "byte_at (pre @ d) (length pre + k) = byte_at d k" for k by (simp add: byte_at_def nth_append)
    have l': "le32_at (pre @ d) (length pre) = Inr mlen"
      using l by (simp only: le32_at_def byte byte [of 0, unfolded add_0_right] add_0_left)
    define n where "n = unat mlen"
    have small: "n < 2147483648" using lengths_sane_step(1) [OF Suc.prems(2) True l] by (simp add: n_def)
    have "uint mlen = int n" by (simp add: n_def)
    then have i: "to_int32 (uint mlen) = int n" using small by simp
    have ge: "int (length d) \<ge> 16" using True by simp
    note step = process_nl_msgs.simps(2) [of fs cfg fuel "pre @ d" "length pre" "int (length d)" st, unfolded if_P [OF ge] l' and_then_Inr i n_def [symmetric]]
    show ?thesis
    proof (cases "n < 16 \<or> int n > int (length d)")
      case True
      then show ?thesis unfolding step using Suc.prems(1) by simp
    next
      case False
      then have n: "16 \<le> n" "n \<le> length d" by simp_all
      obtain m where m: "nl_body fs cfg (pre @ d) (length pre) (int n) st = run_msg fs cfg m st"
        using nl_body_any [of n "length pre" "pre @ d" fs cfg st] n small by auto
      obtain st1 where st1: "run_msg fs cfg m st = Inr st1" using run_msg_total by blast
      have r1: "net_reach cfg st1" using net_reach.message [OF Suc.prems(1) st1] .
      define a where "a = (n + 3) div 4 * 4"
      have a: "n \<le> a" "a \<le> n + 3" unfolding a_def by linarith+
      have "mlen = of_nat n" by (simp add: n_def)
      then have al: "nlmsg_align mlen = a" using nlmsg_align_of_nat [OF small] by (simp add: a_def)
      have ia: "to_int32 (int a) = int a" using a n Suc.prems(3) by simp
      note step2 = step [unfolded if_not_P [OF False] m st1 and_then_Inr al Let_def ia]
      show ?thesis
      proof (cases "a \<ge> length d")
        case True
        then show ?thesis unfolding step2 using r1 by simp
      next
        case lt: False
        have sane: "lengths_sane (drop a d)"
          using lengths_sane_step(2) [OF Suc.prems(2) True l] n by (simp add: n_def a_def)
        have fuel: "length (drop a d) div 16 < fuel"
        proof -
          have "length (drop a d) + 16 \<le> length d" using lt a n by simp
          then have "length (drop a d) div 16 + 1 \<le> length d div 16" by linarith
          then show ?thesis using Suc.prems(4) by linarith
        qed
        have im: "int_minus (int (length d)) (int a) = Inr (int (length (drop a d)))" using lt Suc.prems(3) by (simp add: int_minus_def)
        have split: "pre @ d = (pre @ take a d) @ drop a d" "length pre + a = length (pre @ take a d)" using lt by simp_all
        have "length (drop a d) < 2147483632" using Suc.prems(3) by simp
        from Suc.IH [OF r1 sane this fuel, of "pre @ take a d"] obtain st'
          where "process_nl_msgs fs cfg fuel (pre @ d) (length pre + a) (int (length (drop a d))) st1 = Inr st'" "net_reach cfg st'"
          unfolding split [symmetric] by blast
        moreover have "\<not> int a \<ge> int (length d)" using lt by simp
        ultimately show ?thesis unfolding step2 im and_then_Inr by (simp only: if_False) blast
      qed
    qed
  qed
qed simp

text \<open>What the loop writes to the error stream: a line per failed call.\<close>

definition recv_error :: "net_opts \<Rightarrow> recv \<Rightarrow> string" where
  "recv_error cfg r =
     (case r of RecvError m \<Rightarrow> if show_errors cfg then ''proc-trace-net: recvfrom: '' @ m @ NL else '''' | _ \<Rightarrow> '''')"

definition recv_errors :: "net_opts \<Rightarrow> (netfs \<times> recv) list \<Rightarrow> string" where
  "recv_errors cfg turns = concat (map (recv_error cfg \<circ> snd) turns)"

lemma net_loop_idle:
  "(\<And>d. r \<noteq> Datagram d) \<Longrightarrow> net_loop cfg fuel ((fs, r) # turns) (st, err) = net_loop cfg fuel turns (st, err @ recv_error cfg r)"
  by (cases r) (auto simp: recv_error_def)

definition sane_turn :: "netfs \<times> recv \<Rightarrow> bool" where
  "sane_turn turn \<longleftrightarrow> (case snd turn of Datagram d \<Rightarrow> lengths_sane (take 1048576 d) | _ \<Rightarrow> True)"

lemma net_loop_reach:
  assumes "65536 < fuel"
  shows "net_reach cfg st \<Longrightarrow> list_all sane_turn turns \<Longrightarrow>
   \<exists>st'. net_loop cfg fuel turns (st, err) = Inr (st', err @ recv_errors cfg turns) \<and> net_reach cfg st'"
proof (induction turns arbitrary: st err)
  case (Cons turn turns)
  obtain fs r where turn: "turn = (fs, r)" by (cases turn)
  show ?case
  proof (cases r)
    case (Datagram d)
    let ?d = "take 1048576 d"
    have sane: "lengths_sane ?d" using Cons.prems(2) by (simp add: turn sane_turn_def Datagram)
    have "length ?d \<le> 1048576" by simp
    then have "length ?d div 16 \<le> 1048576 div 16" by (rule div_le_mono)
    then have "length ?d div 16 < fuel" using assms by simp
    then obtain st' where st': "process_nl_msgs fs cfg fuel ?d 0 (int (length ?d)) st = Inr st'" "net_reach cfg st'"
      using walk_reach [OF Cons.prems(1) sane, where pre = "[]" and fuel = fuel and fs = fs] \<open>length ?d \<le> 1048576\<close>
      by (auto simp del: length_take)
    have "net_loop cfg fuel (turn # turns) (st, err) = net_loop cfg fuel turns (st', err)"
      unfolding turn Datagram net_loop.simps recv.case st'(1) and_then_Inr ..
    then show ?thesis using Cons.IH [OF st'(2), of err] Cons.prems(2) by (simp add: turn Datagram recv_errors_def recv_error_def)
  next
    case Interrupted
    then show ?thesis
      using Cons.IH [OF Cons.prems(1), of "err @ recv_error cfg r"] Cons.prems(2) net_loop_idle [of r cfg fuel fs turns st err]
      by (simp only: turn recv_errors_def list.map concat.simps comp_def snd_conv append_assoc list.pred_inject) simp
  next
    case (RecvError msg)
    then show ?thesis
      using Cons.IH [OF Cons.prems(1), of "err @ recv_error cfg r"] Cons.prems(2) net_loop_idle [of r cfg fuel fs turns st err]
      by (simp only: turn recv_errors_def list.map concat.simps comp_def snd_conv append_assoc list.pred_inject) simp
  qed
qed (simp add: recv_errors_def)

text \<open>The datagrams the kernel sends are among these.\<close>

lemma datagram_sane: "length (datagram ms) < 2147483648 \<Longrightarrow> lengths_sane (datagram ms)"
proof (induction ms)
  case Nil
  show ?case by (simp add: datagram_def lengths_sane.simps)
next
  case (Cons m ms)
  obtain t fl body where m: "m = (t, fl, body)" by (cases m)
  have d: "datagram (m # ms) = nl_bytes m @ datagram ms" by (simp add: datagram_def)
  let ?n = "16 + length body"
  have len: "length (nl_bytes m) = (?n + 3) div 4 * 4" unfolding m by (rule length_nl_bytes)
  have n: "?n \<le> length (nl_bytes m)" unfolding len by linarith
  have small: "?n < 2147483648" using n Cons.prems by (simp add: d)
  have l: "le32_at (datagram (m # ms)) 0 = Inr (of_nat ?n)"
  proof -
    have "le32_at ([] @ put32 (of_nat ?n) @ post) 0 = Inr (of_nat ?n)" for post by (rule le32_at_put32) simp
    then show ?thesis unfolding d unfolding m nl_bytes.simps append_assoc append_Nil .
  qed
  have u: "unat (of_nat ?n :: u32) = ?n" using small by (simp only: unsigned_of_nat take_bit_eq_mod) simp
  have rest: "drop ((?n + 3) div 4 * 4) (datagram (m # ms)) = datagram ms" unfolding len [symmetric] d by simp
  have "lengths_sane (datagram ms)" using Cons by (simp add: d)
  then show ?case unfolding lengths_sane.simps [of "datagram (m # ms)"] l sum.case u rest using small by simp
qed

section \<open>Claims\<close>

text \<open>
  C23. The receive loop survives every sequence of datagrams, interrupted calls and receive errors, whatever bytes the
  datagrams hold, as long as no message header in them gives a length of \<open>2\<^sup>3\<^sup>1\<close> or more (the kernel's do not): it
  ends in a reachable state, having written exactly the lines of the failed calls. The fuel is more than the 65536 messages
  that fit into the buffer.
\<close>

theorem net_loop_runs:
  assumes "list_all sane_turn turns" "65536 < fuel"
  shows "\<exists>st. net_loop cfg fuel turns (net_start, '''') = Inr (st, recv_errors cfg turns) \<and> net_reach cfg st"
  using net_loop_reach [OF assms(2) net_reach.start assms(1), where err = "''''"] by simp

text \<open>An interruption, an empty datagram, one that ends within its message, one from the kernel, and an error.\<close>

theorem net_loop_runs_witness:
  "\<exists>st. net_loop net_defaults 65537 [(sample_net, Interrupted), (sample_net, Datagram []), (sample_net, Datagram (put32 2000 @ replicate 20 0)),
      (sample_net, Datagram (datagram [(3, 0, [])])), (sample_net, RecvError ''x'')] (net_start, '''')
    = Inr (st, ''proc-trace-net: recvfrom: x'' @ NL) \<and> net_reach net_defaults st"
proof -
  have small: "length (datagram [(3, 0, [])]) = 16" by (simp add: datagram_def)
  then have k: "lengths_sane (datagram [(3, 0, [])])" by (intro datagram_sane) simp
  have "le32_at (put32 2000 @ replicate 20 0) 0 = Inr 2000" using le32_at_put32 [of 0 "[]" 2000] by simp
  then have b: "lengths_sane (put32 2000 @ replicate 20 0)" by (subst lengths_sane.simps) simp
  have e: "lengths_sane []" by (subst lengths_sane.simps) simp
  have c: "take 1048576 xs = xs" if "length xs \<le> 1000" for xs :: "byte list" using that by simp
  have "list_all sane_turn [(sample_net, Interrupted), (sample_net, Datagram []), (sample_net, Datagram (put32 2000 @ replicate 20 0)),
      (sample_net, Datagram (datagram [(3, 0, [])])), (sample_net, RecvError ''x'')]"
    using k b e c [of "put32 2000 @ replicate 20 0"] c [of "datagram [(3, 0, [])]"] small
    by (simp add: sane_turn_def del: take_all take_all_iff take_append)
  from net_loop_runs [OF this, of 65537 net_defaults] show ?thesis by (simp add: recv_errors_def recv_error_def net_defaults_def)
qed

text \<open>
  \<^verbatim>\<open>-p\<close> ignores the range error of \<^verbatim>\<open>strtol\<close>: a number of \<open>2\<^sup>6\<^sup>3 - 1\<close> or more is accepted and
  watches process \<open>- 1\<close>, which no connection belongs to, so nothing is ever traced.
\<close>

theorem net_p_overflow:
  assumes "9223372036854775807 \<le> n" "\<not> esrch (- 1)"
  shows "net_pid_items esrch [dec_nat n] [] = Inr [- 1] \<and> \<not> is_watched fs [- 1] p"
proof -
  have d: "isdigit c" if "c \<in> set (dec_nat n)" for c using dec_nat_digits [OF that] .
  obtain a r where s: "dec_nat n = a # r" using show_base_nonempty [of 10 n] by (cases "dec_nat n") auto
  have sp: "\<not> is_sptab c" if "c \<in> set (dec_nat n)" for c
    using isdigit_not_space [OF d [OF that]] by (auto simp: is_sptab_def isspace_def)
  have trim: "trim_right is_sptab (trim_left is_sptab (dec_nat n)) = dec_nat n"
  proof -
    have "dropWhile is_sptab (dec_nat n) = dec_nat n" using sp by (cases "dec_nat n") auto
    moreover have "dropWhile is_sptab (rev (dec_nat n)) = rev (dec_nat n)"
      using sp by (cases "rev (dec_nat n)") (auto simp flip: set_rev [of "dec_nat n"])
    ultimately show ?thesis by (simp add: trim_right_def trim_left_def)
  qed
  have 1: "dropWhile isspace (dec_nat n) = dec_nat n" "split_sign (dec_nat n) = (False, dec_nat n)"
    using d [of a] isdigit_not_space [of a] isdigit_not_sign [of a] by (auto simp: s)
  have 2: "takeWhile isdigit (dec_nat n) = dec_nat n" "dropWhile isdigit (dec_nat n) = []"
    using d by (simp_all add: takeWhile_eq_all_conv)
  have v: "fst (strtol10 (dec_nat n)) = 9223372036854775807" "fst (snd (strtol10 (dec_nat n))) = []"
    unfolding strtol10_def Let_def 1 prod.case 2 using assms(1) by (simp_all add: long_max_def)
  have w: "to_int32 9223372036854775807 = - 1" by (simp add: to_int32_def)
  have "net_pid_items esrch [dec_nat n] [] = Inr [- 1]"
    using v w assms(2) by (simp add: trim Let_def case_prod_beta)
  moreover have "\<not> descends fs [- 1] q k" for q k
  proof
    assume "descends fs [- 1] q k"
    then show False by induction auto
  qed
  ultimately show ?thesis by (auto simp: is_watched_def is_descendant_iff)
qed

theorem net_p_overflow_witness:
  "net_pid_items (\<lambda>_. False) [dec_nat 99999999999999999999] [] = Inr [- 1]"
  using net_p_overflow [of 99999999999999999999 "\<lambda>_. False"] by simp

section \<open>The outbound filter\<close>

text \<open>The usage text says \<^verbatim>\<open>-O\<close> hides inbound and unknown connections; one of unknown direction passes.\<close>

lemma outbound_only_passes_unknown: "accepted fs (cfg\<lparr>outbound_only := True\<rparr>) p DIR_UNKNOWN = shown fs cfg p"
  by (simp add: accepted_def shown_def)

end
