(* ===== verification/Dns_Main.thy ===== *)
theory Dns_Main
  imports Dns_Events Net_Main
begin

text \<open>
  The command line of the DNS tracer, how it opens its capture on each platform, and its main loop
  (\<^verbatim>\<open>dns_main\<close> of \<^verbatim>\<open>src/c/dns.c\<close>). What the operating system answers is a parameter: \<open>exec_host\<close> for
  files, terminal and environment, \<open>bpf_host\<close> for the macOS packet filter, and one \<open>dns_host\<close> per turn
  of the loop.
\<close>

section \<open>Definitions\<close>

subsection \<open>The command line\<close>

record dns_args =
  da_opts :: dns_opts
  da_out :: string
  da_cmd :: "string list"

definition dns_initial :: dns_args where
  "dns_initial = \<lparr>da_opts = \<lparr>o_json = False, o_quiet = False, o_qquiet = False, o_flat = False, o_force = False, o_time = False,
     o_domain = '''', o_color = False, o_names = [], o_types = [], o_pids = []\<rparr>, da_out = '''', da_cmd = []\<rparr>"

definition MAX_SET :: nat where "MAX_SET = 64"

definition split_set :: "bool \<Rightarrow> string \<Rightarrow> string list \<Rightarrow> string list" where
  "split_set upper s xs =
     fold (\<lambda>t ys. let v = trim_right is_sptab (trim_left is_sptab t)
       in if v = '''' \<or> length ys \<ge> MAX_SET then ys else ys @ [if upper then map toupper v else v]) (strtok '','' s) xs"

definition parse_pids :: "string \<Rightarrow> int list \<Rightarrow> int list" where
  "parse_pids s ps =
     fold (\<lambda>t qs. let (v, rest, _) = strtol10 t; e = dropWhile is_sptab rest
       in if e \<noteq> t \<and> e = '''' \<and> length qs < MAX_SET then qs @ [to_int32 v] else qs) (strtok '','' s) ps"

definition dns_flag :: "char \<Rightarrow> (dns_opts \<Rightarrow> dns_opts) option" where
  "dns_flag ch =
     (if ch = CHR ''c'' then Some (o_force_update (\<lambda>_. True))
      else if ch = CHR ''f'' then Some (o_flat_update (\<lambda>_. True))
      else if ch = CHR ''j'' then Some (o_json_update (\<lambda>_. True))
      else if ch = CHR ''q'' then Some (o_quiet_update (\<lambda>_. True))
      else if ch = CHR ''Q'' then Some (o_qquiet_update (\<lambda>_. True))
      else if ch = CHR ''t'' then Some (o_time_update (\<lambda>_. True))
      else None)"

definition dns_value_flag :: "char \<Rightarrow> string \<Rightarrow> dns_args \<Rightarrow> dns_args" where
  "dns_value_flag ch v a =
     (let o' = da_opts a
      in if ch = CHR ''n'' then a\<lparr>da_opts := o'\<lparr>o_names := split_set False v (o_names o')\<rparr>\<rparr>
         else if ch = CHR ''p'' then a\<lparr>da_opts := o'\<lparr>o_pids := parse_pids v (o_pids o')\<rparr>\<rparr>
         else if ch = CHR ''d'' then a\<lparr>da_opts := o'\<lparr>o_domain := v\<rparr>\<rparr>
         else if ch = CHR ''o'' then a\<lparr>da_out := v\<rparr>
         else a\<lparr>da_opts := o'\<lparr>o_types := split_set True v (o_types o')\<rparr>\<rparr>)"

text \<open>\<open>UsageText\<close> is \<^verbatim>\<open>-h\<close>, which returns 0 here.\<close>

function dns_parse :: "string list \<Rightarrow> dns_args \<Rightarrow> leave + dns_args" where
  "dns_parse [] a = Inr a"
| "dns_parse (w # ws) a =
     (if w = '''' \<or> hd w \<noteq> CHR ''-'' \<or> tl w = '''' then Inr (a\<lparr>da_cmd := w # ws\<rparr>)
      else if w = ''--'' then Inr (a\<lparr>da_cmd := ws\<rparr>)
      else let ch = w ! 1; val = map_option (\<lambda>i. drop (i + 1) w) (strchr w (CHR ''=''))
        in case dns_flag ch of Some f \<Rightarrow> dns_parse ws (a\<lparr>da_opts := f (da_opts a)\<rparr>)
           | None \<Rightarrow>
               if ch = CHR ''h'' then Inl UsageText
               else if ch \<in> set ''npdoT'' then
                 (case val of Some v \<Rightarrow> dns_parse ws (dns_value_flag ch v a)
                  | None \<Rightarrow> (case ws of [] \<Rightarrow> Inl (Fatal (''flag -'' @ [ch] @ '' requires an argument''))
                      | v # ws' \<Rightarrow> dns_parse ws' (dns_value_flag ch v a)))
               else Inl (Fatal (''flag provided but not defined: -'' @ [ch])))"
  by pat_completeness auto
termination by (relation "measure (\<lambda>(ws, a). length ws)") auto

definition dns_die_text :: "string \<Rightarrow> string" where
  "dns_die_text msg = ''tracep dns: '' @ msg @ NL"

definition dns_log_err :: "dns_opts \<Rightarrow> string \<Rightarrow> string" where
  "dns_log_err cfg msg = (if o_qquiet cfg then '''' else msg @ NL)"

subsection \<open>Opening the capture\<close>

definition linux_cap_open :: "string option \<Rightarrow> string option" where
  "linux_cap_open err =
     (case err of None \<Rightarrow> None
      | Some e \<Rightarrow> Some (snprintf_s 256 (''socket: '' @ e @ NL @ ''Hint: run as root or: sudo setcap cap_net_raw+eip tracep'')))"

record ifaddr =
  if_name :: string
  if_inet :: bool      \<comment> \<open>it has an address and the address is IPv4\<close>
  if_up :: bool
  if_loopback :: bool
  if_addr :: u32       \<comment> \<open>in host byte order\<close>

fun pick_loop :: "ifaddr list \<Rightarrow> string \<Rightarrow> string option \<times> string" where
  "pick_loop [] fb = (None, fb)"
| "pick_loop (p # ps) fb =
     (if \<not> if_inet p then pick_loop ps fb
      else if \<not> if_up p \<or> if_loopback p then pick_loop ps fb
      else if if_addr p = 0 \<or> drop_bit 24 (if_addr p) = 127 then pick_loop ps fb
      else if take 2 (if_name p) = ''en'' then (Some (snprintf_s 16 (if_name p)), fb)
      else pick_loop ps (if fb = '''' then snprintf_s 16 (if_name p) else fb))"

definition pick_iface :: "ifaddr list option \<Rightarrow> string option" where
  "pick_iface ifs =
     (case ifs of None \<Rightarrow> None
      | Some l \<Rightarrow> (case pick_loop l '''' of
          (Some nm, _) \<Rightarrow> Some nm
        | (None, fb) \<Rightarrow> if fb \<noteq> '''' then Some fb else None))"

record bpf_host =
  b_ifs :: "ifaddr list option"
  b_open :: "nat \<Rightarrow> nat + nat"         \<comment> \<open>\<^verbatim>\<open>open(/dev/bpfN)\<close>: \<^verbatim>\<open>errno\<close> or a descriptor\<close>
  b_strerror :: "nat \<Rightarrow> string"
  b_set_len :: "nat option"             \<comment> \<open>\<^verbatim>\<open>errno\<close> of each \<^verbatim>\<open>ioctl\<close> that fails\<close>
  b_get_len :: "nat + nat"
  b_set_if :: "string \<Rightarrow> nat option"
  b_immediate :: "nat option"
  b_link_type :: "nat + nat"

fun open_bpf :: "bpf_host \<Rightarrow> nat list \<Rightarrow> nat \<Rightarrow> nat + nat" where
  "open_bpf b [] err = Inl err"
| "open_bpf b (i # is) err =
     (case b_open b i of Inr fd \<Rightarrow> Inr fd
      | Inl e \<Rightarrow> open_bpf b is (if err = 0 \<or> e = 13 \<or> e = 1 then e else err))"

text \<open>The message in \<^verbatim>\<open>errbuf\<close>, or the interface, the descriptor and the length of the buffer.\<close>

definition mac_cap_open :: "bpf_host \<Rightarrow> string + (string \<times> nat \<times> nat)" where
  "mac_cap_open b =
     (let fail = (\<lambda>s. Inl (snprintf_s 256 s)) in
      case pick_iface (b_ifs b) of None \<Rightarrow> fail ''no up non-loopback IPv4 interface found''
      | Some iface \<Rightarrow>
      case open_bpf b [0..<256] 0 of Inl e \<Rightarrow> fail (''open /dev/bpf*: '' @ b_strerror b e @ NL @ ''Hint: run with sudo'')
      | Inr fd \<Rightarrow>
      case b_set_len b of Some e \<Rightarrow> fail (''BIOCSBLEN: '' @ b_strerror b e)
      | None \<Rightarrow>
      case b_get_len b of Inl e \<Rightarrow> fail (''BIOCGBLEN: '' @ b_strerror b e)
      | Inr blen \<Rightarrow>
      case b_set_if b (snprintf_s 16 iface) of Some e \<Rightarrow> fail (''BIOCSETIF '' @ iface @ '': '' @ b_strerror b e)
      | None \<Rightarrow>
      case b_immediate b of Some e \<Rightarrow> fail (''BIOCIMMEDIATE: '' @ b_strerror b e)
      | None \<Rightarrow>
      case b_link_type b of Inl e \<Rightarrow> fail (''BIOCGDLT: '' @ b_strerror b e)
      | Inr dlt \<Rightarrow>
          if dlt \<noteq> 1 then fail (''interface '' @ iface @ '' link type '' @ dec_nat dlt @ '' is not Ethernet (DLT_EN10MB); unsupported'')
          else Inr (iface, fd, blen))"

subsection \<open>Set-up and loop\<close>

text \<open>\<open>cap\<close> is the message of a capture that does not open; \<open>child\<close> what \<^verbatim>\<open>fork\<close> returns, or the error.\<close>

definition dns_setup :: "exec_host \<Rightarrow> string option \<Rightarrow> (string + i32) \<Rightarrow> string list \<Rightarrow> leave + dns_opts" where
  "dns_setup h cap child args =
     (case dns_parse args dns_initial of Inl l \<Rightarrow> Inl l
      | Inr a \<Rightarrow>
          let c = da_opts a; c1 = c\<lparr>o_color := o_force c \<or> (is_terminal (h_tty h) \<and> h_no_color h = None)\<rparr>
          in if da_out a \<noteq> '''' \<and> \<not> h_opens h (da_out a) then Inl (Fatal (''open output file: '' @ h_strerror h))
             else let c2 = (if da_out a \<noteq> '''' \<and> \<not> o_force c1 then c1\<lparr>o_color := False\<rparr> else c1)
               in case cap of Some msg \<Rightarrow> Inl (Fatal msg)
                  | None \<Rightarrow>
                      if da_cmd a = [] then Inr c2
                      else case child of Inl e \<Rightarrow> Inl (Fatal (''start command: '' @ e))
                           | Inr p \<Rightarrow> Inr (if length (o_pids c2) < MAX_SET then c2\<lparr>o_pids := o_pids c2 @ [sint p]\<rparr> else c2))"

text \<open>The loop of the Linux tracer until it is stopped: the state and what is on the error stream.\<close>

fun dns_loop :: "dns_os \<Rightarrow> dns_opts \<Rightarrow> nat \<Rightarrow> (dns_host \<times> recv) list \<Rightarrow> dns_st \<times> string \<Rightarrow> (dns_st \<times> string) outcome" where
  "dns_loop os cfg fuel [] s = Inr s"
| "dns_loop os cfg fuel ((h, r) # turns) (st, err) =
     (case r of
        Interrupted \<Rightarrow> dns_loop os cfg fuel turns (st, err)
      | RecvError e \<Rightarrow> dns_loop os cfg fuel turns (st, err @ dns_log_err cfg (''capture: '' @ e))
      | Datagram d \<Rightarrow> and_then (dns_frame os cfg fuel h (take 65536 d) st) (\<lambda>st'. dns_loop os cfg fuel turns (st', err)))"

text \<open>The same loop on macOS, where a frame is a record of the buffer; \<open>reads\<close> are the buffers to come.\<close>

fun mac_dns_loop :: "nat \<Rightarrow> dns_opts \<Rightarrow> nat \<Rightarrow> string \<Rightarrow> dns_host list \<Rightarrow> byte list \<Rightarrow> byte list option list \<Rightarrow> dns_st \<times> string \<Rightarrow> (dns_st \<times> string) outcome" where
  "mac_dns_loop hs cfg fuel e [] r reads s = Inr s"
| "mac_dns_loop hs cfg fuel e (h # hosts) r reads (st, err) =
     and_then (cap_next hs r reads) (\<lambda>x. case x of
        None \<Rightarrow> Inr (st, err)
      | Some (None, r', reads') \<Rightarrow> mac_dns_loop hs cfg fuel e hosts r' reads' (st, err @ dns_log_err cfg (''capture: '' @ e))
      | Some (Some frame, r', reads') \<Rightarrow>
          and_then (dns_frame OsDarwin cfg fuel h frame st) (\<lambda>st'. mac_dns_loop hs cfg fuel e hosts r' reads' (st', err)))"

section \<open>The loop\<close>

text \<open>The messages among what is received: what the parser makes of each datagram.\<close>

definition turn_events :: "nat \<Rightarrow> dns_host \<times> recv \<Rightarrow> dns_event list" where
  "turn_events fuel turn =
     (case turn of (h, r) \<Rightarrow> (case r of
        Datagram d \<Rightarrow> (case parse_packet fuel (take 65536 d) of Inr (Some (m, src, dst)) \<Rightarrow> [(h, m, src, dst)] | _ \<Rightarrow> [])
      | _ \<Rightarrow> []))"

definition turn_errors :: "dns_opts \<Rightarrow> dns_host \<times> recv \<Rightarrow> string" where
  "turn_errors cfg turn = (case snd turn of RecvError e \<Rightarrow> dns_log_err cfg (''capture: '' @ e) | _ \<Rightarrow> '''')"

definition turn_parses :: "nat \<Rightarrow> dns_host \<times> recv \<Rightarrow> bool" where
  "turn_parses fuel turn \<longleftrightarrow> (case snd turn of Datagram d \<Rightarrow> parse_packet fuel (take 65536 d) \<noteq> Inl OutOfFuel | _ \<Rightarrow> True)"

lemma parse_packet_returns: "parse_packet fuel d \<noteq> Inl OutOfFuel \<Longrightarrow> \<exists>r. parse_packet fuel d = Inr r"
proof -
  assume "parse_packet fuel d \<noteq> Inl OutOfFuel"
  moreover have "mem_safe (parse_packet fuel d)" by (rule parse_packet_safe)
  ultimately show ?thesis unfolding mem_safe_def by (cases "parse_packet fuel d") (metis fault.exhaust, blast)
qed

lemma run_dns_append: "run_dns os cfg (es @ fs) st = run_dns os cfg fs (run_dns os cfg es st)"
  by (simp add: run_dns_def)

lemma dns_loop_events:
  "list_all (turn_parses fuel) turns \<Longrightarrow> dns_loop os cfg fuel turns (st, err) =
     Inr (run_dns os cfg (concat (map (turn_events fuel) turns)) st, err @ concat (map (turn_errors cfg) turns))"
proof (induction turns arbitrary: st err)
  case Nil
  then show ?case by (simp add: run_dns_def)
next
  case (Cons turn turns)
  obtain h r where turn: "turn = (h, r)" by (cases turn)
  have IH: "dns_loop os cfg fuel turns (st, err) = Inr (run_dns os cfg (concat (map (turn_events fuel) turns)) st,
      err @ concat (map (turn_errors cfg) turns))" for st err
    using Cons by simp
  show ?case
  proof (cases r)
    case (Datagram d)
    then obtain x where x: "parse_packet fuel (take 65536 d) = Inr x"
      using Cons.prems parse_packet_returns by (auto simp: turn turn_parses_def)
    have ev: "turn_events fuel (h, Datagram d) = (case x of None \<Rightarrow> [] | Some (m, src, dst) \<Rightarrow> [(h, m, src, dst)])"
      by (cases x) (simp_all add: turn_events_def x split: prod.split)
    show ?thesis
    proof (cases x)
      case None
      then show ?thesis using x ev IH by (simp add: turn Datagram dns_frame_def turn_errors_def [of _ "(h, _)"])
    next
      case (Some y)
      obtain m src dst where y: "y = (m, src, dst)" by (cases y)
      have "run_dns os cfg (turn_events fuel (h, Datagram d) @ es) st = run_dns os cfg es (dns_message os cfg h m src dst st)" for es
        by (simp add: ev Some y run_dns_def)
      then show ?thesis using x IH by (simp add: turn Datagram dns_frame_def Some y turn_errors_def [of _ "(h, _)"])
    qed
  qed (simp_all add: turn IH turn_events_def [of _ "(h, _)"] turn_errors_def [of _ "(h, _)"])
qed

section \<open>The command line\<close>

lemma dns_flag_values: "ch \<in> set ''npdoT'' \<Longrightarrow> dns_flag ch = None \<and> ch \<noteq> CHR ''h'' \<and> ch \<noteq> CHR ''-'' \<and> ch \<noteq> CHR ''=''"
  by (auto simp: dns_flag_def)

lemma dns_value_forms:
  assumes "ch \<in> set ''npdoT''"
  shows "dns_parse ((CHR ''-'' # ch # CHR ''='' # v) # ws) a = dns_parse ([CHR ''-'', ch] # v # ws) a"
  using dns_flag_values [OF assms] assms by (simp del: list.set)

lemma dns_flag_junk:
  assumes "dns_flag ch = Some f"
  shows "dns_parse ((CHR ''-'' # ch # junk) # ws) a = dns_parse ws (a\<lparr>da_opts := f (da_opts a)\<rparr>)"
proof -
  have "ch \<noteq> CHR ''-''" using assms by (auto simp: dns_flag_def)
  then show ?thesis using assms by simp
qed

section \<open>The interface\<close>

text \<open>The interfaces that qualify: up, not a loopback, with an IPv4 address that is neither unspecified
  nor \<^verbatim>\<open>127.x.x.x\<close>.\<close>

definition eligible :: "ifaddr \<Rightarrow> bool" where
  "eligible p \<longleftrightarrow> if_inet p \<and> if_up p \<and> \<not> if_loopback p \<and> if_addr p \<noteq> 0 \<and> drop_bit 24 (if_addr p) \<noteq> 127"

definition ethernet :: "ifaddr \<Rightarrow> bool" where
  "ethernet p \<longleftrightarrow> take 2 (if_name p) = ''en''"

definition first_of :: "('a \<Rightarrow> bool) \<Rightarrow> 'a list \<Rightarrow> 'a option" where
  "first_of P l = (case filter P l of [] \<Rightarrow> None | x # _ \<Rightarrow> Some x)"

lemma first_of_simps [simp]:
  "first_of P [] = None"
  "first_of P (x # xs) = (if P x then Some x else first_of P xs)"
  by (simp_all add: first_of_def)

lemma pick_loop_spec:
  assumes "\<forall>p \<in> set l. if_name p \<noteq> '''' \<and> length (if_name p) < 16"
  shows "fst (pick_loop l fb) = map_option if_name (first_of (\<lambda>p. eligible p \<and> ethernet p) l) \<and>
    (first_of (\<lambda>p. eligible p \<and> ethernet p) l = None \<longrightarrow>
     snd (pick_loop l fb) = (if fb \<noteq> '''' then fb else case first_of eligible l of Some p \<Rightarrow> if_name p | None \<Rightarrow> ''''))"
  using assms
proof (induction l arbitrary: fb)
  case (Cons p l)
  show ?case
  proof (cases "eligible p")
    case False
    then have "pick_loop (p # l) fb = pick_loop l fb" by (auto simp: eligible_def)
    then show ?thesis using Cons.IH [of fb] Cons.prems False by (simp del: pick_loop.simps)
  next
    case True
    then have p: "if_inet p" "if_up p" "\<not> if_loopback p" "if_addr p \<noteq> 0" "drop_bit 24 (if_addr p) \<noteq> 127"
      by (simp_all add: eligible_def)
    show ?thesis
    proof (cases "ethernet p")
      case False
      then have "pick_loop (p # l) fb = pick_loop l (if fb = '''' then if_name p else fb)"
        using p Cons.prems by (simp add: ethernet_def)
      then show ?thesis using Cons.IH [of "if fb = '''' then if_name p else fb"] Cons.prems True False
        by (simp del: pick_loop.simps)
    qed (use True p Cons.prems in \<open>simp add: ethernet_def\<close>)
  qed
qed simp

text \<open>What the code means to choose: the first Ethernet interface that qualifies, else the first that does.\<close>

definition best_iface :: "ifaddr list \<Rightarrow> string option" where
  "best_iface l = map_option if_name (case first_of (\<lambda>p. eligible p \<and> ethernet p) l of Some p \<Rightarrow> Some p | None \<Rightarrow> first_of eligible l)"

lemma first_of_set: "first_of P l = Some x \<Longrightarrow> x \<in> set l \<and> P x"
  by (induction l) (auto split: if_splits)

lemma pick_iface_best:
  assumes "\<forall>p \<in> set l. if_name p \<noteq> '''' \<and> length (if_name p) < 16"
  shows "pick_iface (Some l) = best_iface l"
proof -
  obtain a b where r: "pick_loop l '''' = (a, b)" by fastforce
  then show ?thesis
    using pick_loop_spec [OF assms, of "''''"] assms
    by (auto simp: pick_iface_def best_iface_def split: option.split dest: first_of_set)
qed

section \<open>Claims\<close>

text \<open>
  The loop handles exactly what is on the wire: for every sequence of datagrams, interruptions and
  errors it runs to the end, its state is that of handling the DNS messages among the datagrams one
  after the other, and each error is logged once, unless messages are suppressed. The only datagrams
  it does not get past are those whose names never end.
\<close>

theorem dns_loop_delivers:
  assumes "list_all (turn_parses fuel) turns"
  shows "dns_loop os cfg fuel turns (st, err) =
    Inr (run_dns os cfg (concat (map (turn_events fuel) turns)) st, err @ concat (map (turn_errors cfg) turns))"
  by (rule dns_loop_events [OF assms])

theorem dns_loop_delivers_witness:
  "dns_loop OsLinux quiet_dns 10 [(sample_dns_host, Interrupted), (sample_dns_host, Datagram [1, 2, 3]), (sample_dns_host, RecvError ''no'')]
     (dns_start, '''') = Inr (dns_start, ''capture: no'' @ NL)"
proof -
  have p: "parse_packet 10 [1, 2, 3] = Inr None" by (simp add: parse_packet_def)
  have "list_all (turn_parses 10) [(sample_dns_host, Interrupted), (sample_dns_host, Datagram [1, 2, 3]), (sample_dns_host, RecvError ''no'')]"
    by (simp add: turn_parses_def p)
  from dns_loop_delivers [OF this, of OsLinux quiet_dns dns_start "''''"] show ?thesis
    by (simp add: turn_events_def turn_errors_def p run_dns_def dns_log_err_def quiet_dns_def)
qed

text \<open>
  \<^verbatim>\<open>pick_iface\<close> computes the choice it describes: the first Ethernet interface that is up, is no
  loopback and has a usable IPv4 address, else the first such interface of any kind, else none.
\<close>

theorem pick_iface_is_best:
  assumes "\<forall>p \<in> set l. if_name p \<noteq> '''' \<and> length (if_name p) < 16"
  shows "pick_iface (Some l) = best_iface l"
  by (rule pick_iface_best [OF assms])

theorem pick_iface_is_best_witness:
  "pick_iface (Some [\<lparr>if_name = ''lo0'', if_inet = True, if_up = True, if_loopback = True, if_addr = 0x7F000001\<rparr>,
     \<lparr>if_name = ''utun1'', if_inet = True, if_up = True, if_loopback = False, if_addr = 0x0A000001\<rparr>,
     \<lparr>if_name = ''en0'', if_inet = True, if_up = True, if_loopback = False, if_addr = 0x0A000002\<rparr>]) = Some ''en0''"
  by (subst pick_iface_is_best) (simp_all add: best_iface_def eligible_def ethernet_def)

text \<open>
  The two forms of an option with a value mean the same: \<^verbatim>\<open>-x=VALUE\<close> and \<^verbatim>\<open>-x VALUE\<close>, for every value
  and whatever follows. An option without one is not parsed as the code's comment says (Go's flag
  package): whatever is written behind its letter is ignored, so \<^verbatim>\<open>-c=false\<close> turns colours on and
  \<^verbatim>\<open>-cq\<close> is not quiet; and an empty entry in a \<^verbatim>\<open>-p\<close> list selects process 0.
\<close>

theorem dns_flag_forms:
  "list_all (\<lambda>ch. dns_parse ((CHR ''-'' # ch # CHR ''='' # v) # ws) a = dns_parse ([CHR ''-'', ch] # v # ws) a) ''npdoT'' \<and>
   dns_parse ((''-c'' @ junk) # ws) a = dns_parse ws (a\<lparr>da_opts := (da_opts a)\<lparr>o_force := True\<rparr>\<rparr>) \<and>
   parse_pids ''71, '' [] = [71, 0]"
proof (intro conjI)
  show "list_all (\<lambda>ch. dns_parse ((CHR ''-'' # ch # CHR ''='' # v) # ws) a = dns_parse ([CHR ''-'', ch] # v # ws) a) ''npdoT''"
    unfolding list_all_iff using dns_value_forms by blast
  show "dns_parse ((''-c'' @ junk) # ws) a = dns_parse ws (a\<lparr>da_opts := (da_opts a)\<lparr>o_force := True\<rparr>\<rparr>)"
    using dns_flag_junk [of "CHR ''c''" "o_force_update (\<lambda>_. True)" junk ws a] by (simp add: dns_flag_def)
  show "parse_pids ''71, '' [] = [71, 0]" by code_simp
qed

end
