(* ===== verification/Tls_Host.thy ===== *)
theory Tls_Host
  imports Net_Proc
begin

text \<open>
  How the TLS tracer (\<^verbatim>\<open>src/c/tls.c\<close>) finds the library to probe and the host behind a connection:
  the per-process cache of server names, \<^verbatim>\<open>/proc/PID/maps\<close>, the socket tables of a process and the
  conversion of their hexadecimal addresses. What the system answers is the record \<open>tls_host\<close>.
\<close>

section \<open>Definitions\<close>

record tls_host =
  t_maps :: "int \<Rightarrow> string list option"      \<comment> \<open>lines of \<^verbatim>\<open>/proc/PID/maps\<close>\<close>
  t_exists :: "string \<Rightarrow> bool"               \<comment> \<open>\<^verbatim>\<open>stat\<close> succeeds\<close>
  t_real :: "string \<Rightarrow> string option"        \<comment> \<open>\<^verbatim>\<open>realpath\<close>\<close>
  t_net :: "int \<Rightarrow> bool \<Rightarrow> string list option" \<comment> \<open>lines of \<^verbatim>\<open>/proc/PID/net/tcp6\<close> (\<open>True\<close>) and \<^verbatim>\<open>tcp\<close>\<close>
  t_rdns :: "bool \<Rightarrow> string \<Rightarrow> string option" \<comment> \<open>\<^verbatim>\<open>getaddrinfo\<close> and \<^verbatim>\<open>getnameinfo\<close> of a numeric address\<close>
  t_local :: "int \<Rightarrow> nat \<times> nat \<times> nat"     \<comment> \<open>\<^verbatim>\<open>localtime_r\<close>: hour, minute, second\<close>

subsection \<open>The cache of server names\<close>

definition MAX_SNI :: nat where "MAX_SNI = 1024"

type_synonym sni_cache = "nat \<Rightarrow> (int \<times> string) option"

text \<open>The slot that is written: that of the process, else the first free one, else one by its number,
  where \<^verbatim>\<open>%\<close> truncates.\<close>

fun sni_slot :: "sni_cache \<Rightarrow> int \<Rightarrow> nat list \<Rightarrow> nat option \<Rightarrow> int" where
  "sni_slot c p [] free =
     (case free of Some i \<Rightarrow> int i
      | None \<Rightarrow> if p < 0 then - ((- p) mod int MAX_SNI) else p mod int MAX_SNI)"
| "sni_slot c p (i # is) free =
     (case c i of
        Some (q, _) \<Rightarrow> if q = p then int i else sni_slot c p is free
      | None \<Rightarrow> sni_slot c p is (if free = None then Some i else free))"

definition set_sni :: "int \<Rightarrow> string \<Rightarrow> sni_cache \<Rightarrow> sni_cache outcome" where
  "set_sni p host c =
     (let i = sni_slot c p [0..<MAX_SNI] None
      in if i < 0 then Inl OutOfBounds else Inr (c(nat i \<mapsto> (p, snprintf_s 256 host))))"

fun sni_find :: "sni_cache \<Rightarrow> int \<Rightarrow> nat list \<Rightarrow> string option" where
  "sni_find c p [] = None"
| "sni_find c p (i # is) = (case c i of Some (q, h) \<Rightarrow> if q = p then Some h else sni_find c p is | None \<Rightarrow> sni_find c p is)"

definition get_sni :: "sni_cache \<Rightarrow> int \<Rightarrow> string" where
  "get_sni c p = (case sni_find c p [0..<MAX_SNI] of Some h \<Rightarrow> h | None \<Rightarrow> '''')"

subsection \<open>The library\<close>

definition PATH_MAX :: nat where "PATH_MAX = 4096"

definition resolve_lib :: "tls_host \<Rightarrow> string \<Rightarrow> nat \<Rightarrow> string" where
  "resolve_lib h path cap = snprintf_s cap (case t_real h path of Some r \<Rightarrow> r | None \<Rightarrow> path)"

definition white :: string where "white = '' '' @ [CHR 0x09, CHR 0x0A]"

fun lib_in_lines :: "tls_host \<Rightarrow> string list \<Rightarrow> nat \<Rightarrow> string option" where
  "lib_in_lines h [] cap = None"
| "lib_in_lines h (line # ls) cap =
     (if strstr line ''libssl'' = None then lib_in_lines h ls cap
      else let fields = take 6 (strtok white line)
        in if length fields \<ge> 6 \<and> t_exists h (fields ! 5) then Some (resolve_lib h (fields ! 5) cap)
           else lib_in_lines h ls cap)"

definition lib_from_maps :: "tls_host \<Rightarrow> int \<Rightarrow> nat \<Rightarrow> string option" where
  "lib_from_maps h p cap = (case t_maps h p of None \<Rightarrow> None | Some ls \<Rightarrow> lib_in_lines h ls cap)"

definition ssl_candidates :: "string list" where
  "ssl_candidates =
     [''/lib/x86_64-linux-gnu/libssl.so.3'', ''/lib/x86_64-linux-gnu/libssl.so.1.1'', ''/lib64/libssl.so.3'', ''/lib64/libssl.so.1.1'',
      ''/usr/lib64/libssl.so.3'', ''/usr/lib64/libssl.so.1.1'', ''/usr/lib/x86_64-linux-gnu/libssl.so.3'',
      ''/usr/lib/x86_64-linux-gnu/libssl.so.1.1'', ''/lib/aarch64-linux-gnu/libssl.so.3'', ''/lib/aarch64-linux-gnu/libssl.so.1.1'']"

fun first_lib :: "tls_host \<Rightarrow> int list \<Rightarrow> nat \<Rightarrow> string option" where
  "first_lib h [] cap = None"
| "first_lib h (p # ps) cap = (case lib_from_maps h p cap of Some l \<Rightarrow> Some l | None \<Rightarrow> first_lib h ps cap)"

fun first_candidate :: "tls_host \<Rightarrow> string list \<Rightarrow> nat \<Rightarrow> string option" where
  "first_candidate h [] cap = None"
| "first_candidate h (c # cs) cap = (if t_exists h c then Some (resolve_lib h c cap) else first_candidate h cs cap)"

definition find_libssl :: "tls_host \<Rightarrow> int list \<Rightarrow> nat \<Rightarrow> string option" where
  "find_libssl h watch cap =
     (case first_lib h watch cap of Some l \<Rightarrow> Some l | None \<Rightarrow> first_candidate h ssl_candidates cap)"

subsection \<open>The remote host\<close>

text \<open>The bytes of a hexadecimal text, two digits each, as \<^verbatim>\<open>strtoul\<close> reads a pair.\<close>

fun hex_pairs :: "string \<Rightarrow> byte list option" where
  "hex_pairs (a # b # s) =
     (let (v, rest) = strtoul16 [a, b] in if rest \<noteq> [] then None else map_option (Cons (of_int v)) (hex_pairs s))"
| "hex_pairs [] = Some []"
| "hex_pairs [a] = None"

text \<open>The four bytes of \<^verbatim>\<open>htonl(x)\<close> in memory.\<close>

definition htonl_bytes :: "u32 \<Rightarrow> byte list" where
  "htonl_bytes x = [ucast (drop_bit 24 x), ucast (drop_bit 16 x), ucast (drop_bit 8 x), ucast x]"

definition v4_text :: "byte list \<Rightarrow> string option" where
  "v4_text b =
     (if length b \<noteq> 4 then None
      else let addr32 = ucast (b ! 0) OR push_bit 8 (ucast (b ! 1)) OR push_bit 16 (ucast (b ! 2)) OR push_bit 24 (ucast (b ! 3)) :: u32;
               s = push_bit 24 (addr32 AND 0xFF) OR push_bit 8 (addr32 AND 0xFF00) OR (drop_bit 8 addr32 AND 0xFF00)
                   OR (drop_bit 24 addr32 AND 0xFF);
               o0 = ucast addr32 :: byte; o1 = ucast (drop_bit 8 addr32) :: byte; o2 = ucast (drop_bit 16 addr32) :: byte;
               o3 = ucast (drop_bit 24 addr32) :: byte
        in if o0 = 127 then None
           else if o0 = 0 \<and> o1 = 0 \<and> o2 = 0 \<and> o3 = 0 then None
           else Some (inet_ntop4 (htonl_bytes s)))"

fun swap_groups :: "byte list \<Rightarrow> byte list" where
  "swap_groups (a # b # c # d # r) = [d, c, b, a] @ swap_groups r"
| "swap_groups r = r"

definition v6_text :: "byte list \<Rightarrow> string option" where
  "v6_text b0 =
     (if length b0 \<noteq> 16 then None
      else let b = swap_groups b0
        in if b = replicate 15 0 @ [1] \<or> (b ! 0 = 0xFE \<and> b ! 1 AND 0xC0 = 0x80) then None
           else if b = replicate 15 0 @ [1] \<or> b = replicate 16 0 then None
           else Some (inet_ntop6 b))"

text \<open>The text of an address that is traced; \<open>None\<close> where the code returns false.\<close>

definition parse_hex_addr :: "tls_host \<Rightarrow> bool \<Rightarrow> string \<Rightarrow> bool \<Rightarrow> nat \<Rightarrow> string option" where
  "parse_hex_addr h no_rdns hex_addr v6 cap =
     (case strchr hex_addr (CHR '':'') of None \<Rightarrow> None
      | Some i \<Rightarrow>
          if i \<ge> 64 then None
          else let addr_hex = take i hex_addr; port_hex = drop (i + 1) hex_addr; (port_n, rest) = strtoul16 port_hex
            in if rest = port_hex \<or> port_n > 65535 \<or> port_n = 0 then None
               else if length addr_hex mod 2 \<noteq> 0 \<or> length addr_hex div 2 > 16 then None
               else case hex_pairs addr_hex of None \<Rightarrow> None
                 | Some b \<Rightarrow>
                   (case (if v6 then v6_text b else v4_text b) of None \<Rightarrow> None
                    | Some ip \<Rightarrow>
                        Some (case (if no_rdns then None else t_rdns h v6 ip) of
                          Some nm \<Rightarrow>
                            let nm' = (if nm \<noteq> '''' \<and> last nm = CHR ''.'' then butlast nm else nm)
                            in snprintf_s cap (nm' @ '':'' @ dec_int port_n)
                        | None \<Rightarrow> snprintf_s cap (ip @ '':'' @ dec_int port_n))))"

fun remote_in_lines :: "tls_host \<Rightarrow> bool \<Rightarrow> string list \<Rightarrow> bool \<Rightarrow> nat \<Rightarrow> string option" where
  "remote_in_lines h no_rdns [] v6 cap = None"
| "remote_in_lines h no_rdns (line # ls) v6 cap =
     (let fields = take 4 (strtok white line)
      in if length fields < 4 \<or> fields ! 3 \<noteq> ''01'' then remote_in_lines h no_rdns ls v6 cap
         else case parse_hex_addr h no_rdns (fields ! 2) v6 cap of Some a \<Rightarrow> Some a
              | None \<Rightarrow> remote_in_lines h no_rdns ls v6 cap)"

definition remote_from_proc_net :: "tls_host \<Rightarrow> bool \<Rightarrow> int \<Rightarrow> nat \<Rightarrow> string option" where
  "remote_from_proc_net h no_rdns p cap =
     (let look = (\<lambda>v6. case t_net h p v6 of None \<Rightarrow> None | Some ls \<Rightarrow> remote_in_lines h no_rdns (drop 1 ls) v6 cap)
      in case look True of Some a \<Rightarrow> Some a | None \<Rightarrow> look False)"

definition remote_host :: "tls_host \<Rightarrow> bool \<Rightarrow> sni_cache \<Rightarrow> int \<Rightarrow> nat \<Rightarrow> string" where
  "remote_host h no_rdns c p cap =
     (if get_sni c p \<noteq> '''' then snprintf_s cap (get_sni c p)
      else case remote_from_proc_net h no_rdns p cap of Some a \<Rightarrow> a | None \<Rightarrow> '''')"

section \<open>The cache is a map\<close>

definition sni_ok :: "sni_cache \<Rightarrow> bool" where
  "sni_ok c \<longleftrightarrow> (\<forall>i < MAX_SNI. \<forall>j < MAX_SNI. \<forall>p g h. c i = Some (p, g) \<longrightarrow> c j = Some (p, h) \<longrightarrow> i = j)"

definition sni_map :: "sni_cache \<Rightarrow> int \<Rightarrow> string option" where
  "sni_map c p = sni_find c p [0..<MAX_SNI]"

lemma sni_find_Some: "sni_find c p is = Some h \<Longrightarrow> \<exists>i \<in> set is. c i = Some (p, h)"
  by (induction "is") (auto split: option.splits if_splits)

lemma sni_find_None: "sni_find c p is = None \<longleftrightarrow> (\<forall>i \<in> set is. \<forall>h. c i \<noteq> Some (p, h))"
  by (induction "is") (auto split: option.splits if_splits)

lemma sni_map_iff: "sni_ok c \<Longrightarrow> sni_map c p = Some h \<longleftrightarrow> (\<exists>i < MAX_SNI. c i = Some (p, h))"
proof
  assume "sni_map c p = Some h"
  then show "\<exists>i < MAX_SNI. c i = Some (p, h)" using sni_find_Some [of c p "[0..<MAX_SNI]" h] by (auto simp: sni_map_def)
next
  assume ok: "sni_ok c" and "\<exists>i < MAX_SNI. c i = Some (p, h)"
  then obtain i where i: "i < MAX_SNI" "c i = Some (p, h)" by blast
  then obtain g where g: "sni_map c p = Some g" using sni_find_None [of c p "[0..<MAX_SNI]"] by (cases "sni_map c p") (auto simp: sni_map_def)
  then obtain j where "j < MAX_SNI" "c j = Some (p, g)" using sni_find_Some [of c p "[0..<MAX_SNI]" g] by (auto simp: sni_map_def)
  then show "sni_map c p = Some h" using ok i g unfolding sni_ok_def by (metis option.inject prod.inject)
qed

text \<open>Where a name goes: to the slot of the process, to an unused slot, or, if there is none, to the
  slot of its number.\<close>

lemma sni_slot_present: "\<exists>i \<in> set is. \<exists>h. c i = Some (p, h) \<Longrightarrow> \<exists>i \<in> set is. \<exists>h. c i = Some (p, h) \<and> sni_slot c p is free = int i"
  by (induction "is" arbitrary: free) (auto split: option.splits if_splits)

lemma sni_slot_absent:
  assumes "\<forall>i \<in> set is. \<forall>h. c i \<noteq> Some (p, h)" "0 \<le> p"
  shows "case free of Some f \<Rightarrow> sni_slot c p is free = int f
    | None \<Rightarrow> (\<exists>i \<in> set is. c i = None \<and> sni_slot c p is free = int i) \<or>
        (\<forall>i \<in> set is. c i \<noteq> None) \<and> sni_slot c p is free = p mod int MAX_SNI"
  using assms
proof (induction "is" arbitrary: free)
  case (Cons i "is")
  show ?case
  proof (cases "c i")
    case None
    show ?thesis using Cons.IH [of "Some i"] Cons.IH [of free] Cons.prems None by (cases free) auto
  next
    case (Some x)
    then show ?thesis using Cons.IH [of free] Cons.prems by (cases x) (auto split: option.splits)
  qed
qed (auto split: option.split)

lemma option_eqI: "(\<And>g. x = Some g \<longleftrightarrow> y = Some g) \<Longrightarrow> x = y"
  by (cases x; cases y) auto

lemma sni_write:
  assumes "sni_ok c" "i < MAX_SNI" "\<forall>j < MAX_SNI. j \<noteq> i \<longrightarrow> (\<forall>h. c j \<noteq> Some (p, h))"
  shows "sni_ok (c(i \<mapsto> (p, h)))"
    and "sni_map (c(i \<mapsto> (p, h))) q = (if q = p then Some h else if (\<exists>g. c i = Some (q, g)) then None else sni_map c q)"
proof -
  show ok: "sni_ok (c(i \<mapsto> (p, h)))" using assms unfolding sni_ok_def by (auto split: if_splits)
  have "sni_map (c(i \<mapsto> (p, h))) q = Some g \<longleftrightarrow>
      (if q = p then g = h else (\<nexists>g. c i = Some (q, g)) \<and> sni_map c q = Some g)" for g
    unfolding sni_map_iff [OF ok] sni_map_iff [OF assms(1)] using assms by (auto split: if_splits) (metis sni_ok_def)+
  then show "sni_map (c(i \<mapsto> (p, h))) q = (if q = p then Some h else if (\<exists>g. c i = Some (q, g)) then None else sni_map c q)"
    by (intro option_eqI) (auto split: if_splits)
qed

text \<open>The process whose name is lost when the table is full.\<close>

definition sni_victim :: "sni_cache \<Rightarrow> int \<Rightarrow> int option" where
  "sni_victim c p =
     (if sni_map c p = None \<and> (\<forall>i < MAX_SNI. c i \<noteq> None) then map_option fst (c (nat (p mod int MAX_SNI))) else None)"

lemma set_sni_map:
  assumes "sni_ok c" "0 \<le> p"
  shows "\<exists>c'. set_sni p h c = Inr c' \<and> sni_ok c' \<and>
    sni_map c' = (\<lambda>q. if q = p then Some (snprintf_s 256 h) else if sni_victim c p = Some q then None else sni_map c q)"
proof -
  let ?s = "sni_slot c p [0..<MAX_SNI] None"
  have goal: ?thesis
    if "?s = int i" "i < MAX_SNI" "\<forall>j < MAX_SNI. j \<noteq> i \<longrightarrow> (\<forall>h. c j \<noteq> Some (p, h))"
      "\<And>q. q \<noteq> p \<Longrightarrow> (\<exists>g. c i = Some (q, g)) \<longleftrightarrow> sni_victim c p = Some q" for i
  proof (intro exI conjI)
    show "set_sni p h c = Inr (c(i \<mapsto> (p, snprintf_s 256 h)))" using that(1) by (simp add: set_sni_def)
    show "sni_ok (c(i \<mapsto> (p, snprintf_s 256 h)))" by (rule sni_write(1) [OF assms(1) that(2,3)])
    show "sni_map (c(i \<mapsto> (p, snprintf_s 256 h))) =
        (\<lambda>q. if q = p then Some (snprintf_s 256 h) else if sni_victim c p = Some q then None else sni_map c q)"
      by (rule ext) (simp add: sni_write(2) [OF assms(1) that(2,3)] that(4))
  qed
  show ?thesis
  proof (cases "sni_map c p")
    case (Some g)
    then have "\<exists>i \<in> set [0..<MAX_SNI]. \<exists>h. c i = Some (p, h)" using sni_find_Some [of c p "[0..<MAX_SNI]"] by (auto simp: sni_map_def)
    from sni_slot_present [OF this, of None] obtain i g' where i: "i < MAX_SNI" "c i = Some (p, g')" "?s = int i" by auto
    then have "\<forall>j < MAX_SNI. j \<noteq> i \<longrightarrow> (\<forall>h. c j \<noteq> Some (p, h))" using assms(1) unfolding sni_ok_def by blast
    then show ?thesis using goal [OF i(3,1)] Some i(2) by (auto simp: sni_victim_def)
  next
    case None
    then have no: "\<forall>i \<in> set [0..<MAX_SNI]. \<forall>h. c i \<noteq> Some (p, h)" using sni_find_None [of c p "[0..<MAX_SNI]"] by (simp add: sni_map_def)
    then have others: "\<forall>j < MAX_SNI. j \<noteq> i \<longrightarrow> (\<forall>h. c j \<noteq> Some (p, h))" for i by auto
    from sni_slot_absent [OF no assms(2), of None] consider
      (free) i where "i < MAX_SNI" "c i = None" "?s = int i" | (full) "\<forall>i < MAX_SNI. c i \<noteq> None" "?s = p mod int MAX_SNI" by auto
    then show ?thesis
    proof cases
      case free
      then have "sni_victim c p = None" by (auto simp: sni_victim_def)
      then show ?thesis using goal [OF free(3,1) others] free(2) by simp
    next
      case full
      let ?i = "nat (p mod int MAX_SNI)"
      have i: "?i < MAX_SNI" "?s = int ?i" using full(2) by (auto simp: MAX_SNI_def nat_less_iff)
      obtain q g where "c ?i = Some (q, g)" using full(1) i(1) by fastforce
      then show ?thesis using goal [OF i(2,1) others] full(1) None by (auto simp: sni_victim_def)
    qed
  qed
qed

lemma get_sni_map: "get_sni c p = (case sni_map c p of Some h \<Rightarrow> h | None \<Rightarrow> '''')"
  by (simp add: get_sni_def sni_map_def)

section \<open>Addresses\<close>

lemma word4_bytes:
  fixes a b c d :: byte
  defines "x \<equiv> ucast a OR push_bit 8 (ucast b) OR push_bit 16 (ucast c) OR push_bit 24 (ucast d) :: u32"
  shows "ucast x = a" "ucast (drop_bit 8 x) = b" "ucast (drop_bit 16 x) = c" "ucast (drop_bit 24 x) = d"
  unfolding x_def
  by (rule bit_word_eqI; auto simp: bit_simps dest: bit_imp_le_length)+

lemma mask_ff: "(0xFF :: u32) = mask 8" "(0xFF00 :: u32) = push_bit 8 (mask 8)"
  by (simp_all add: mask_eq_exp_minus_1 push_bit_eq_mult)

lemma and_ff: "x AND 0xFF = ucast (ucast x :: byte)" "x AND 0xFF00 = push_bit 8 (ucast (ucast (drop_bit 8 x) :: byte))" for x :: u32
  unfolding mask_ff by (rule bit_word_eqI; auto simp: bit_simps dest: bit_imp_le_length)+

lemma swap_bytes:
  fixes a b c d :: byte
  defines "x \<equiv> ucast a OR push_bit 8 (ucast b) OR push_bit 16 (ucast c) OR push_bit 24 (ucast d) :: u32"
  shows "push_bit 24 (x AND 0xFF) OR push_bit 8 (x AND 0xFF00) OR (drop_bit 8 x AND 0xFF00) OR (drop_bit 24 x AND 0xFF) =
      ucast d OR push_bit 8 (ucast c) OR push_bit 16 (ucast b) OR push_bit 24 (ucast a)"
proof -
  have "drop_bit 8 (drop_bit 8 x) = drop_bit 16 x" by simp
  then show ?thesis unfolding and_ff using word4_bytes [of a b c d, folded x_def] by (simp add: ac_simps)
qed

lemma htonl_word4:
  "htonl_bytes (ucast d OR push_bit 8 (ucast c) OR push_bit 16 (ucast b) OR push_bit 24 (ucast a)) = [a, b, c, d]"
  unfolding htonl_bytes_def word4_bytes ..

text \<open>The code turns the number around twice and so prints the bytes in the order they are written.\<close>

lemma v4_text_bytes:
  "v4_text [a, b, c, d] = (if a = 127 \<or> [a, b, c, d] = [0, 0, 0, 0] then None else Some (inet_ntop4 [a, b, c, d]))"
proof -
  have at: "[a, b, c, d] ! 0 = a" "[a, b, c, d] ! 1 = b" "[a, b, c, d] ! 2 = c" "[a, b, c, d] ! 3 = d" "length [a, b, c, d] = 4"
    by simp_all
  show ?thesis unfolding v4_text_def Let_def at word4_bytes swap_bytes htonl_word4 by simp
qed

lemma strtoul16_hex2: "strtoul16 (hex2 b) = (int (unat b), [])"
proof -
  have "num_of 16 (map (the \<circ> hex_val) (hex2 b)) = unat b" unfolding vals_hex2 by (simp add: num_of_def)
  then show ?thesis using strtoul16_digits [of "hex2 b"] set_hex2 unat_byte_less [of b] by (auto simp: hex2_def)
qed

lemma hex_pairs_hex2s: "hex_pairs (concat (map hex2 bs)) = Some bs"
proof (induction bs)
  case (Cons b bs)
  have "strtoul16 [udigit (unat b div 16), udigit (unat b mod 16)] = (int (unat b), [])"
    using strtoul16_hex2 [of b] by (simp add: hex2_def)
  then show ?case using Cons by (simp add: hex2_def)
qed simp

lemma length_hex2s: "length (concat (map hex2 bs)) = 2 * length bs"
  by (induction bs) (simp_all add: hex2_def)

lemma parse_hex_addr_bytes:
  assumes "length bs \<le> 16" "p \<noteq> 0"
  shows "parse_hex_addr h True (concat (map hex2 bs) @ '':'' @ kernel_port p) v6 cap =
    map_option (\<lambda>ip. snprintf_s cap (ip @ '':'' @ dec_nat (unat p))) (if v6 then v6_text bs else v4_text bs)"
proof -
  have "CHR '':'' \<notin> set (concat (map hex2 bs))" using set_hex2 by (fastforce simp: ishex_def hex_val_def isdigit_def)
  then have colon: "strchr (concat (map hex2 bs) @ '':'' @ kernel_port p) (CHR '':'') = Some (2 * length bs)"
    using strchr_append [of "CHR '':''" "concat (map hex2 bs)" "kernel_port p"] by (simp add: length_hex2s)
  define n where "n = unat p"
  have port: "strtoul16 (kernel_port p) = (int n, [])" and ne: "kernel_port p \<noteq> []"
    unfolding n_def by (rule strtoul16_kernel_port, simp add: kernel_port_def hex2_def)
  have p: "n \<le> 65535" "n \<noteq> 0" using unat_u16_less [of p] assms(2) unfolding n_def by (linarith, simp add: unat_eq_zero)
  have split: "take (2 * length bs) (concat (map hex2 bs) @ '':'' @ kernel_port p) = concat (map hex2 bs)"
    "drop (2 * length bs + 1) (concat (map hex2 bs) @ '':'' @ kernel_port p) = kernel_port p"
    using length_hex2s [of bs] by simp_all
  have int: "dec_int (int n) = dec_nat n" by (simp add: dec_int_def)
  show ?thesis unfolding parse_hex_addr_def colon option.case Let_def split port prod.case hex_pairs_hex2s length_hex2s int n_def [symmetric]
    using assms(1) p ne by (cases v6) (simp_all split: option.split)
qed

lemma kernel_ip_hex2s:
  "length ip = 4 \<Longrightarrow> kernel_ip ip = concat (map hex2 (rev ip))"
  "length ip = 16 \<Longrightarrow> kernel_ip ip = concat (map hex2 (swap_groups ip))"
proof -
  have u32: "hex_u32 w = concat (map hex2 (rev w))" if "length w = 4" for w
  proof -
    obtain a b c d where "w = [a, b, c, d]" using \<open>length w = 4\<close> by (auto simp: length_Suc_conv numeral_eq_Suc)
    then show ?thesis by (simp add: hex_u32_def)
  qed
  show "kernel_ip ip = concat (map hex2 (rev ip))" if "length ip = 4" using that u32 by (simp add: kernel_ip_def)
  assume l: "length ip = 16"
  define w x y z where "w = take 4 ip" and "x = take 4 (drop 4 ip)" and "y = take 4 (drop 8 ip)" and "z = drop 12 ip"
  have parts: "length w = 4" "length x = 4" "length y = 4" "length z = 4" using l by (simp_all add: w_def x_def y_def z_def)
  have ip: "ip = w @ x @ y @ z"
    unfolding w_def x_def y_def z_def
    using append_take_drop_id [of 4 ip] append_take_drop_id [of 4 "drop 4 ip"] append_take_drop_id [of 4 "drop 8 ip"]
    by (simp only: drop_drop) simp
  have group: "swap_groups (v @ r) = rev v @ swap_groups r" if "length v = 4" for v r
  proof -
    obtain a b c d where "v = [a, b, c, d]" using \<open>length v = 4\<close> by (auto simp: length_Suc_conv numeral_eq_Suc)
    then show ?thesis by simp
  qed
  have "swap_groups ip = rev w @ rev x @ rev y @ rev z"
    unfolding ip group [OF parts(1)] group [OF parts(2)] group [OF parts(3)] using group [OF parts(4), of "[]"] by simp
  then show "kernel_ip ip = concat (map hex2 (swap_groups ip))"
    using l u32 parts unfolding w_def x_def y_def z_def by (simp add: kernel_ip_def)
qed

lemma swap_groups_twice: "length bs mod 4 = 0 \<Longrightarrow> swap_groups (swap_groups bs) = bs"
  by (induction bs rule: swap_groups.induct) auto

lemma length_swap_groups [simp]: "length (swap_groups bs) = length bs"
  by (induction bs rule: swap_groups.induct) auto

text \<open>Addresses the tracer skips: IPv6 loopback, link-local and unspecified; and the IPv4 texts it
  takes for such.\<close>

definition skipped6 :: "byte list \<Rightarrow> bool" where
  "skipped6 ip \<longleftrightarrow> ip = replicate 15 0 @ [1] \<or> (ip ! 0 = 0xFE \<and> ip ! 1 AND 0xC0 = 0x80) \<or> ip = replicate 16 0"

lemma remote6_text:
  assumes "length ip = 16" "p \<noteq> 0"
  shows "parse_hex_addr h True (kernel_ip ip @ '':'' @ kernel_port p) True cap =
    (if skipped6 ip then None else Some (snprintf_s cap (inet_ntop6 ip @ '':'' @ dec_nat (unat p))))"
  using parse_hex_addr_bytes [of "swap_groups ip" p h True cap] swap_groups_twice [of ip] assms
  by (simp add: kernel_ip_hex2s v6_text_def skipped6_def Let_def)

lemma remote4_text:
  assumes "length ip = 4" "p \<noteq> 0"
  shows "parse_hex_addr h True (kernel_ip ip @ '':'' @ kernel_port p) False cap =
    (if ip ! 3 = 127 \<or> ip = [0, 0, 0, 0] then None else Some (snprintf_s cap (inet_ntop4 (rev ip) @ '':'' @ dec_nat (unat p))))"
proof -
  obtain a b c d where ip: "ip = [a, b, c, d]" using assms(1) by (auto simp: length_Suc_conv numeral_eq_Suc)
  then have "v4_text (rev ip) = (if ip ! 3 = 127 \<or> ip = [0, 0, 0, 0] then None else Some (inet_ntop4 (rev ip)))"
    by (auto simp: v4_text_bytes)
  then show ?thesis using parse_hex_addr_bytes [of "rev ip" p h False cap] assms by (simp add: kernel_ip_hex2s)
qed

section \<open>Claims\<close>

text \<open>
  The remote address of an IPv6 connection is read back from the kernel's table: for every address
  and port the text is that of the address, except for loopback, link-local and unspecified addresses,
  which are skipped.
\<close>

theorem remote6_read_back:
  assumes "length ip = 16" "p \<noteq> 0"
  shows "parse_hex_addr h True (kernel_ip ip @ '':'' @ kernel_port p) True 300 =
    (if skipped6 ip then None else Some (inet_ntop6 ip @ '':'' @ dec_nat (unat p)))"
proof -
  have "length (dec_nat (unat p)) \<le> 5" using length_dec_nat [of "unat p" 4] unat_u16_less [of p] by simp
  then show ?thesis using remote6_text [OF assms, of h 300] length_inet_ntop6 [of ip] by simp
qed

definition sample_tls_host :: tls_host where
  "sample_tls_host = \<lparr>t_maps = (\<lambda>_. None), t_exists = (\<lambda>_. False), t_real = (\<lambda>_. None), t_net = (\<lambda>_ _. None), t_rdns = (\<lambda>_ _. None),
     t_local = (\<lambda>s. (nat (s div 3600 mod 24), nat (s div 60 mod 60), nat (s mod 60)))\<rparr>"

theorem remote6_read_back_witness:
  "parse_hex_addr sample_tls_host True (kernel_ip [0x20, 1, 0xd, 0xb8, 0, 0, 0, 0, 0, 0, 0, 0, 0, 0, 0, 9] @ '':'' @ kernel_port 443) True 300 =
    Some (inet_ntop6 [0x20, 1, 0xd, 0xb8, 0, 0, 0, 0, 0, 0, 0, 0, 0, 0, 0, 9] @ '':'' @ dec_nat 443)"
proof -
  let ?ip = "[0x20, 1, 0xd, 0xb8, 0, 0, 0, 0, 0, 0, 0, 0, 0, 0, 0, 9] :: byte list"
  have "?ip ! 0 \<noteq> 0" "?ip ! 0 \<noteq> 0xFE" "(replicate 15 0 @ [1] :: byte list) ! 0 = 0" "(replicate 16 0 :: byte list) ! 0 = 0"
    by (simp_all add: nth_append)
  then have "\<not> skipped6 ?ip" unfolding skipped6_def by metis
  then show ?thesis using remote6_read_back [of ?ip 443 sample_tls_host] by simp
qed

text \<open>
  The remote address of an IPv4 connection is printed with its bytes in the reverse order: for every
  address the reader of the \<^verbatim>\<open>net\<close> tracer reads back from the same text, this one prints the mirrored
  one. So loopback connections are not skipped, and addresses that end in 127 are.
\<close>

theorem remote4_reversed:
  assumes "length ip = 4" "p \<noteq> 0"
  shows "parse_hex_addr h True (kernel_ip ip @ '':'' @ kernel_port p) False 300 =
    (if ip ! 3 = 127 \<or> ip = [0, 0, 0, 0] then None else Some (inet_ntop4 (rev ip) @ '':'' @ dec_nat (unat p))) \<and>
    parse_hex_ipv4 (kernel_ip ip) = Some ip"
proof -
  have "length (dec_nat (unat p)) \<le> 5" using length_dec_nat [of "unat p" 4] unat_u16_less [of p] by simp
  then show ?thesis using remote4_text [OF assms, of h 300] length_inet_ntop4 [of "rev ip"] parse_hex_ipv4_kernel [OF assms(1)] by simp
qed

theorem remote4_reversed_witness:
  "parse_hex_addr sample_tls_host True (kernel_ip [127, 0, 0, 1] @ '':'' @ kernel_port 443) False 300 = Some ''1.0.0.127:443''"
proof -
  have "inet_ntop4 [1, 0, 0, 127] @ '':'' @ dec_nat 443 = ''1.0.0.127:443''" by code_simp
  then show ?thesis using remote4_reversed [of "[127, 0, 0, 1]" 443 sample_tls_host] by simp
qed

text \<open>
  C36. The cache of server names is a map from processes to names that forgets at most one process: a
  name that is stored is the one that is found, the names of all other processes stay, and only when
  all 1024 slots hold other processes the one in the slot of the new number is dropped.
\<close>

theorem sni_cache_map:
  assumes "sni_ok c" "0 \<le> p"
  shows "\<exists>c'. set_sni p h c = Inr c' \<and> sni_ok c' \<and> get_sni c' p = snprintf_s 256 h \<and>
    (\<forall>q. q \<noteq> p \<longrightarrow> sni_victim c p \<noteq> Some q \<longrightarrow> get_sni c' q = get_sni c q) \<and>
    (\<forall>i < MAX_SNI. c i = None \<longrightarrow> sni_victim c p = None)"
proof -
  obtain c' where c': "set_sni p h c = Inr c'" "sni_ok c'"
    "sni_map c' = (\<lambda>q. if q = p then Some (snprintf_s 256 h) else if sni_victim c p = Some q then None else sni_map c q)"
    using set_sni_map [OF assms, of h] by blast
  moreover have "\<forall>i < MAX_SNI. c i = None \<longrightarrow> sni_victim c p = None" unfolding sni_victim_def by auto
  ultimately show ?thesis by (intro exI [of _ c']) (simp add: get_sni_map)
qed

theorem sni_cache_map_witness:
  "\<exists>c'. set_sni 7 ''example.org'' (\<lambda>_. None) = Inr c' \<and> get_sni c' 7 = ''example.org'' \<and> get_sni c' 8 = ''''"
proof -
  have "sni_ok (\<lambda>_. None)" by (simp add: sni_ok_def)
  then obtain c' where c': "set_sni 7 ''example.org'' (\<lambda>_. None) = Inr c'" "get_sni c' 7 = snprintf_s 256 ''example.org''"
    "\<forall>q. q \<noteq> 7 \<longrightarrow> sni_victim (\<lambda>_. None) 7 \<noteq> Some q \<longrightarrow> get_sni c' q = get_sni (\<lambda>_. None) q"
    using sni_cache_map [of "\<lambda>_. None" 7 "''example.org''"] by auto
  moreover have "sni_victim (\<lambda>_. None) 7 = None" by (simp add: sni_victim_def)
  moreover have "get_sni (\<lambda>_. None) q = ''''" for q
    using sni_find_None [of "\<lambda>_. None" q] by (auto simp: get_sni_def split: option.split)
  ultimately show ?thesis by auto
qed

end
