(* ===== verification/Regex.thy ===== *)
theory Regex
  imports CLib
begin

text \<open>
  \<^verbatim>\<open>regexec\<close> of the C library for the patterns \<^verbatim>\<open>src/c/tls.c\<close> compiles: concatenations of classes,
  repeated classes, alternatives, optional groups and the end of the line, without nested repetition.
  The match POSIX prescribes is the leftmost, of these the longest, and of these the one whose parts
  are, from left to right, as long as possible; the result is the list of the texts of the parts, from
  which the capturing groups are taken.
\<close>

section \<open>Definitions\<close>

datatype rx =
    Cls "char \<Rightarrow> bool"
  | Many "char \<Rightarrow> bool"     \<comment> \<open>\<^verbatim>\<open>*\<close> of a class\<close>
  | Many1 "char \<Rightarrow> bool"    \<comment> \<open>\<^verbatim>\<open>+\<close> of a class\<close>
  | Lit string              \<comment> \<open>literal characters\<close>
  | Cat rx rx
  | Either rx rx
  | Maybe rx
  | Eol

text \<open>The class \<^verbatim>\<open>[[:alnum:]_]\<close>.\<close>

definition wordc :: "char \<Rightarrow> bool" where
  "wordc c \<longleftrightarrow> isdigit c \<or> (65 \<le> (of_char c :: nat) \<and> (of_char c :: nat) \<le> 90) \<or>
     (97 \<le> (of_char c :: nat) \<and> (of_char c :: nat) \<le> 122) \<or> c = CHR ''_''"

text \<open>Whether the whole of \<open>s\<close> matches; \<open>e\<close> says that the line ends behind \<open>s\<close>.\<close>

fun rx_match :: "rx \<Rightarrow> string \<Rightarrow> bool \<Rightarrow> bool" where
  "rx_match (Cls P) s e = (length s = 1 \<and> list_all P s)"
| "rx_match (Many P) s e = list_all P s"
| "rx_match (Many1 P) s e = (s \<noteq> '''' \<and> list_all P s)"
| "rx_match (Lit w) s e = (s = w)"
| "rx_match (Cat a b) s e =
     list_ex (\<lambda>n. rx_match a (take n s) (e \<and> n = length s) \<and> rx_match b (drop n s) e) [0..<Suc (length s)]"
| "rx_match (Either a b) s e = (rx_match a s e \<or> rx_match b s e)"
| "rx_match (Maybe a) s e = (s = '''' \<or> rx_match a s e)"
| "rx_match Eol s e = (s = '''' \<and> e)"

fun first_some :: "('a \<Rightarrow> 'b option) \<Rightarrow> 'a list \<Rightarrow> 'b option" where
  "first_some f [] = None"
| "first_some f (x # xs) = (case f x of Some y \<Rightarrow> Some y | None \<Rightarrow> first_some f xs)"

text \<open>The parts of a match of the whole of \<open>u\<close>, each as long as possible.\<close>

fun rx_split :: "rx list \<Rightarrow> string \<Rightarrow> bool \<Rightarrow> string list option" where
  "rx_split [] u e = (if u = '''' then Some [] else None)"
| "rx_split (r # rs) u e =
     first_some (\<lambda>n. if rx_match r (take n u) (e \<and> n = length u) then map_option (Cons (take n u)) (rx_split rs (drop n u) e) else None)
       (rev [0..<Suc (length u)])"

definition rx_at :: "rx list \<Rightarrow> string \<Rightarrow> string list option" where
  "rx_at rs s = first_some (\<lambda>n. rx_split rs (take n s) (n = length s)) (rev [0..<Suc (length s)])"

text \<open>A pattern that begins with \<^verbatim>\<open>^\<close> matches at the beginning of the line only.\<close>

definition regexec :: "bool \<Rightarrow> rx list \<Rightarrow> string \<Rightarrow> string list option" where
  "regexec anchored rs s = (if anchored then rx_at rs s else first_some (\<lambda>i. rx_at rs (drop i s)) [0..<Suc (length s)])"

section \<open>Soundness, completeness and maximality\<close>

fun rx_parts :: "rx list \<Rightarrow> string list \<Rightarrow> bool \<Rightarrow> bool" where
  "rx_parts [] [] e = True"
| "rx_parts (r # rs) (w # ws) e = (rx_match r w (e \<and> concat ws = '''') \<and> rx_parts rs ws e)"
| "rx_parts _ _ e = False"

lemma first_some_Some: "first_some f xs = Some y \<Longrightarrow> \<exists>x \<in> set xs. f x = Some y"
  by (induction xs) (auto split: option.splits)

lemma first_some_None: "first_some f xs = None \<longleftrightarrow> (\<forall>x \<in> set xs. f x = None)"
  by (induction xs) (auto split: option.splits)

text \<open>Counting down, the first index with a result is the largest.\<close>

lemma first_some_rev:
  "first_some f (rev [0..<Suc m]) = Some y \<Longrightarrow> \<exists>n \<le> m. f n = Some y \<and> (\<forall>k. n < k \<longrightarrow> k \<le> m \<longrightarrow> f k = None)"
proof (induction m)
  case (Suc m)
  show ?case
  proof (cases "f (Suc m)")
    case None
    then obtain n where "n \<le> m" "f n = Some y" "\<forall>k. n < k \<longrightarrow> k \<le> m \<longrightarrow> f k = None"
      using Suc by (auto split: option.splits)
    then show ?thesis using None by (intro exI [of _ n]) (auto simp: le_Suc_eq)
  next
    case (Some z)
    then show ?thesis using Suc.prems by (intro exI [of _ "Suc m"]) auto
  qed
qed (auto split: option.splits)

lemma rx_split_sound: "rx_split rs u e = Some ws \<Longrightarrow> concat ws = u \<and> rx_parts rs ws e"
proof (induction rs arbitrary: u ws)
  case (Cons r rs)
  then obtain n vs where n: "n \<le> length u" "rx_match r (take n u) (e \<and> n = length u)" "rx_split rs (drop n u) e = Some vs"
    "ws = take n u # vs"
    by (auto dest!: first_some_Some simp: less_Suc_eq_le simp del: upt_Suc split: if_splits)
  then have "concat vs = drop n u" "rx_parts rs vs e" using Cons.IH by auto
  moreover have "(n = length u) = (drop n u = '''')" using n(1) by auto
  ultimately show ?case using n by simp
qed (simp split: if_splits)

lemma rx_split_complete: "rx_parts rs ws e \<Longrightarrow> rx_split rs (concat ws) e \<noteq> None"
proof (induction rs ws e rule: rx_parts.induct)
  case (2 r rs w ws e)
  have "(length w = length (w @ concat ws)) = (concat ws = '''')" by auto
  moreover have "take (length w) (w @ concat ws) = w" by simp
  ultimately have "rx_match r (take (length w) (w @ concat ws)) (e \<and> length w = length (w @ concat ws))"
    using 2 by (simp only: rx_parts.simps)
  moreover have "rx_split rs (drop (length w) (w @ concat ws)) e \<noteq> None" using 2 by simp
  moreover have "length w \<in> set (rev [0..<Suc (length (w @ concat ws))])" by auto
  ultimately show ?case unfolding rx_split.simps first_some_None concat.simps by (auto simp del: upt_Suc intro!: bexI [of _ "length w"])
qed simp_all

lemma rx_split_longest:
  assumes "rx_split (r # rs) u e = Some (w # ws)" "rx_parts (r # rs) (w' # ws') e" "w' @ concat ws' = u"
  shows "length w' \<le> length w"
proof (rule ccontr)
  assume longer: "\<not> length w' \<le> length w"
  obtain n where n: "n \<le> length u" "take n u = w" "\<forall>k. n < k \<longrightarrow> k \<le> length u \<longrightarrow>
      (if rx_match r (take k u) (e \<and> k = length u) then map_option (Cons (take k u)) (rx_split rs (drop k u) e) else None) = None"
    using assms(1) first_some_rev [of _ "length u" "w # ws"] by (fastforce simp del: upt_Suc split: if_splits)
  have "n < length w'" "length w' \<le> length u" "take (length w') u = w'" "drop (length w') u = concat ws'"
    using longer n(1,2) assms(3) by auto
  moreover have "(length w' = length u) = (concat ws' = '''')" using assms(3) by auto
  ultimately have "rx_split rs (concat ws') e = None" using n(3) [rule_format, of "length w'"] assms(2) by (simp split: if_splits)
  then show False using rx_split_complete [of rs ws' e] assms(2) by simp
qed

lemma rx_at_sound:
  assumes "rx_at rs s = Some ws"
  shows "\<exists>t. s = concat ws @ t \<and> rx_parts rs ws (t = '''')"
proof -
  obtain n where n: "n \<le> length s" "rx_split rs (take n s) (n = length s) = Some ws"
    using first_some_rev [of _ "length s" ws] assms unfolding rx_at_def by blast
  have "(n = length s) = (drop n s = '''')" using n(1) by auto
  then show ?thesis using rx_split_sound [OF n(2)] by (intro exI [of _ "drop n s"]) auto
qed

lemma rx_at_complete: "rx_parts rs ws (t = '''') \<Longrightarrow> \<exists>vs. rx_at rs (concat ws @ t) = Some vs"
proof -
  assume m: "rx_parts rs ws (t = '''')"
  have "(length (concat ws) = length (concat ws @ t)) = (t = '''')" by simp
  then have "rx_split rs (take (length (concat ws)) (concat ws @ t)) (length (concat ws) = length (concat ws @ t)) \<noteq> None"
    using rx_split_complete [OF m] by simp
  then have "rx_at rs (concat ws @ t) \<noteq> None" unfolding rx_at_def first_some_None
    by (auto simp del: upt_Suc intro!: bexI [of _ "length (concat ws)"])
  then show ?thesis by blast
qed

lemma rx_at_longest:
  assumes "rx_at rs s = Some ws" "s = concat ws' @ t'" "rx_parts rs ws' (t' = '''')"
  shows "length (concat ws') \<le> length (concat ws)"
proof (rule ccontr)
  assume longer: "\<not> length (concat ws') \<le> length (concat ws)"
  obtain n where n: "n \<le> length s" "rx_split rs (take n s) (n = length s) = Some ws"
    "\<forall>k. n < k \<longrightarrow> k \<le> length s \<longrightarrow> rx_split rs (take k s) (k = length s) = None"
    using first_some_rev [of _ "length s" ws] assms(1) unfolding rx_at_def by blast
  have "concat ws = take n s" using rx_split_sound [OF n(2)] by simp
  then have "n < length (concat ws')" using longer n(1) by auto
  moreover have "(length (concat ws') = length s) = (t' = '''')" using assms(2) by simp
  ultimately have "rx_split rs (concat ws') (t' = '''') = None" using n(3) [rule_format, of "length (concat ws')"] assms(2) by simp
  then show False using rx_split_complete [OF assms(3)] by simp
qed

text \<open>A match whose parts are determined by the text they cover is the match.\<close>

lemma rx_at_eq:
  assumes "rx_parts rs ws (t = '''')"
    and "\<And>vs t'. concat vs @ t' = concat ws @ t \<Longrightarrow> rx_parts rs vs (t' = '''') \<Longrightarrow> length (concat ws) \<le> length (concat vs) \<Longrightarrow> vs = ws"
  shows "rx_at rs (concat ws @ t) = Some ws"
proof -
  obtain vs where vs: "rx_at rs (concat ws @ t) = Some vs" using rx_at_complete [OF assms(1)] by blast
  then obtain t' where "concat ws @ t = concat vs @ t'" "rx_parts rs vs (t' = '''')" using rx_at_sound by metis
  moreover have "length (concat ws) \<le> length (concat vs)" using rx_at_longest [OF vs refl assms(1)] .
  ultimately show ?thesis using assms(2) [of vs t'] vs by simp
qed

lemma rx_parts_Cons: "rx_parts (r # rs) vs e \<longleftrightarrow> (\<exists>w ws. vs = w # ws \<and> rx_match r w (e \<and> concat ws = '''') \<and> rx_parts rs ws e)"
  by (cases vs) auto

lemma rx_parts_Nil: "rx_parts [] vs e \<longleftrightarrow> vs = []"
  by (cases vs) auto

lemma rx_match_Cat: "rx_match (Cat a b) s e \<longleftrightarrow> (\<exists>u v. s = u @ v \<and> rx_match a u (e \<and> v = '''') \<and> rx_match b v e)"
proof
  assume "rx_match (Cat a b) s e"
  then obtain n where n: "n \<le> length s" "rx_match a (take n s) (e \<and> n = length s)" "rx_match b (drop n s) e"
    by (auto simp: list_ex_iff less_Suc_eq_le simp del: upt_Suc)
  moreover have "(n = length s) = (drop n s = '''')" using n(1) by auto
  ultimately show "\<exists>u v. s = u @ v \<and> rx_match a u (e \<and> v = '''') \<and> rx_match b v e"
    by (intro exI [of _ "take n s"] exI [of _ "drop n s"]) auto
next
  assume "\<exists>u v. s = u @ v \<and> rx_match a u (e \<and> v = '''') \<and> rx_match b v e"
  then obtain u v where s: "s = u @ v" "rx_match a u (e \<and> v = '''')" "rx_match b v e" by blast
  have "(length u = length s) = (v = '''')" using s(1) by simp
  then show "rx_match (Cat a b) s e" using s
    by (auto simp: list_ex_iff simp del: upt_Suc intro!: bexI [of _ "length u"])
qed

section \<open>Splitting a text in one way only\<close>

lemma span_unique:
  assumes "a @ x = b @ y" "\<forall>c \<in> set a. P c" "\<forall>c \<in> set b. P c" "x \<noteq> [] \<Longrightarrow> \<not> P (hd x)" "y \<noteq> [] \<Longrightarrow> \<not> P (hd y)"
  shows "a = b \<and> x = y"
proof -
  have tw: "takeWhile P (a @ x) = a" using assms(2,4) by (cases x) auto
  have "takeWhile P (b @ y) = b" using assms(3,5) by (cases y) auto
  then show ?thesis using tw assms(1) by simp
qed

lemma takeWhile_not: "x \<notin> set l \<Longrightarrow> takeWhile (\<lambda>c. c \<noteq> x) (l @ x # s) = l"
  by (induction l) auto

lemma wordc_plain: "wordc c \<Longrightarrow> \<not> isspace c \<and> c \<noteq> CHR ''*'' \<and> c \<noteq> CHR 0x0A"
  by (auto simp: wordc_def isdigit_def isspace_def)

end
