(* ===== verification/Tls_Events.thy ===== *)
theory Tls_Events
  imports Tls_Host Regex Seen_Set Double Common
begin

text \<open>
  The events of the TLS tracer (\<^verbatim>\<open>src/c/tls.c\<close>): a line of the kernel's trace pipe is parsed with two
  regular expressions, a server name is remembered for its process, and of the reads and writes the
  first for every pair of process and host is printed.
\<close>

section \<open>Definitions\<close>

subsection \<open>Trace lines\<close>

definition trace_re :: "rx list" where
  "trace_re =
     [Many isspace, Many1 (\<lambda>c. \<not> isspace c), Lit ''-'', Many1 isdigit, Many1 isspace,
      Maybe (Cat (Lit ''('') (Cat (Many1 (\<lambda>c. \<not> isspace c)) (Cat (Lit '')'') (Many1 isspace)))),
      Lit ''['', Many1 isdigit, Lit '']'', Many (\<lambda>_. True), Many1 isspace, Many1 (\<lambda>c. isdigit c \<or> c = CHR ''.''), Lit '':'',
      Many1 isspace, Lit ''tls_'', Many1 wordc]"

definition sni_re :: "rx list" where
  "sni_re = [Either (Lit ''arg1'') (Lit ''sni''), Lit (''='' @ [CHR 0x22]), Many (\<lambda>c. c \<noteq> CHR 0x22), Lit [CHR 0x22]]"

record tls_event =
  ev_comm :: string
  ev_pid :: int
  ev_ts :: "nat \<times> nat"
  ev_probe :: string
  ev_dir :: string
  ev_sni :: string

text \<open>\<^verbatim>\<open>strtod\<close> of a text of digits and dots.\<close>

definition strtod_dots :: "string \<Rightarrow> nat \<times> nat" where
  "strtod_dots s =
     (let a = takeWhile isdigit s; r = dropWhile isdigit s;
          f = (if r \<noteq> '''' \<and> hd r = CHR ''.'' then takeWhile isdigit (tl r) else '''')
      in dbl (num_of 10 (map dec_val (a @ f)), 10 ^ length f))"

definition dir_of :: "string \<Rightarrow> string" where
  "dir_of probe =
     (if strstr probe ''_sni'' \<noteq> None then ''sni'' else if strstr probe ''_read'' \<noteq> None then ''read''
      else if strstr probe ''_write'' \<noteq> None then ''write'' else ''?'')"

definition parse_line :: "string \<Rightarrow> tls_event option" where
  "parse_line line =
     (case regexec True trace_re line of None \<Rightarrow> None
      | Some ws \<Rightarrow>
          let probe = take 63 (ws ! 14 @ ws ! 15);
              dir = dir_of probe;
              sni = (if strstr probe ''_sni'' \<noteq> None
                     then (case regexec False sni_re line of None \<Rightarrow> '''' | Some us \<Rightarrow> take 255 (us ! 2)) else '''')
          in Some \<lparr>ev_comm = take 255 (ws ! 1), ev_pid = atoi (take 31 (ws ! 3)), ev_ts = strtod_dots (take 31 (ws ! 11)),
                   ev_probe = probe, ev_dir = dir, ev_sni = sni\<rparr>)"

definition tls_is_watched :: "int list \<Rightarrow> int \<Rightarrow> bool" where
  "tls_is_watched watch p \<longleftrightarrow> watch = [] \<or> p \<in> set watch"

subsection \<open>The pairs already reported\<close>

definition MAX_CONN :: nat where "MAX_CONN = 4096"

type_synonym conn_seen = "nat \<Rightarrow> string option"

definition conn_hash :: "string \<Rightarrow> u32" where
  "conn_hash k = foldl (\<lambda>h c. h * 33 + ucast (ord8 c)) 5381 k"

definition conn_ix :: "string \<Rightarrow> nat \<Rightarrow> nat" where
  "conn_ix k i = (unat (conn_hash k mod 4096) + i) mod MAX_CONN"

definition conn_mark :: "string \<Rightarrow> conn_seen \<Rightarrow> bool \<times> conn_seen" where
  "conn_mark k t =
     (case for_first (\<lambda>i. t (conn_ix k i) = None \<or> t (conn_ix k i) = Some k) MAX_CONN 0 of
        None \<Rightarrow> (False, t)
      | Some i \<Rightarrow> (case t (conn_ix k i) of
          None \<Rightarrow> (False, t(conn_ix k i := Some (snprintf_s 320 k)))
        | Some _ \<Rightarrow> (True, t)))"

subsection \<open>Printing\<close>

definition str_trim_prefix :: "string \<Rightarrow> string \<Rightarrow> string" where
  "str_trim_prefix s pfx = (if prefix pfx s then drop (length pfx) s else s)"

text \<open>The time of an event. A value that does not fit \<^verbatim>\<open>long long\<close> has no defined conversion. The
  time stamp is never negative (its text has no sign), so the correction of a negative remainder
  does not apply.\<close>

definition event_time :: "tls_host \<Rightarrow> nat \<times> nat \<Rightarrow> string outcome" where
  "event_time h x =
     (let tsf = dbl (fst x * 1000000000, snd x); nanos = fst tsf div snd tsf; sec = nanos div 1000000000;
          msec = nanos mod 1000000000 div 1000000; (hh, mm, ss) = t_local h (int sec)
      in if nanos \<ge> 2 ^ 63 then Inl SignedOverflow
         else Inr (snprintf_s 16 (zero_pad 2 (dec_nat hh) @ '':'' @ zero_pad 2 (dec_nat mm) @ '':'' @ zero_pad 2 (dec_nat ss)
           @ ''.'' @ zero_pad 3 (dec_nat msec))))"

definition event_sym :: "string \<Rightarrow> string" where
  "event_sym probe =
     (let s = snprintf_s 64 (str_trim_prefix (str_trim_prefix probe ''tls_read_'') ''tls_write_'')
      in if length s \<ge> 4 \<and> drop (length s - 4) s = ''_ret'' then take (length s - 4) s else s)"

definition event_text :: "bool \<Rightarrow> tls_event \<Rightarrow> string \<Rightarrow> string \<Rightarrow> string" where
  "event_text cm ev host ts =
     (let (dir_str, dir_clr) = (if ev_dir ev = ''write'' then (''TX'', ''33'') else (''RX'', ''36''));
          host_s = (if host \<noteq> '''' then snprintf_s 512 (''  '' @ clr cm ''35'' (Some host)) else '''')
      in clr cm ''2'' (Some ts) @ '' '' @ clr cm ''33'' (Some (snprintf_s 16 (dec_int (ev_pid ev)))) @ '' ''
         @ clr cm ''96'' (Some (ev_comm ev)) @ '' '' @ clr cm dir_clr (Some dir_str) @ '' '' @ clr cm ''2'' (Some (event_sym (ev_probe ev)))
         @ host_s @ NL)"

record tls_cfg =
  tc_color :: bool
  tc_no_rdns :: bool
  tc_watch :: "int list"

record tls_st =
  ts_sni :: sni_cache
  ts_conn :: conn_seen
  ts_count :: nat
  ts_out :: string

definition conn_key :: "int \<Rightarrow> string \<Rightarrow> string" where
  "conn_key p host = snprintf_s 320 (dec_int p @ ''|'' @ host)"

definition tls_print_event :: "tls_cfg \<Rightarrow> tls_host \<Rightarrow> tls_event \<Rightarrow> tls_st \<Rightarrow> tls_st outcome" where
  "tls_print_event cfg h ev st =
     (if ev_dir ev = ''sni'' then
        (if ev_sni ev \<noteq> '''' then and_then (set_sni (ev_pid ev) (ev_sni ev) (ts_sni st)) (\<lambda>c. Inr (st\<lparr>ts_sni := c\<rparr>)) else Inr st)
      else
        let host = remote_host h (tc_no_rdns cfg) (ts_sni st) (ev_pid ev) 300;
            (old, t) = conn_mark (conn_key (ev_pid ev) host) (ts_conn st)
        in if old then Inr (st\<lparr>ts_conn := t\<rparr>)
           else and_then (event_time h (ev_ts ev)) (\<lambda>ts.
             Inr (st\<lparr>ts_conn := t, ts_count := ts_count st + 1, ts_out := ts_out st @ event_text (tc_color cfg) ev host ts\<rparr>)))"

text \<open>The body of the loop over the trace pipe, and the loop; the system may answer differently at
  every line.\<close>

definition tls_line :: "tls_cfg \<Rightarrow> tls_host \<Rightarrow> string \<Rightarrow> tls_st \<Rightarrow> tls_st outcome" where
  "tls_line cfg h line st =
     (case parse_line line of None \<Rightarrow> Inr st
      | Some ev \<Rightarrow> if \<not> tls_is_watched (tc_watch cfg) (ev_pid ev) then Inr st else tls_print_event cfg h ev st)"

fun tls_lines :: "tls_cfg \<Rightarrow> (tls_host \<times> string) list \<Rightarrow> tls_st \<Rightarrow> tls_st outcome" where
  "tls_lines cfg [] st = Inr st"
| "tls_lines cfg ((h, line) # xs) st = and_then (tls_line cfg h line st) (tls_lines cfg xs)"

section \<open>The pairs already reported\<close>

definition pair_fits :: "int \<times> string \<Rightarrow> bool" where
  "pair_fits x \<longleftrightarrow> \<bar>fst x\<bar> \<le> 2147483648 \<and> length (snd x) < 300"

abbreviation pair_key :: "int \<times> string \<Rightarrow> string" where
  "pair_key x \<equiv> conn_key (fst x) (snd x)"

lemma conn_key_fits: "pair_fits x \<Longrightarrow> pair_key x = dec_int (fst x) @ ''|'' @ snd x \<and> length (pair_key x) < 320"
  using length_dec_int [of "fst x" 9] by (auto simp: pair_fits_def conn_key_def)

lemma conn_key_inj: "pair_fits x \<Longrightarrow> pair_fits z \<Longrightarrow> pair_key x = pair_key z \<longleftrightarrow> x = z"
proof
  assume f: "pair_fits x" "pair_fits z" and "pair_key x = pair_key z"
  then have "dec_int (fst x) @ CHR ''|'' # snd x = dec_int (fst z) @ CHR ''|'' # snd z" using conn_key_fits by simp
  from split_at [OF this] show "x = z" by (simp add: no_sep_dec_int dec_int_inj prod_eq_iff)
qed simp

definition pairs_seen :: "conn_seen \<Rightarrow> (int \<times> string) set" where
  "pairs_seen t = {x. pair_fits x \<and> pair_key x \<in> slots_set MAX_CONN t}"

definition conn_ok :: "conn_seen \<Rightarrow> bool" where
  "conn_ok t \<longleftrightarrow> slots_ok MAX_CONN conn_ix t \<and> slots_set MAX_CONN t \<subseteq> pair_key ` {x. pair_fits x}"

lemma conn_ix_less: "conn_ix k j < MAX_CONN"
  by (simp add: conn_ix_def MAX_CONN_def)

lemma conn_ix_all: "i < MAX_CONN \<Longrightarrow> \<exists>j < MAX_CONN. conn_ix k j = i"
proof -
  assume i: "i < MAX_CONN"
  let ?a = "unat (conn_hash k mod 4096)"
  have a: "?a < MAX_CONN" by (simp add: MAX_CONN_def unat_mod)
  have "(?a + (i + MAX_CONN - ?a) mod MAX_CONN) mod MAX_CONN = (?a + (i + MAX_CONN - ?a)) mod MAX_CONN" by (simp add: mod_simps)
  also have "\<dots> = i" using a i by simp
  finally show ?thesis unfolding conn_ix_def by (intro exI [of _ "(i + MAX_CONN - ?a) mod MAX_CONN"]) (simp add: MAX_CONN_def)
qed

interpretation conn_slots: open_set MAX_CONN conn_ix
  by unfold_locales (simp add: MAX_CONN_def, rule conn_ix_less, rule conn_ix_all)

lemma slots_pairs: "conn_ok t \<Longrightarrow> slots_set MAX_CONN t = pair_key ` pairs_seen t"
  by (auto simp: conn_ok_def pairs_seen_def)

lemma pair_inj: "inj_on pair_key (pairs_seen t)"
  by (rule inj_onI) (simp add: pairs_seen_def conn_key_inj)

lemma pairs_finite: "conn_ok t \<Longrightarrow> finite (pairs_seen t)"
  using conn_slots.slots_finite [of t] finite_imageD [OF _ pair_inj] by (simp add: slots_pairs)

lemma pairs_room: "conn_ok t \<Longrightarrow> card (pairs_seen t) < MAX_CONN \<Longrightarrow> \<not> slots_full MAX_CONN t"
  using conn_slots.full_card [of t] card_image [OF pair_inj, of t] slots_pairs [of t] unfolding conn_ok_def by force

lemma mark_present:
  assumes "conn_ok t" "x \<in> pairs_seen t"
  shows "conn_mark (pair_key x) t = (True, t)"
  using conn_slots.search_present [of t "pair_key x"] assms by (auto simp: conn_mark_def conn_ok_def pairs_seen_def)

lemma mark_absent:
  assumes "conn_ok t" "card (pairs_seen t) < MAX_CONN" "pair_fits x" "x \<notin> pairs_seen t"
  shows "\<exists>t'. conn_mark (pair_key x) t = (False, t') \<and> conn_ok t' \<and> pairs_seen t' = insert x (pairs_seen t)"
proof -
  let ?k = "pair_key x"
  have "slots_ok MAX_CONN conn_ix t" "?k \<notin> slots_set MAX_CONN t" using assms by (simp_all add: conn_ok_def pairs_seen_def)
  from conn_slots.search_new [OF this pairs_room [OF assms(1,2)]] obtain j where
    j: "for_first (\<lambda>j. t (conn_ix ?k j) = None \<or> t (conn_ix ?k j) = Some ?k) MAX_CONN 0 = Some j" "t (conn_ix ?k j) = None"
    "slots_ok MAX_CONN conn_ix (t(conn_ix ?k j := Some ?k))"
    "slots_set MAX_CONN (t(conn_ix ?k j := Some ?k)) = insert ?k (slots_set MAX_CONN t)" by blast
  let ?t = "t(conn_ix ?k j := Some ?k)"
  have "snprintf_s 320 ?k = ?k" using conn_key_fits [OF assms(3)] by (metis snprintf_s_fits)
  then have "conn_mark ?k t = (False, ?t)" using j(1,2) by (simp add: conn_mark_def)
  moreover have "conn_ok ?t" using j(3,4) assms(1,3) by (simp add: conn_ok_def)
  moreover have "pairs_seen ?t = insert x (pairs_seen t)"
    unfolding pairs_seen_def j(4) using assms(3) conn_key_inj by blast
  ultimately show ?thesis by blast
qed

interpretation conns: once conn_ok pairs_seen "\<lambda>x. conn_mark (pair_key x)" pair_fits MAX_CONN
  by unfold_locales (rule pairs_finite mark_present mark_absent; assumption)+

section \<open>The loop\<close>

lemma remote_lines_length: "0 < cap \<Longrightarrow> remote_in_lines h nr ls v6 cap = Some a \<Longrightarrow> length a < cap"
proof (induction ls)
  case (Cons line ls)
  have "length a < cap" if "parse_hex_addr h nr x v6 cap = Some a" for x
    using that snprintf_s_less [OF Cons.prems(1)]
    by (auto simp: parse_hex_addr_def Let_def split: option.splits if_splits prod.splits)
  then show ?case using Cons by (auto simp: Let_def split: option.splits if_splits)
qed simp

lemma remote_host_length: "0 < cap \<Longrightarrow> length (remote_host h nr c p cap) < cap"
  using remote_lines_length [of cap h nr] snprintf_s_less [of cap]
  by (auto simp: remote_host_def remote_from_proc_net_def Let_def split: option.splits)

lemma parse_line_pid:
  assumes "parse_line line = Some ev"
  shows "\<bar>ev_pid ev\<bar> \<le> 2147483648"
proof -
  obtain v where "ev_pid ev = to_int32 v" using assms by (auto simp: parse_line_def atoi_def Let_def split: option.splits)
  then show ?thesis using to_int32_range [of v] unfolding abs_le_iff by linarith
qed

text \<open>The reads and writes that are heard, each with the host of its connection, given the names the
  processes have sent so far.\<close>

type_synonym heard_event = "tls_host \<times> tls_event \<times> string"

fun heard :: "tls_cfg \<Rightarrow> (tls_host \<times> string) list \<Rightarrow> sni_cache \<Rightarrow> (heard_event list \<times> sni_cache) outcome" where
  "heard cfg [] c = Inr ([], c)"
| "heard cfg ((h, line) # xs) c =
     (case parse_line line of None \<Rightarrow> heard cfg xs c
      | Some ev \<Rightarrow>
          if \<not> tls_is_watched (tc_watch cfg) (ev_pid ev) then heard cfg xs c
          else if ev_dir ev = ''sni'' then
            (if ev_sni ev = '''' then heard cfg xs c else and_then (set_sni (ev_pid ev) (ev_sni ev) c) (heard cfg xs))
          else and_then (heard cfg xs c) (\<lambda>(es, c'). Inr ((h, ev, remote_host h (tc_no_rdns cfg) c (ev_pid ev) 300) # es, c')))"

definition pair_of :: "heard_event \<Rightarrow> int \<times> string" where
  "pair_of e = (case e of (h, ev, host) \<Rightarrow> (ev_pid ev, host))"

lemma pair_of_simp [simp]: "pair_of (h, ev, host) = (ev_pid ev, host)"
  by (simp add: pair_of_def)

fun show_events :: "tls_cfg \<Rightarrow> heard_event list \<Rightarrow> string outcome" where
  "show_events cfg [] = Inr ''''"
| "show_events cfg ((h, ev, host) # es) =
     and_then (event_time h (ev_ts ev)) (\<lambda>ts. and_then (show_events cfg es) (\<lambda>s. Inr (event_text (tc_color cfg) ev host ts @ s)))"

definition time_ok :: "tls_event \<Rightarrow> bool" where
  "time_ok ev \<longleftrightarrow> (let x = dbl (fst (ev_ts ev) * 1000000000, snd (ev_ts ev)) in fst x div snd x < 2 ^ 63)"

text \<open>A line the kernel writes: its process number is not negative and its time is below \<open>2\<^sup>6\<^sup>3\<close> ns.\<close>

definition line_ok :: "string \<Rightarrow> bool" where
  "line_ok line \<longleftrightarrow> (case parse_line line of None \<Rightarrow> True | Some ev \<Rightarrow> 0 \<le> ev_pid ev \<and> time_ok ev)"

lemma event_time_ok: "time_ok ev \<Longrightarrow> \<exists>ts. event_time h (ev_ts ev) = Inr ts"
  by (auto simp: time_ok_def event_time_def Let_def split: prod.split)

lemma heard_total:
  "list_all (\<lambda>(h, line). line_ok line) xs \<Longrightarrow> sni_ok c \<Longrightarrow>
    \<exists>es c'. heard cfg xs c = Inr (es, c') \<and> sni_ok c' \<and> (\<forall>(h, ev, host) \<in> set es. time_ok ev \<and> pair_fits (ev_pid ev, host))"
proof (induction xs arbitrary: c)
  case (Cons x xs)
  obtain h line where x: "x = (h, line)" by fastforce
  show ?case
  proof (cases "parse_line line")
    case None
    then show ?thesis using Cons x by simp
  next
    case (Some ev)
    then have ev: "0 \<le> ev_pid ev" "time_ok ev" "\<bar>ev_pid ev\<bar> \<le> 2147483648"
      using Cons.prems(1) parse_line_pid [OF Some] by (simp_all add: x line_ok_def)
    have rest: "\<exists>es c'. heard cfg xs c = Inr (es, c') \<and> sni_ok c' \<and> (\<forall>(h, ev, host) \<in> set es. time_ok ev \<and> pair_fits (ev_pid ev, host))"
      if "sni_ok c" for c using Cons that by simp
    obtain c1 where c1: "set_sni (ev_pid ev) (ev_sni ev) c = Inr c1" "sni_ok c1" using set_sni_map [OF Cons.prems(2) ev(1)] by blast
    have "pair_fits (ev_pid ev, remote_host h (tc_no_rdns cfg) c (ev_pid ev) 300)"
      using ev(3) remote_host_length [of 300] by (simp add: pair_fits_def)
    then show ?thesis using rest [OF Cons.prems(2)] rest [OF c1(2)] ev(2) Some by (auto simp: x c1(1))
  qed
qed simp

lemma show_events_total: "\<forall>(h, ev, host) \<in> set es. time_ok ev \<Longrightarrow> \<exists>s. show_events cfg es = Inr s"
proof (induction es)
  case (Cons e es)
  obtain h ev host where e: "e = (h, ev, host)" by (cases e)
  then show ?case using Cons event_time_ok [of ev h] by auto
qed simp

text \<open>The loop is the hearing of all its lines, then the marking of what was heard, and of what is new
  one line each.\<close>

lemma tls_lines_marks:
  assumes "heard cfg xs (ts_sni st) = Inr (es, c)" "mark_all pair_of (\<lambda>x. conn_mark (pair_key x)) es (ts_conn st) = (rs, t)"
    and "show_events cfg rs = Inr s"
  shows "tls_lines cfg xs st = Inr \<lparr>ts_sni = c, ts_conn = t, ts_count = ts_count st + length rs, ts_out = ts_out st @ s\<rparr>"
  using assms
proof (induction xs arbitrary: st es rs s)
  case (Cons x xs)
  obtain h line where x: "x = (h, line)" by fastforce
  show ?case
  proof (cases "parse_line line")
    case None
    then show ?thesis using Cons by (simp add: x tls_line_def)
  next
    case (Some ev)
    show ?thesis
    proof (cases "tls_is_watched (tc_watch cfg) (ev_pid ev) \<and> ev_dir ev \<noteq> ''sni''")
      case False
      then show ?thesis using Cons Some by (auto simp: x tls_line_def tls_print_event_def outcome_simps split: if_splits)
    next
      case True
      let ?host = "remote_host h (tc_no_rdns cfg) (ts_sni st) (ev_pid ev) 300"
      obtain es' where es: "heard cfg xs (ts_sni st) = Inr (es', c)" "es = (h, ev, ?host) # es'"
        using Cons.prems(1) Some True by (auto simp: x outcome_simps split: prod.splits)
      obtain old t1 where m: "conn_mark (conn_key (ev_pid ev) ?host) (ts_conn st) = (old, t1)" by fastforce
      obtain rs' t' where m': "mark_all pair_of (\<lambda>x. conn_mark (pair_key x)) es' t1 = (rs', t')" by fastforce
      then have rs: "mark_all pair_of (\<lambda>x. conn_mark (pair_key x)) es' t1 = (rs', t)" "rs = (if old then rs' else (h, ev, ?host) # rs')"
        using Cons.prems(2) m by (auto simp: es(2))
      show ?thesis
      proof (cases old)
        case True
        then show ?thesis using Cons.IH [of "st\<lparr>ts_conn := t1\<rparr>" es' rs' s] es rs m Cons.prems(3) Some \<open>tls_is_watched _ _ \<and> _\<close>
          by (simp add: x tls_line_def tls_print_event_def)
      next
        case False
        then obtain ts s' where ts: "event_time h (ev_ts ev) = Inr ts" "show_events cfg rs' = Inr s'" "s = event_text (tc_color cfg) ev ?host ts @ s'"
          using Cons.prems(3) rs(2) by (auto simp: outcome_simps)
        let ?st1 = "st\<lparr>ts_conn := t1, ts_count := ts_count st + 1, ts_out := ts_out st @ event_text (tc_color cfg) ev ?host ts\<rparr>"
        show ?thesis using Cons.IH [of ?st1 es' rs' s'] es rs m ts False Some \<open>tls_is_watched _ _ \<and> _\<close>
          by (simp add: x tls_line_def tls_print_event_def)
      qed
    qed
  qed
qed simp

lemma tls_lines_once:
  assumes "list_all (\<lambda>(h, line). line_ok line) xs" "sni_ok (ts_sni st)" "conn_ok (ts_conn st)"
    and "heard cfg xs (ts_sni st) = Inr (es, c)" "card (pairs_seen (ts_conn st) \<union> pair_of ` set es) \<le> MAX_CONN"
  shows "\<exists>st' s. tls_lines cfg xs st = Inr st' \<and> show_events cfg (first_times pair_of (pairs_seen (ts_conn st)) es) = Inr s
    \<and> ts_out st' = ts_out st @ s \<and> ts_count st' = ts_count st + length (first_times pair_of (pairs_seen (ts_conn st)) es)
    \<and> conn_ok (ts_conn st') \<and> pairs_seen (ts_conn st') = pairs_seen (ts_conn st) \<union> pair_of ` set es"
proof -
  have ok: "\<forall>(h, ev, host) \<in> set es. time_ok ev \<and> pair_fits (ev_pid ev, host)"
    using heard_total [OF assms(1,2), of cfg] assms(4) by auto
  let ?new = "first_times pair_of (pairs_seen (ts_conn st)) es"
  have "\<forall>x \<in> set es. pair_fits (pair_of x)" using ok by (auto simp: pair_of_def)
  from conns.mark_all_first_times [OF assms(3) this assms(5)] obtain t where
    t: "mark_all pair_of (\<lambda>x. conn_mark (pair_key x)) es (ts_conn st) = (?new, t)" "conn_ok t"
      "pairs_seen t = pairs_seen (ts_conn st) \<union> pair_of ` set es" by blast
  have "set ?new \<subseteq> set es" by (rule first_times_subset)
  then obtain s where s: "show_events cfg ?new = Inr s" using show_events_total [of ?new cfg] ok by blast
  show ?thesis using tls_lines_marks [OF assms(4) t(1) s] s t(2,3) by simp
qed

end
