(* ===== verification/Tls_Probe.thy ===== *)
theory Tls_Probe
  imports Tls_Host Regex
begin

text \<open>
  The probes of the TLS tracer (\<^verbatim>\<open>src/c/tls.c\<close>): where a symbol is in the library, read from the
  output of \<^verbatim>\<open>nm\<close> or \<^verbatim>\<open>objdump\<close>, and the commands written to the control files of the kernel's tracing
  directory. The system is the record \<open>tls_sys\<close>; what has been written is a list of paths and texts,
  whether a write is refused depends on the writes before it, and \<open>kernel_state\<close> says which probes exist after
  those writes and which of them are enabled.
\<close>

section \<open>Definitions\<close>

record tls_sys =
  s_exists :: "string \<Rightarrow> bool"
  s_run :: "string \<Rightarrow> string list \<Rightarrow> string option"   \<comment> \<open>output of a program, \<open>None\<close> if it cannot be started\<close>
  s_refused :: "(string \<times> string) list \<Rightarrow> string \<Rightarrow> string \<Rightarrow> bool"  \<comment> \<open>after these writes, opening the file or writing the text fails\<close>
  s_errno :: "(string \<times> string) list \<Rightarrow> string \<Rightarrow> string \<Rightarrow> string"

type_synonym writes = "(string \<times> string) list"

subsection \<open>Symbol offsets\<close>

definition look_dirs :: "string list" where
  "look_dirs = [''/usr/bin'', ''/bin'', ''/usr/local/bin'', ''/sbin'', ''/usr/sbin'']"

fun look_in :: "tls_sys \<Rightarrow> string list \<Rightarrow> string \<Rightarrow> nat \<Rightarrow> string" where
  "look_in y [] name cap = snprintf_s cap (''/usr/bin/'' @ name)"
| "look_in y (d # ds) name cap =
     (let p = snprintf_s PATH_MAX (d @ ''/'' @ name) in if s_exists y p then snprintf_s cap p else look_in y ds name cap)"

definition must_look_path :: "tls_sys \<Rightarrow> string \<Rightarrow> nat \<Rightarrow> string" where
  "must_look_path y name cap = look_in y look_dirs name cap"

definition run_cmd :: "tls_sys \<Rightarrow> string \<Rightarrow> string list \<Rightarrow> string option" where
  "run_cmd y name argv = s_run y (must_look_path y name PATH_MAX) argv"

definition hexl :: "char \<Rightarrow> bool" where
  "hexl c \<longleftrightarrow> isdigit c \<or> (97 \<le> (of_char c :: nat) \<and> (of_char c :: nat) \<le> 102)"

definition boundary :: rx where
  "boundary = Either (Cls (\<lambda>c. \<not> wordc c)) Eol"

definition sym_pats :: "string \<Rightarrow> rx list list" where
  "sym_pats sy =
     [[Many1 hexl, Many1 isspace, Maybe (Cat (Many1 hexl) (Many1 isspace)), Many1 (\<lambda>c. \<not> isspace c), Many1 isspace, Lit sy, boundary],
      [Many1 hexl, Many1 isspace, Cls (\<lambda>c. \<not> isspace c), Many1 isspace, Lit sy, boundary],
      [Many1 hexl, Many1 isspace, Many (\<lambda>_. True), Cls (\<lambda>c. \<not> wordc c), Lit sy, Eol]]"

function lines_of :: "string \<Rightarrow> string list" where
  "lines_of s =
     (if s = '''' then []
      else let l = takeWhile (\<lambda>c. c \<noteq> CHR 0x0A) s
        in l # (if length l < length s then lines_of (drop (length l + 1) s) else []))"
  by auto
termination by (relation "measure length") auto

declare lines_of.simps [simp del]

definition sym_line :: "rx list \<Rightarrow> string \<Rightarrow> int option" where
  "sym_line pat line =
     (let lbuf = take 1023 line
      in case regexec True pat lbuf of None \<Rightarrow> None
         | Some ws \<Rightarrow>
             if strstr lbuf ''*UND*'' \<noteq> None then None
             else let hl = length (hd ws)
               in if hl > 0 \<and> hl < 32
                  then let v = fst (strtoul16 (hd ws)) in if v \<noteq> 0 then Some v else None
                  else None)"

definition sym_match :: "string \<Rightarrow> string \<Rightarrow> int option" where
  "sym_match data sy = first_some (\<lambda>pat. first_some (sym_line pat) (lines_of data)) (sym_pats sy)"

definition symbol_offset :: "tls_sys \<Rightarrow> string \<Rightarrow> string \<Rightarrow> int option" where
  "symbol_offset y lib sy =
     (let nm = run_cmd y ''nm'' [''nm'', ''-D'', ''--defined-only'', lib]
      in case (if nm = None \<or> nm = Some '''' then run_cmd y ''objdump'' [''objdump'', ''-T'', lib] else nm) of
           None \<Rightarrow> None
         | Some data \<Rightarrow> sym_match data sy)"

subsection \<open>Uprobes\<close>

definition TRACING_BASE :: string where "TRACING_BASE = ''/sys/kernel/debug/tracing''"
definition UPROBE_EVENTS :: string where "UPROBE_EVENTS = TRACING_BASE @ ''/uprobe_events''"

record probe_target =
  pt_symbol :: string
  pt_ret :: bool
  pt_dir :: string
  pt_extra :: string
  pt_filter :: string

definition target :: "string \<Rightarrow> bool \<Rightarrow> string \<Rightarrow> string \<Rightarrow> string \<Rightarrow> probe_target" where
  "target s r d x f = \<lparr>pt_symbol = s, pt_ret = r, pt_dir = d, pt_extra = x, pt_filter = f\<rparr>"

definition probe_targets :: "probe_target list" where
  "probe_targets =
     [target ''SSL_read'' False ''read'' '''' '''', target ''SSL_read'' True ''read'' '''' '''',
      target ''SSL_write'' False ''write'' '''' '''', target ''SSL_read_ex'' False ''read'' '''' '''',
      target ''SSL_write_ex'' False ''write'' '''' '''',
      target ''SSL_get_servername'' True ''sni'' ''+0($retval):string'' '''',
      target ''SSL_ctrl'' False ''sni'' ''cmd=%si:u64 sni=+0(%cx):string'' ''cmd==55'']"

record probe_entry =
  pe_name :: string
  pe_ret :: bool
  pe_dir :: string
  pe_symbol :: string

definition MAX_PROBES :: nat where "MAX_PROBES = 32"

definition append_to_file :: "tls_sys \<Rightarrow> string \<Rightarrow> string \<Rightarrow> writes \<Rightarrow> bool \<times> writes" where
  "append_to_file y path content ws =
     (let line = content @ NL
      in if length line \<ge> 1024 \<or> s_refused y ws path line then (False, ws) else (True, ws @ [(path, line)]))"

definition write_str :: "tls_sys \<Rightarrow> string \<Rightarrow> string \<Rightarrow> writes \<Rightarrow> bool \<times> writes" where
  "write_str y path s ws = (if s_refused y ws path s then (False, ws) else (True, ws @ [(path, s)]))"

definition cat_to :: "nat \<Rightarrow> string \<Rightarrow> string \<Rightarrow> string" where
  "cat_to cap dst s = dst @ take (cap - length dst - 1) s"

definition probe_name :: "probe_target \<Rightarrow> string" where
  "probe_name t =
     (let nm = snprintf_s 128 (''tls_'' @ pt_dir t @ ''_'' @ pt_symbol t) in if pt_ret t then cat_to 128 nm ''_ret'' else nm)"

definition control_path :: "string \<Rightarrow> string \<Rightarrow> string" where
  "control_path name file = snprintf_s 256 (TRACING_BASE @ ''/events/uprobes/'' @ name @ ''/'' @ file)"

definition remove_cmd :: "string \<Rightarrow> string" where
  "remove_cmd name = snprintf_s 160 (''-:uprobes/'' @ name)"

definition probe_cmd :: "probe_target \<Rightarrow> string \<Rightarrow> int \<Rightarrow> string" where
  "probe_cmd t lib off =
     (let line = snprintf_s 512 ((if pt_ret t then ''r'' else ''p'') @ '':'' @ probe_name t @ '' '' @ lib @ '':0x'' @ hex_nat (nat off))
      in if pt_extra t \<noteq> '''' then cat_to 512 (cat_to 512 line '' '') (pt_extra t) else line)"

text \<open>The state of the registration: names so far, registered probes, writes, and the error stream.\<close>

record probe_st =
  ps_seen :: "string list"
  ps_reg :: "probe_entry list"
  ps_writes :: writes
  ps_err :: string

definition say :: "bool \<Rightarrow> string \<Rightarrow> probe_st \<Rightarrow> probe_st" where
  "say v s st = (if v then st\<lparr>ps_err := ps_err st @ s @ NL\<rparr> else st)"

definition drop_stale :: "tls_sys \<Rightarrow> string \<Rightarrow> writes \<Rightarrow> writes" where
  "drop_stale y name ws = snd (append_to_file y UPROBE_EVENTS (remove_cmd name) (snd (write_str y (control_path name ''enable'') ''0'' ws)))"

definition enable_probe :: "tls_sys \<Rightarrow> bool \<Rightarrow> probe_target \<Rightarrow> probe_st \<Rightarrow> probe_st" where
  "enable_probe y v t st =
     (let nm = probe_name t; ep = control_path nm ''enable''; fp = control_path nm ''filter'';
          (ok1, ws1) = write_str y ep ''1'' (ps_writes st);
          st1 = say (v \<and> \<not> ok1) (''  enable '' @ nm @ '': '' @ s_errno y ws1 ep ''1'') (st\<lparr>ps_writes := ws1\<rparr>);
          (ok2, ws2) = (if pt_filter t \<noteq> '''' then write_str y fp (pt_filter t) (ps_writes st1) else (True, ps_writes st1));
          st2 = say (v \<and> \<not> ok2) (''  filter '' @ nm @ '': '' @ s_errno y ws2 fp (pt_filter t)) (st1\<lparr>ps_writes := ws2\<rparr>)
      in if length (ps_reg st2) < MAX_PROBES
         then st2\<lparr>ps_reg := ps_reg st2 @ [\<lparr>pe_name = snprintf_s 128 nm, pe_ret = pt_ret t, pe_dir = snprintf_s 8 (pt_dir t),
           pe_symbol = snprintf_s 64 (pt_symbol t)\<rparr>]\<rparr>
         else st2)"

definition register_target :: "tls_sys \<Rightarrow> bool \<Rightarrow> string \<Rightarrow> probe_target \<Rightarrow> probe_st \<Rightarrow> probe_st" where
  "register_target y v lib t st =
     (case symbol_offset y lib (pt_symbol t) of
        None \<Rightarrow> say v (''  skipping '' @ pt_symbol t @ '': symbol '' @ pt_symbol t @ '' not found in '' @ lib) st
      | Some off \<Rightarrow>
          let nm = probe_name t
          in if nm \<in> set (ps_seen st) then st
             else let st1 = st\<lparr>ps_seen := ps_seen st @ [nm], ps_writes := drop_stale y nm (ps_writes st)\<rparr>;
                      cmd = probe_cmd t lib off;
                      (ok, ws) = append_to_file y UPROBE_EVENTS cmd (ps_writes st1)
               in if \<not> ok then say v (''  uprobe '' @ nm @ '': '' @ s_errno y ws UPROBE_EVENTS (cmd @ NL)) st1
                  else enable_probe y v t (say v (''  registered: '' @ nm @ '' @ 0x'' @ hex_nat (nat off)) (st1\<lparr>ps_writes := ws\<rparr>)))"

definition register_uprobes :: "tls_sys \<Rightarrow> bool \<Rightarrow> string \<Rightarrow> writes \<Rightarrow> probe_st" where
  "register_uprobes y v lib ws =
     fold (register_target y v lib) probe_targets \<lparr>ps_seen = [], ps_reg = [], ps_writes = ws, ps_err = ''''\<rparr>"

definition cleanup_uprobes :: "tls_sys \<Rightarrow> probe_entry list \<Rightarrow> writes \<Rightarrow> writes" where
  "cleanup_uprobes y reg ws = fold (\<lambda>e. drop_stale y (pe_name e)) reg ws"

section \<open>Symbols in the output of nm\<close>

lemma hexl_plain: "hexl c \<Longrightarrow> ishex c \<and> \<not> isspace c \<and> c \<noteq> CHR ''*''"
  by (auto simp: hexl_def isdigit_def isspace_def ishex_def hex_val_def Let_def)

text \<open>A line of \<^verbatim>\<open>nm\<close>: the address, the type, the name and its version.\<close>

record nm_sym =
  nm_addr :: string
  nm_type :: char
  nm_name :: string
  nm_version :: string

definition nm_line :: "nm_sym \<Rightarrow> string" where
  "nm_line x = nm_addr x @ '' '' @ [nm_type x] @ '' '' @ nm_name x @ nm_version x"

definition nm_ok :: "nm_sym \<Rightarrow> bool" where
  "nm_ok x \<longleftrightarrow> nm_addr x \<noteq> '''' \<and> length (nm_addr x) \<le> 16 \<and> list_all hexl (nm_addr x) \<and> \<not> isspace (nm_type x) \<and> nm_type x \<noteq> CHR ''*''
     \<and> nm_name x \<noteq> '''' \<and> list_all wordc (nm_name x) \<and> (\<forall>c \<in> set (nm_version x). \<not> isspace c \<and> c \<noteq> CHR ''*'' \<and> c \<noteq> CHR 0x0A)
     \<and> (nm_version x = '''' \<or> \<not> wordc (hd (nm_version x))) \<and> length (nm_line x) < 1024"

lemma pat1_parts:
  assumes "nm_ok x" "list_all wordc sy" "sy \<noteq> ''''"
    and "concat ws @ t' = nm_line x" "rx_parts (hd (sym_pats sy)) ws (t' = '''')"
  shows "hd ws = nm_addr x \<and> nm_name x = sy"
proof -
  have ok: "nm_addr x \<noteq> ''''" "\<forall>c \<in> set (nm_addr x). hexl c" "\<not> isspace (nm_type x)" "nm_name x \<noteq> ''''" "\<forall>c \<in> set (nm_name x). wordc c"
    "\<forall>c \<in> set (nm_version x). \<not> isspace c" "nm_version x \<noteq> '''' \<Longrightarrow> \<not> wordc (hd (nm_version x))"
    using assms(1) by (auto simp: nm_ok_def list_all_iff)
  obtain a b c d e f g where ws: "ws = [a, b, c, d, e, f, g]" and a: "a \<noteq> ''''" "\<forall>x \<in> set a. hexl x"
    and b: "b \<noteq> ''''" "\<forall>x \<in> set b. isspace x" and c: "c = '''' \<or> rx_match (Cat (Many1 hexl) (Many1 isspace)) c (t' = '''' \<and> concat [d, e, f, g] = '''')"
    and d: "d \<noteq> ''''" "\<forall>x \<in> set d. \<not> isspace x" and e: "e \<noteq> ''''" "\<forall>x \<in> set e. isspace x" and f: "f = sy"
    and g: "(length g = 1 \<and> list_all (\<lambda>c. \<not> wordc c) g) \<or> (g = '''' \<and> t' = '''')"
    using assms(5) by (auto simp: sym_pats_def rx_parts_Cons rx_parts_Nil boundary_def list_all_iff simp del: rx_match.simps(5))
  have line: "a @ (b @ c @ d @ e @ sy @ g @ t') = nm_addr x @ ('' '' @ [nm_type x] @ '' '' @ nm_name x @ nm_version x)"
    using assms(4) by (simp add: nm_line_def ws f)
  have hd_space: "s \<noteq> '''' \<Longrightarrow> \<forall>x \<in> set s. isspace x \<Longrightarrow> isspace (hd (s @ r))" for s r by (cases s) auto
  have hd_plain: "s \<noteq> '''' \<Longrightarrow> \<forall>x \<in> set s. \<not> isspace x \<Longrightarrow> \<not> isspace (hd (s @ r))" for s r by (cases s) auto
  have sp: "isspace (CHR '' '')" by (simp add: isspace_def)
  have 1: "a = nm_addr x \<and> b @ c @ d @ e @ sy @ g @ t' = '' '' @ [nm_type x] @ '' '' @ nm_name x @ nm_version x"
    using line a(2) ok(2) hexl_plain hd_space [OF b] sp by (intro span_unique [where P = "\<lambda>c. \<not> isspace c"]) auto
  have cd: "\<not> isspace (hd (c @ d @ e @ sy @ g @ t'))"
  proof (cases "c = ''''")
    case False
    then obtain u v where uv: "c = u @ v" "u \<noteq> ''''" "\<forall>x \<in> set u. hexl x" using c by (auto simp: rx_match_Cat list_all_iff simp del: rx_match.simps(5))
    then show ?thesis using hexl_plain hd_plain [of u] by auto
  qed (use hd_plain [OF d] in simp)
  have 2: "b = '' '' \<and> c @ d @ e @ sy @ g @ t' = [nm_type x] @ '' '' @ nm_name x @ nm_version x"
    using 1 b(2) cd ok(3) sp by (intro span_unique [where P = isspace]) auto
  have c0: "c = ''''"
  proof (rule ccontr)
    assume "c \<noteq> ''''"
    then obtain u v where uv: "c = u @ v" "u \<noteq> ''''" "\<forall>x \<in> set u. hexl x" "v \<noteq> ''''" "\<forall>x \<in> set v. isspace x"
      using c by (auto simp: rx_match_Cat list_all_iff simp del: rx_match.simps(5))
    have "u = [nm_type x] \<and> v @ d @ e @ sy @ g @ t' = '' '' @ nm_name x @ nm_version x"
      using 2 uv ok(3) hexl_plain hd_space [OF uv(4,5)] sp by (intro span_unique [where P = "\<lambda>c. \<not> isspace c"]) auto
    moreover have "\<not> isspace (hd (nm_name x @ nm_version x))" using ok(4,5) wordc_plain by (cases "nm_name x") auto
    ultimately have "v = '' '' \<and> d @ e @ sy @ g @ t' = nm_name x @ nm_version x"
      using uv(5) hd_plain [OF d] sp by (intro span_unique [where P = isspace]) auto
    then have "set e \<subseteq> set (nm_name x @ nm_version x)" by (metis Un_iff set_append subsetI)
    then show False using e ok(5,6) wordc_plain by (cases e) auto
  qed
  have 3: "d = [nm_type x] \<and> e @ sy @ g @ t' = '' '' @ nm_name x @ nm_version x"
    using 2 c0 d(2) ok(3) hd_space [OF e] sp by (intro span_unique [where P = "\<lambda>c. \<not> isspace c"]) auto
  have "\<not> isspace (hd (sy @ g @ t'))" using assms(2,3) wordc_plain by (cases sy) auto
  moreover have "\<not> isspace (hd (nm_name x @ nm_version x))" using ok(4,5) wordc_plain by (cases "nm_name x") auto
  ultimately have 4: "e = '' '' \<and> sy @ g @ t' = nm_name x @ nm_version x"
    using 3 e(2) sp by (intro span_unique [where P = isspace]) auto
  have "g @ t' \<noteq> '''' \<Longrightarrow> \<not> wordc (hd (g @ t'))" using g by (cases g) auto
  then have "sy = nm_name x" using 4 assms(2) ok(5,7) span_unique [of sy "g @ t'" "nm_name x" "nm_version x" wordc] by (auto simp: list_all_iff)
  then show ?thesis using 1 ws by simp
qed

lemma nm_line_chars: "nm_ok x \<Longrightarrow> c \<in> set (nm_line x) \<Longrightarrow> c \<noteq> CHR ''*'' \<and> c \<noteq> CHR 0x0A"
  using hexl_plain wordc_plain by (auto simp: nm_ok_def nm_line_def list_all_iff isspace_def)

lemma pat1_found:
  assumes "nm_ok x" "nm_name x = sy"
  shows "\<exists>ws. rx_at (hd (sym_pats sy)) (nm_line x) = Some ws"
proof -
  let ?ws = "[nm_addr x, '' '', '''', [nm_type x], '' '', sy, take 1 (nm_version x)]"
  have "rx_parts (hd (sym_pats sy)) ?ws (drop 1 (nm_version x) = '''')"
    using assms by (cases "nm_version x") (auto simp: sym_pats_def nm_ok_def boundary_def isspace_def)
  moreover have "concat ?ws @ drop 1 (nm_version x) = nm_line x" using assms(2) by (simp add: nm_line_def)
  ultimately show ?thesis using rx_at_complete by metis
qed

definition nm_value :: "nm_sym \<Rightarrow> int" where
  "nm_value x = int (num_of 16 (map (the \<circ> hex_val) (nm_addr x)))"

lemma sym_line_nm:
  assumes "nm_ok x" "list_all wordc sy" "sy \<noteq> ''''"
  shows "sym_line (hd (sym_pats sy)) (nm_line x) = (if nm_name x = sy \<and> nm_value x \<noteq> 0 then Some (nm_value x) else None)"
proof -
  have buf: "take 1023 (nm_line x) = nm_line x" using assms(1) by (simp add: nm_ok_def)
  have und: "strstr (nm_line x) ''*UND*'' = None" using nm_line_chars [OF assms(1)] strstr_absent by metis
  have hd_ws: "hd ws = nm_addr x \<and> nm_name x = sy" if "rx_at (hd (sym_pats sy)) (nm_line x) = Some ws" for ws
    using rx_at_sound [OF that] pat1_parts [OF assms, of ws] by metis
  have addr: "0 < length (nm_addr x)" "length (nm_addr x) < 32" "nm_addr x \<noteq> ''''" "\<And>c. c \<in> set (nm_addr x) \<Longrightarrow> ishex c"
    using assms(1) hexl_plain by (auto simp: nm_ok_def list_all_iff)
  have "num_of 16 (map (the \<circ> hex_val) (nm_addr x)) < 16 ^ length (nm_addr x)"
    using num_of_less [of "map (the \<circ> hex_val) (nm_addr x)" 16] addr(4) hex_val_less by fastforce
  also have "\<dots> \<le> 16 ^ 16" using assms(1) by (intro power_increasing) (auto simp: nm_ok_def)
  finally have v: "fst (strtoul16 (nm_addr x)) = nm_value x" using strtoul16_digits [OF addr(3,4)] by (simp add: nm_value_def)
  show ?thesis
  proof (cases "rx_at (hd (sym_pats sy)) (nm_line x)")
    case None
    then have "nm_name x \<noteq> sy" using pat1_found [OF assms(1)] by force
    then show ?thesis using None by (simp add: sym_line_def buf regexec_def)
  next
    case (Some ws)
    then show ?thesis using hd_ws [OF Some] addr v und by (simp add: sym_line_def buf regexec_def Let_def)
  qed
qed

lemma lines_of_line: "CHR 0x0A \<notin> set l \<Longrightarrow> lines_of (l @ NL @ s) = l # lines_of s"
  using takeWhile_not [of "CHR 0x0A" l s] by (subst lines_of.simps) (simp only: Let_def append.simps length_append list.size, simp)

definition nm_output :: "nm_sym list \<Rightarrow> string" where
  "nm_output xs = concat (map (\<lambda>x. nm_line x @ NL) xs)"

lemma lines_of_nm: "list_all nm_ok xs \<Longrightarrow> lines_of (nm_output xs) = map nm_line xs"
proof (induction xs)
  case Nil
  then show ?case by (subst lines_of.simps) (simp add: nm_output_def)
next
  case (Cons x xs)
  then show ?case using lines_of_line [of "nm_line x" "nm_output xs"] nm_line_chars [of x] by (auto simp: nm_output_def)
qed

lemma first_some_map: "first_some f (map g xs) = first_some (\<lambda>x. f (g x)) xs"
  by (induction xs) (auto split: option.split)

lemma first_some_cong: "(\<And>x. x \<in> set xs \<Longrightarrow> f x = g x) \<Longrightarrow> first_some f xs = first_some g xs"
  by (induction xs) (auto split: option.split)

text \<open>The specification: the first line of the symbol that has an address.\<close>

definition nm_lookup :: "nm_sym list \<Rightarrow> string \<Rightarrow> int option" where
  "nm_lookup xs sy = first_some (\<lambda>x. if nm_name x = sy \<and> nm_value x \<noteq> 0 then Some (nm_value x) else None) xs"

lemma sym_match_nm:
  assumes "list_all nm_ok xs" "list_all wordc sy" "sy \<noteq> ''''" "nm_lookup xs sy = Some v"
  shows "sym_match (nm_output xs) sy = Some v"
proof -
  have "first_some (sym_line (hd (sym_pats sy))) (lines_of (nm_output xs)) = nm_lookup xs sy"
    unfolding lines_of_nm [OF assms(1)] first_some_map nm_lookup_def
    by (rule first_some_cong) (use assms(1) sym_line_nm [OF _ assms(2,3)] in \<open>auto simp: list_all_iff\<close>)
  then show ?thesis using assms(4) by (simp add: sym_match_def sym_pats_def)
qed


section \<open>The probes the kernel holds after the writes\<close>

text \<open>
  What the kernel documents of its control files: a line \<^verbatim>\<open>-:GROUP/NAME\<close> removes a probe, a line
  \<^verbatim>\<open>p:NAME ...\<close> or \<^verbatim>\<open>r:NAME ...\<close> adds one, disabled, in the group \<^verbatim>\<open>uprobes\<close>; the file \<^verbatim>\<open>events/uprobes/NAME/enable\<close>
  enables and disables it. The state maps the probes that exist to whether they are enabled.
\<close>

type_synonym kprobes = "string \<Rightarrow> bool option"

definition word_of :: "string \<Rightarrow> string" where
  "word_of s = takeWhile (\<lambda>c. \<not> isspace c) s"

definition enable_name :: "string \<Rightarrow> string option" where
  "enable_name p =
     (let base = TRACING_BASE @ ''/events/uprobes/''
      in if prefix base p \<and> suffix ''/enable'' p then Some (take (length p - length base - 7) (drop (length base) p)) else None)"

definition kernel_write :: "string \<times> string \<Rightarrow> kprobes \<Rightarrow> kprobes" where
  "kernel_write w S =
     (case w of (p, l) \<Rightarrow>
        if p = UPROBE_EVENTS then
          (if prefix ''-:uprobes/'' l then S(word_of (drop 10 l) := None)
           else if prefix ''p:'' l \<or> prefix ''r:'' l then
             (let nm = word_of (drop 2 l) in S(nm := (case S nm of None \<Rightarrow> Some False | Some b \<Rightarrow> Some b)))
           else S)
        else (case enable_name p of None \<Rightarrow> S | Some nm \<Rightarrow> if S nm = None then S else S(nm := Some (l \<noteq> ''0''))))"

definition kernel_state :: "writes \<Rightarrow> kprobes \<Rightarrow> kprobes" where
  "kernel_state ws S = fold kernel_write ws S"

lemma kernel_state_append [simp]: "kernel_state (ws @ ws') S = kernel_state ws' (kernel_state ws S)"
  by (simp add: kernel_state_def)

lemma kernel_state_simps [simp]: "kernel_state [] S = S" "kernel_state (w # ws) S = kernel_state ws (kernel_write w S)"
  by (simp_all add: kernel_state_def)

definition name_ok :: "string \<Rightarrow> bool" where
  "name_ok nm \<longleftrightarrow> length nm < 100 \<and> list_all (\<lambda>c. \<not> isspace c) nm"

lemma target_names: "t \<in> set probe_targets \<Longrightarrow> name_ok (probe_name t)"
proof -
  have "list_all (\<lambda>t. name_ok (probe_name t)) probe_targets" by code_simp
  then show "t \<in> set probe_targets \<Longrightarrow> name_ok (probe_name t)" by (simp add: list_all_iff)
qed

lemma control_path_other: "control_path nm f \<noteq> UPROBE_EVENTS"
proof
  assume "control_path nm f = UPROBE_EVENTS"
  then have "control_path nm f ! 26 = UPROBE_EVENTS ! 26" by simp
  then show False by (simp add: control_path_def snprintf_s_def UPROBE_EVENTS_def TRACING_BASE_def nth_append)
qed

lemma control_path_full:
  "name_ok nm \<Longrightarrow> length f \<le> 6 \<Longrightarrow> control_path nm f = (TRACING_BASE @ ''/events/uprobes/'') @ nm @ ''/'' @ f"
  by (simp add: control_path_def name_ok_def TRACING_BASE_def)

lemma enable_name_path: "name_ok nm \<Longrightarrow> enable_name (control_path nm ''enable'') = Some nm"
  unfolding control_path_full [of nm "''enable''", simplified] enable_name_def Let_def
  by (simp add: control_path_full suffix_def)

lemma enable_name_filter: "name_ok nm \<Longrightarrow> enable_name (control_path nm ''filter'') = None"
  by (simp add: control_path_full enable_name_def suffix_def)

lemma write_enable:
  "name_ok nm \<Longrightarrow> kernel_write (control_path nm ''enable'', l) S = (if S nm = None then S else S(nm := Some (l \<noteq> ''0'')))"
  by (simp add: kernel_write_def control_path_other enable_name_path)

lemma write_filter: "name_ok nm \<Longrightarrow> kernel_write (control_path nm ''filter'', l) S = S"
  by (simp add: kernel_write_def control_path_other enable_name_filter)

lemma word_of_line: "name_ok nm \<Longrightarrow> isspace c \<Longrightarrow> word_of (nm @ c # r) = nm"
  by (simp add: word_of_def name_ok_def list_all_iff takeWhile_append2)

text \<open>
  What the kernel documents of refusals, for the names of the tracer: a removal is refused exactly when there is no such
  probe (\<^verbatim>\<open>ENOENT\<close>) or it is enabled (\<^verbatim>\<open>EBUSY\<close>); the file that disables a probe is there exactly as long as the probe is, and
  disabling is not refused. \<open>S\<close> are the probes before the first write. Adding, enabling and filtering may fail for any reason.
\<close>

definition kernel_rules :: "tls_sys \<Rightarrow> kprobes \<Rightarrow> bool" where
  "kernel_rules y S \<longleftrightarrow> (\<forall>ws. \<forall>t \<in> set probe_targets. let nm = probe_name t; now = kernel_state ws S nm in
     (s_refused y ws UPROBE_EVENTS (remove_cmd nm @ NL) \<longleftrightarrow> now = None \<or> now = Some True) \<and>
     (s_refused y ws (control_path nm ''enable'') ''0'' \<longleftrightarrow> now = None))"

lemma drop_stale_removes:
  assumes "kernel_rules y S" "t \<in> set probe_targets"
  shows "kernel_state (drop_stale y (probe_name t) ws) S = (kernel_state ws S)(probe_name t := None)"
proof -
  let ?nm = "probe_name t"
  have ok: "name_ok ?nm" using assms(2) by (rule target_names)
  have rm: "remove_cmd ?nm = ''-:uprobes/'' @ ?nm" using ok by (simp add: remove_cmd_def name_ok_def)
  have len: "\<not> length (remove_cmd ?nm @ NL) \<ge> 1024" using ok by (simp add: rm name_ok_def)
  have rule: "s_refused y ws' UPROBE_EVENTS (remove_cmd ?nm @ NL) \<longleftrightarrow> kernel_state ws' S ?nm = None \<or> kernel_state ws' S ?nm = Some True"
    "s_refused y ws' (control_path ?nm ''enable'') ''0'' \<longleftrightarrow> kernel_state ws' S ?nm = None" for ws'
    using assms by (auto simp: kernel_rules_def Let_def)
  have gone: "kernel_write (UPROBE_EVENTS, remove_cmd ?nm @ NL) S' = S'(?nm := None)" for S'
    using word_of_line [OF ok, of "CHR 0x0A" "''''"] by (simp add: kernel_write_def rm isspace_def)
  show ?thesis
  proof (cases "kernel_state ws S ?nm")
    case None
    then have "drop_stale y ?nm ws = ws" using rule [of ws] len by (simp add: drop_stale_def write_str_def append_to_file_def)
    then show ?thesis using None by (simp add: fun_upd_idem)
  next
    case (Some b)
    let ?ws = "ws @ [(control_path ?nm ''enable'', ''0'')]"
    have off: "kernel_state ?ws S = (kernel_state ws S)(?nm := Some False)" using Some by (simp add: write_enable [OF ok])
    have "write_str y (control_path ?nm ''enable'') ''0'' ws = (True, ?ws)" using rule(2) [of ws] Some by (simp add: write_str_def)
    moreover have "append_to_file y UPROBE_EVENTS (remove_cmd ?nm) ?ws = (True, ?ws @ [(UPROBE_EVENTS, remove_cmd ?nm @ NL)])"
      unfolding append_to_file_def Let_def using rule(1) [of ?ws] off len by simp
    ultimately have "drop_stale y ?nm ws = ?ws @ [(UPROBE_EVENTS, remove_cmd ?nm @ NL)]" by (simp only: drop_stale_def snd_conv)
    then show ?thesis using off by (simp only: kernel_state_append kernel_state_simps gone) simp
  qed
qed

lemma probe_cmd_adds:
  assumes "name_ok (probe_name t)" "S (probe_name t) = None"
  shows "kernel_write (UPROBE_EVENTS, probe_cmd t lib off @ NL) S = S(probe_name t \<mapsto> False)"
proof -
  let ?k = "if pt_ret t then CHR ''r'' else CHR ''p''"
  have "\<exists>r. snprintf_s 512 ((if pt_ret t then ''r'' else ''p'') @ '':'' @ probe_name t @ '' '' @ lib @ '':0x'' @ hex_nat (nat off))
      = ?k # CHR '':'' # probe_name t @ CHR '' '' # r"
    using assms(1) by (auto simp: snprintf_s_def name_ok_def take_Cons' take_append)
  then have "\<exists>r. probe_cmd t lib off @ NL = ?k # CHR '':'' # probe_name t @ CHR '' '' # r"
    by (auto simp: probe_cmd_def cat_to_def Let_def)
  then obtain r where r: "probe_cmd t lib off @ NL = ?k # CHR '':'' # probe_name t @ CHR '' '' # r" by blast
  have w: "word_of (probe_name t @ CHR '' '' # r) = probe_name t" using word_of_line [OF assms(1), of "CHR '' ''"] by (simp add: isspace_def)
  show ?thesis unfolding r kernel_write_def by (simp add: w assms(2))
qed

definition reg_names :: "probe_st \<Rightarrow> string set" where
  "reg_names st = pe_name ` set (ps_reg st)"

lemma say_keeps [simp]:
  "ps_writes (say v s st) = ps_writes st" "ps_seen (say v s st) = ps_seen st" "ps_reg (say v s st) = ps_reg st"
  by (simp_all add: say_def)

lemma write_enable_str:
  assumes "name_ok nm" "kernel_state ws S nm \<noteq> None"
  shows "\<exists>b. kernel_state (snd (write_str y (control_path nm ''enable'') l ws)) S = (kernel_state ws S)(nm \<mapsto> b)"
proof -
  obtain c where "kernel_state ws S nm = Some c" using assms(2) by blast
  then have "(kernel_state ws S)(nm \<mapsto> c) = kernel_state ws S" by (simp add: fun_upd_idem)
  then show ?thesis using assms by (auto simp: write_str_def write_enable intro: exI [of _ c])
qed

lemma write_filter_str: "name_ok nm \<Longrightarrow> kernel_state (snd (write_str y (control_path nm ''filter'') l ws)) S = kernel_state ws S"
  by (simp add: write_str_def write_filter)

lemma enable_probe_effect:
  assumes "name_ok (probe_name t)" "length (ps_reg st) < MAX_PROBES" "kernel_state (ps_writes st) S (probe_name t) \<noteq> None"
  shows "\<exists>b. kernel_state (ps_writes (enable_probe y v t st)) S = (kernel_state (ps_writes st) S)(probe_name t \<mapsto> b)"
    and "ps_seen (enable_probe y v t st) = ps_seen st" "reg_names (enable_probe y v t st) = insert (probe_name t) (reg_names st)"
    and "length (ps_reg (enable_probe y v t st)) = Suc (length (ps_reg st))"
proof -
  let ?nm = "probe_name t"
  let ?w1 = "snd (write_str y (control_path ?nm ''enable'') ''1'' (ps_writes st))"
  obtain b where b: "kernel_state ?w1 S = (kernel_state (ps_writes st) S)(?nm \<mapsto> b)" using write_enable_str [OF assms(1,3)] by blast
  have "ps_writes (enable_probe y v t st) = (if pt_filter t \<noteq> '''' then snd (write_str y (control_path ?nm ''filter'') (pt_filter t) ?w1) else ?w1)"
    by (simp add: enable_probe_def Let_def case_prod_beta)
  then have "kernel_state (ps_writes (enable_probe y v t st)) S = kernel_state ?w1 S" using write_filter_str [OF assms(1)] by simp
  with b show "\<exists>b. kernel_state (ps_writes (enable_probe y v t st)) S = (kernel_state (ps_writes st) S)(?nm \<mapsto> b)" by auto
  have "snprintf_s 128 ?nm = ?nm" using assms(1) by (simp add: name_ok_def)
  then show "ps_seen (enable_probe y v t st) = ps_seen st" "reg_names (enable_probe y v t st) = insert ?nm (reg_names st)"
    "length (ps_reg (enable_probe y v t st)) = Suc (length (ps_reg st))"
    using assms(2) by (auto simp: enable_probe_def Let_def reg_names_def case_prod_beta)
qed

definition located :: "tls_sys \<Rightarrow> string \<Rightarrow> probe_target list \<Rightarrow> string set" where
  "located y lib ts = probe_name ` {t \<in> set ts. symbol_offset y lib (pt_symbol t) \<noteq> None}"

text \<open>The table of the registered probes mirrors the kernel's: of the names the tracer has come to only they are there, and
  the probes of all other names are as they were (\<open>B\<close>).\<close>

definition reg_inv :: "tls_sys \<Rightarrow> string \<Rightarrow> kprobes \<Rightarrow> kprobes \<Rightarrow> probe_target list \<Rightarrow> probe_st \<Rightarrow> bool" where
  "reg_inv y lib S B ts st \<longleftrightarrow> set (ps_seen st) = located y lib ts \<and> reg_names st \<subseteq> set (ps_seen st)
     \<and> (\<forall>nm. nm \<notin> set (ps_seen st) \<longrightarrow> kernel_state (ps_writes st) S nm = B nm)
     \<and> dom (kernel_state (ps_writes st) S) \<inter> set (ps_seen st) = reg_names st \<and> length (ps_reg st) \<le> length ts"

lemma register_target_step:
  assumes "reg_inv y lib S B ts st" "length ts < MAX_PROBES" "kernel_rules y S" "t \<in> set probe_targets"
  shows "reg_inv y lib S B (ts @ [t]) (register_target y v lib t st)"
proof (cases "symbol_offset y lib (pt_symbol t)")
  case None
  then have "located y lib (ts @ [t]) = located y lib ts" by (auto simp: located_def)
  then show ?thesis using assms(1) None by (auto simp: register_target_def reg_inv_def reg_names_def)
next
  case (Some off)
  let ?nm = "probe_name t"
  let ?st1 = "st\<lparr>ps_seen := ps_seen st @ [?nm], ps_writes := drop_stale y ?nm (ps_writes st)\<rparr>"
  have ok: "name_ok ?nm" using assms(4) by (rule target_names)
  have loc: "located y lib (ts @ [t]) = insert ?nm (located y lib ts)" using Some by (auto simp: located_def)
  have inv: "set (ps_seen st) = located y lib ts" "reg_names st \<subseteq> set (ps_seen st)"
    "\<And>nm. nm \<notin> set (ps_seen st) \<Longrightarrow> kernel_state (ps_writes st) S nm = B nm"
    "dom (kernel_state (ps_writes st) S) \<inter> set (ps_seen st) = reg_names st" "length (ps_reg st) \<le> length ts"
    using assms(1) by (auto simp: reg_inv_def)
  have dropped: "kernel_state (ps_writes ?st1) S = (kernel_state (ps_writes st) S)(?nm := None)"
    using drop_stale_removes [OF assms(3,4)] by simp
  show ?thesis
  proof (cases "?nm \<in> set (ps_seen st)")
    case True
    then have "register_target y v lib t st = st" using Some by (simp add: register_target_def Let_def)
    then show ?thesis using inv loc True by (auto simp: reg_inv_def)
  next
    case False
    then have fresh: "?nm \<notin> reg_names st" using inv(2) by blast
    let ?cmd = "probe_cmd t lib off"
    show ?thesis
    proof (cases "fst (append_to_file y UPROBE_EVENTS ?cmd (ps_writes ?st1))")
      case True
      let ?st2 = "say v (''  registered: '' @ ?nm @ '' @ 0x'' @ hex_nat (nat off)) (?st1\<lparr>ps_writes := snd (append_to_file y UPROBE_EVENTS ?cmd (ps_writes ?st1))\<rparr>)"
      have reg: "register_target y v lib t st = enable_probe y v t ?st2"
        using Some False True by (simp add: register_target_def Let_def case_prod_beta)
      have ws: "ps_writes ?st2 = ps_writes ?st1 @ [(UPROBE_EVENTS, ?cmd @ NL)]"
        using True by (auto simp: append_to_file_def Let_def split: if_splits)
      have st2: "kernel_state (ps_writes ?st2) S = (kernel_state (ps_writes st) S)(?nm \<mapsto> False)"
        unfolding ws by (simp only: kernel_state_append kernel_state_simps dropped probe_cmd_adds [OF ok] fun_upd_same fun_upd_upd)
      have room: "length (ps_reg ?st2) < MAX_PROBES" "ps_seen ?st2 = ps_seen st @ [?nm]" "ps_reg ?st2 = ps_reg st" using inv(5) assms(2) by simp_all
      have there: "kernel_state (ps_writes ?st2) S ?nm \<noteq> None" unfolding st2 by simp
      note effect = enable_probe_effect [OF ok room(1) there, of y v]
      obtain b where b: "kernel_state (ps_writes (enable_probe y v t ?st2)) S = (kernel_state (ps_writes st) S)(?nm \<mapsto> b)"
        using effect(1) unfolding st2 by auto
      have names: "reg_names (enable_probe y v t ?st2) = insert ?nm (reg_names st)" using effect(3) room(3) by (simp add: reg_names_def)
      have seen: "ps_seen (enable_probe y v t ?st2) = ps_seen st @ [?nm]" using effect(2) room(2) by simp
      have "length (ps_reg (enable_probe y v t ?st2)) \<le> length (ts @ [t])" using effect(4) room(3) inv(5) by simp
      then show ?thesis unfolding reg reg_inv_def b names seen using inv loc by auto
    next
      case fails: False
      then have "\<exists>msg. register_target y v lib t st = say v msg ?st1"
        using Some False by (auto simp: register_target_def Let_def case_prod_beta)
      then obtain msg where reg: "register_target y v lib t st = say v msg ?st1" by blast
      have "reg_names ?st1 = reg_names st" by (simp add: reg_names_def)
      then have names: "reg_names (say v msg ?st1) = reg_names st" by (simp add: reg_names_def)
      have w: "kernel_state (ps_writes (say v msg ?st1)) S = (kernel_state (ps_writes st) S)(?nm := None)" using dropped by simp
      have seen: "ps_seen (say v msg ?st1) = ps_seen st @ [?nm]" "length (ps_reg (say v msg ?st1)) \<le> length (ts @ [t])" using inv(5) by simp_all
      show ?thesis unfolding reg reg_inv_def w names seen(1) using inv loc fresh seen(2) by auto
    qed
  qed
qed

lemma register_fold:
  assumes "kernel_rules y S" "set ts' \<subseteq> set probe_targets" "length ts + length ts' \<le> MAX_PROBES" "reg_inv y lib S B ts st"
  shows "reg_inv y lib S B (ts @ ts') (fold (register_target y v lib) ts' st)"
  using assms(2-)
proof (induction ts' arbitrary: ts st)
  case (Cons t ts')
  have "reg_inv y lib S B (ts @ [t]) (register_target y v lib t st)" using Cons.prems assms(1) by (intro register_target_step) auto
  then show ?case using Cons.IH [of "ts @ [t]" "register_target y v lib t st"] Cons.prems by simp
qed simp

lemma cleanup_removes:
  assumes "kernel_rules y S"
  shows "pe_name ` set es \<subseteq> probe_name ` set probe_targets \<Longrightarrow>
    kernel_state (cleanup_uprobes y es ws) S = (kernel_state ws S) |` (- (pe_name ` set es))"
proof (induction es arbitrary: ws)
  case Nil
  then show ?case by (simp add: cleanup_uprobes_def)
next
  case (Cons x es)
  obtain t where t: "pe_name x = probe_name t" "t \<in> set probe_targets" using Cons.prems by auto
  have step: "cleanup_uprobes y (x # es) ws = cleanup_uprobes y es (drop_stale y (pe_name x) ws)" by (simp add: cleanup_uprobes_def)
  have "kernel_state (cleanup_uprobes y (x # es) ws) S = (kernel_state (drop_stale y (pe_name x) ws) S) |` (- (pe_name ` set es))"
    unfolding step using Cons by simp
  then show ?case unfolding t(1) drop_stale_removes [OF assms t(2)] by (auto simp: fun_eq_iff restrict_map_def t(1))
qed

lemma registered_names:
  assumes "kernel_rules y S"
  shows "reg_inv y lib S (kernel_state ws S) probe_targets (register_uprobes y v lib ws)"
proof -
  let ?st0 = "\<lparr>ps_seen = [], ps_reg = [], ps_writes = ws, ps_err = ''''\<rparr>"
  have "length ([] :: probe_target list) + length probe_targets \<le> MAX_PROBES" by code_simp
  moreover have "reg_inv y lib S (kernel_state ws S) [] ?st0" by (simp add: reg_inv_def reg_names_def located_def)
  ultimately show ?thesis unfolding register_uprobes_def using register_fold [OF assms, of probe_targets "[]"] by fastforce
qed

lemma located_targets: "located y lib probe_targets \<subseteq> probe_name ` set probe_targets"
  by (auto simp: located_def)

lemma cleanup_restores:
  assumes "kernel_rules y S"
  shows "kernel_state (cleanup_uprobes y (ps_reg (register_uprobes y v lib ws)) (ps_writes (register_uprobes y v lib ws))) S
    = (kernel_state ws S) |` (- located y lib probe_targets)"
proof -
  let ?st = "register_uprobes y v lib ws"
  note inv = registered_names [OF assms, of lib ws v, unfolded reg_inv_def reg_names_def]
  have "kernel_state (cleanup_uprobes y (ps_reg ?st) (ps_writes ?st)) S = (kernel_state (ps_writes ?st) S) |` (- (pe_name ` set (ps_reg ?st)))"
    using inv located_targets by (intro cleanup_removes [OF assms]) blast
  moreover have "((kernel_state (ps_writes ?st) S) |` (- (pe_name ` set (ps_reg ?st)))) nm = ((kernel_state ws S) |` (- located y lib probe_targets)) nm" for nm
    using inv by (cases "nm \<in> located y lib probe_targets") (auto simp: restrict_map_def)
  ultimately show ?thesis by (simp add: fun_eq_iff)
qed

section \<open>Properties\<close>

text \<open>
  A symbol is located in the output of \<^verbatim>\<open>nm -D --defined-only\<close>: if lines of the form \<^verbatim>\<open>address type name@version\<close>
  are printed, the offset found is the address of the first line with exactly this name and an address
  other than 0; a symbol with the searched name as a proper prefix (\<^verbatim>\<open>SSL_read_ex\<close> for \<^verbatim>\<open>SSL_read\<close>) is
  never taken, and \<^verbatim>\<open>objdump\<close> is not consulted.
\<close>

theorem nm_symbol_found:
  assumes "run_cmd y ''nm'' [''nm'', ''-D'', ''--defined-only'', lib] = Some (nm_output xs)"
    and "list_all nm_ok xs" "list_all wordc sy" "sy \<noteq> ''''" "nm_lookup xs sy = Some v"
  shows "symbol_offset y lib sy = Some v"
proof -
  have "nm_output xs \<noteq> ''''" using assms(5) by (cases xs) (auto simp: nm_output_def nm_lookup_def)
  then show ?thesis using assms(1) sym_match_nm [OF assms(2-5)] by (simp add: symbol_offset_def)
qed

definition sample_syms :: "nm_sym list" where
  "sample_syms =
     [\<lparr>nm_addr = ''0000000000038a10'', nm_type = CHR ''T'', nm_name = ''SSL_read_ex'', nm_version = ''@@OPENSSL_3.0.0''\<rparr>,
      \<lparr>nm_addr = ''0000000000038950'', nm_type = CHR ''T'', nm_name = ''SSL_read'', nm_version = ''@@OPENSSL_3.0.0''\<rparr>]"

text \<open>A kernel that refuses what it documents and nothing else; an earlier run has left an enabled probe.\<close>

definition sample_kprobes :: kprobes where
  "sample_kprobes = [''tls_read_SSL_read'' \<mapsto> True, ''other'' \<mapsto> True]"

definition strict_kernel :: "kprobes \<Rightarrow> writes \<Rightarrow> string \<Rightarrow> string \<Rightarrow> bool" where
  "strict_kernel S ws p l =
     (if p = UPROBE_EVENTS then prefix ''-:uprobes/'' l \<and> kernel_state ws S (word_of (drop 10 l)) \<noteq> Some False
      else case enable_name p of None \<Rightarrow> False | Some nm \<Rightarrow> kernel_state ws S nm = None)"

lemma strict_kernel_rules: "s_refused y = strict_kernel S \<Longrightarrow> kernel_rules y S"
  unfolding kernel_rules_def Let_def
proof (intro allI ballI)
  fix ws t assume y: "s_refused y = strict_kernel S" and t: "t \<in> set probe_targets"
  have ok: "name_ok (probe_name t)" using t by (rule target_names)
  have rm: "remove_cmd (probe_name t) @ NL = ''-:uprobes/'' @ probe_name t @ CHR 0x0A # ''''" using ok by (simp add: remove_cmd_def name_ok_def)
  have "word_of (probe_name t @ CHR 0x0A # '''') = probe_name t" using ok by (rule word_of_line) (simp add: isspace_def)
  then have "s_refused y ws UPROBE_EVENTS (remove_cmd (probe_name t) @ NL) \<longleftrightarrow> kernel_state ws S (probe_name t) \<noteq> Some False"
    unfolding y strict_kernel_def rm by simp
  moreover have "kernel_state ws S (probe_name t) \<noteq> Some False \<longleftrightarrow> kernel_state ws S (probe_name t) = None \<or> kernel_state ws S (probe_name t) = Some True"
    by (cases "kernel_state ws S (probe_name t)") auto
  moreover have "s_refused y ws (control_path (probe_name t) ''enable'') ''0'' \<longleftrightarrow> kernel_state ws S (probe_name t) = None"
    unfolding y strict_kernel_def by (simp add: control_path_other enable_name_path [OF ok])
  ultimately show "(s_refused y ws UPROBE_EVENTS (remove_cmd (probe_name t) @ NL)
        \<longleftrightarrow> kernel_state ws S (probe_name t) = None \<or> kernel_state ws S (probe_name t) = Some True)
      \<and> (s_refused y ws (control_path (probe_name t) ''enable'') ''0'' \<longleftrightarrow> kernel_state ws S (probe_name t) = None)"
    by blast
qed

definition sample_tls_sys :: tls_sys where
  "sample_tls_sys = \<lparr>s_exists = (\<lambda>_. False), s_run = (\<lambda>p a. if p = ''/usr/bin/nm'' then Some (nm_output sample_syms) else None),
     s_refused = strict_kernel sample_kprobes, s_errno = (\<lambda>_ _ _. '''')\<rparr>"

lemma sample_rules: "kernel_rules sample_tls_sys sample_kprobes"
  by (rule strict_kernel_rules) (simp add: sample_tls_sys_def)

lemma nm_symbol_found_witness: "symbol_offset sample_tls_sys ''/lib/libssl.so.3'' ''SSL_read'' = Some 231760"
proof (rule nm_symbol_found [of _ _ sample_syms])
  show "run_cmd sample_tls_sys ''nm'' [''nm'', ''-D'', ''--defined-only'', ''/lib/libssl.so.3''] = Some (nm_output sample_syms)"
    by (simp add: run_cmd_def must_look_path_def look_dirs_def sample_tls_sys_def PATH_MAX_def)
  show "list_all nm_ok sample_syms" by code_simp
  show "list_all wordc ''SSL_read''" by code_simp
  show "nm_lookup sample_syms ''SSL_read'' = Some 231760"
    by (simp add: nm_lookup_def sample_syms_def nm_value_def num_of_def hex_val_def)
qed simp

text \<open>
  The probes do not outlive the tracer: while it runs, the kernel holds of the located targets exactly
  the probes in the table \<^verbatim>\<open>registered\<close> (left-overs of an earlier run that could not be registered again are
  gone), and after \<^verbatim>\<open>cleanup_uprobes\<close> none of them, with the probes of any other name untouched. The
  kernel refuses removals and disabling as it documents; adding and enabling may fail.
\<close>

theorem probes_cleaned_up:
  assumes "kernel_rules y S"
  shows "let st = register_uprobes y v lib ws; here = located y lib probe_targets
    in dom (kernel_state (ps_writes st) S) \<inter> here = reg_names st
      \<and> kernel_state (cleanup_uprobes y (ps_reg st) (ps_writes st)) S = (kernel_state ws S) |` (- here)"
  using registered_names [OF assms, of lib ws v] cleanup_restores [OF assms, of v lib ws] by (auto simp: reg_inv_def Let_def)

lemma probes_cleaned_up_witness:
  "let st = register_uprobes sample_tls_sys True ''/lib/libssl.so.3'' []; here = located sample_tls_sys ''/lib/libssl.so.3'' probe_targets
    in dom (kernel_state (ps_writes st) sample_kprobes) \<inter> here = reg_names st
      \<and> kernel_state (cleanup_uprobes sample_tls_sys (ps_reg st) (ps_writes st)) sample_kprobes = (kernel_state [] sample_kprobes) |` (- here)"
  by (rule probes_cleaned_up) (rule sample_rules)

end
