(* ===== verification/Tls_Lines.thy ===== *)
theory Tls_Lines
  imports Tls_Events Tls_Probe
begin

text \<open>
  The lines of the kernel's trace pipe (\<^verbatim>\<open>src/c/tls.c\<close>, \<open>parse_line\<close>): what the kernel prints for a probe of
  the tracer is read back, and what is printed for a thread with a blank in its name is not; the pairs
  of process and host are reported once.
\<close>

section \<open>Reading a trace line\<close>

lemma split_at_last: "a @ c # b = a' @ c # b' \<Longrightarrow> c \<notin> set b \<Longrightarrow> c \<notin> set b' \<Longrightarrow> a = a' \<and> b = b'"
  using split_at [of "rev b" c "rev a" "rev b'" "rev a'"] by (metis rev.simps(2) rev_append rev_rev_ident append_Cons append_assoc append_Nil set_rev)

lemma two_separators:
  assumes "u @ c # v = A @ c # N @ c # R" "c \<notin> set A" "c \<notin> set N" "c \<notin> set R"
  shows "(u = A \<and> v = N @ c # R) \<or> (u = A @ c # N \<and> v = R)"
proof (cases "c \<in> set u")
  case False
  then show ?thesis using split_at [OF assms(1)] assms(2) by simp
next
  case True
  then obtain u1 u2 where u: "u = u1 @ c # u2" "c \<notin> set u1" by (metis split_list_first)
  then have 1: "u1 = A" "u2 @ c # v = N @ c # R" using split_at [of u1 c "u2 @ c # v" A "N @ c # R"] assms(1,2) by auto
  have "c \<notin> set u2"
  proof
    assume "c \<in> set u2"
    then obtain u3 u4 where "u2 = u3 @ c # u4" "c \<notin> set u3" by (metis split_list_first)
    then have "u4 @ c # v = R" using split_at [of u3 c "u4 @ c # v" N R] 1(2) assms(3) by simp
    then show False using assms(4) by auto
  qed
  then have "u2 = N \<and> v = R" using split_at [OF 1(2)] assms(3) by blast
  then show ?thesis using u 1 by simp
qed

text \<open>The last word of a text.\<close>

lemma last_word_unique:
  assumes "x @ s @ w = x' @ s' @ w'" "s \<noteq> ''''" "s' \<noteq> ''''" "list_all isspace s" "list_all isspace s'"
    and "\<forall>c \<in> set w. \<not> isspace c" "\<forall>c \<in> set w'. \<not> isspace c"
  shows "w = w'"
proof -
  have "rev w @ rev (x @ s) = rev w' @ rev (x' @ s')" using assms(1) by (simp flip: rev_append)
  moreover have "isspace (hd (rev (x @ s)))" "isspace (hd (rev (x' @ s')))"
    using assms(2-5) by (simp_all add: hd_rev list_all_iff)
  ultimately have "rev w = rev w'" using span_unique [of "rev w" "rev (x @ s)" "rev w'" "rev (x' @ s')" "\<lambda>c. \<not> isspace c"] assms(6,7) by auto
  then show ?thesis by simp
qed

definition dotdig :: "char \<Rightarrow> bool" where
  "dotdig c \<longleftrightarrow> isdigit c \<or> c = CHR ''.''"

text \<open>The shape of a line: blanks, the command, its process, the processor, flags, the time, the probe
  and what the kernel prints behind it.\<close>

record trace_line =
  l_pre :: string
  l_comm :: string
  l_pid :: nat
  l_gap :: string
  l_cpu :: string
  l_flags :: string
  l_sep :: string
  l_time :: string
  l_probe :: string
  l_args :: string

definition line_text :: "trace_line \<Rightarrow> string" where
  "line_text x = l_pre x @ l_comm x @ ''-'' @ dec_nat (l_pid x) @ l_gap x @ ''['' @ l_cpu x @ '']'' @ l_flags x @ l_sep x @ l_time x
     @ '':'' @ '' '' @ ''tls_'' @ l_probe x @ '':'' @ l_args x"

definition trace_ok :: "trace_line \<Rightarrow> bool" where
  "trace_ok x \<longleftrightarrow> list_all isspace (l_pre x) \<and> l_comm x \<noteq> '''' \<and> list_all (\<lambda>c. \<not> isspace c) (l_comm x) \<and> length (l_comm x) < 256
     \<and> l_pid x < 2147483648 \<and> l_gap x \<noteq> '''' \<and> list_all isspace (l_gap x) \<and> l_cpu x \<noteq> '''' \<and> list_all isdigit (l_cpu x)
     \<and> CHR '':'' \<notin> set (l_flags x) \<and> l_sep x \<noteq> '''' \<and> list_all isspace (l_sep x) \<and> l_time x \<noteq> '''' \<and> list_all dotdig (l_time x)
     \<and> length (l_time x) < 32 \<and> l_probe x \<noteq> '''' \<and> list_all wordc (l_probe x) \<and> length (l_probe x) < 60 \<and> CHR '':'' \<notin> set (l_args x)"

lemma plain_chars:
  "isdigit c \<Longrightarrow> \<not> isspace c \<and> c \<noteq> CHR ''-'' \<and> c \<noteq> CHR '':'' \<and> c \<noteq> CHR '']'' \<and> c \<noteq> CHR ''[''"
  "dotdig c \<Longrightarrow> \<not> isspace c \<and> c \<noteq> CHR '':''" "isspace c \<Longrightarrow> c \<noteq> CHR '':'' \<and> c \<noteq> CHR ''('' \<and> c \<noteq> CHR ''[''"
  "wordc c \<Longrightarrow> \<not> isspace c \<and> c \<noteq> CHR '':''"
  by (auto simp: isdigit_def isspace_def dotdig_def wordc_def)

abbreviation line_parts :: "trace_line \<Rightarrow> string list" where
  "line_parts x \<equiv> [l_pre x, l_comm x, ''-'', dec_nat (l_pid x), l_gap x, '''', ''['', l_cpu x, '']'', l_flags x, l_sep x, l_time x, '':'', '' '', ''tls_'', l_probe x]"

lemma line_parts_match: "trace_ok x \<Longrightarrow> rx_parts trace_re (line_parts x) e"
  using dec_nat_digits by (auto simp: trace_re_def trace_ok_def list_all_iff dotdig_def isspace_def)

lemma line_parts_text: "concat (line_parts x) @ '':'' @ l_args x = line_text x"
  by (simp add: line_text_def)

lemma parts_of_line:
  assumes "trace_ok x" "concat ws @ t' = line_text x" "rx_parts trace_re ws (t' = '''')" "length (concat (line_parts x)) \<le> length (concat ws)"
  shows "ws ! 1 = l_comm x \<and> ws ! 3 = dec_nat (l_pid x) \<and> ws ! 11 = l_time x \<and> ws ! 14 @ ws ! 15 = ''tls_'' @ l_probe x"
proof -
  have ok: "\<forall>c \<in> set (l_pre x). isspace c" "l_comm x \<noteq> ''''" "\<forall>c \<in> set (l_comm x). \<not> isspace c" "l_gap x \<noteq> ''''" "\<forall>c \<in> set (l_gap x). isspace c"
    "l_cpu x \<noteq> ''''" "\<forall>c \<in> set (l_cpu x). isdigit c" "CHR '':'' \<notin> set (l_flags x)" "l_sep x \<noteq> ''''" "list_all isspace (l_sep x)"
    "l_time x \<noteq> ''''" "\<forall>c \<in> set (l_time x). dotdig c" "\<forall>c \<in> set (l_probe x). wordc c" "CHR '':'' \<notin> set (l_args x)"
    using assms(1) by (auto simp: trace_ok_def list_all_iff)
  have pid: "\<forall>c \<in> set (dec_nat (l_pid x)). isdigit c" using dec_nat_digits by blast
  obtain a b p s m c y s2 tm s3 w where ws: "ws = [a, b, ''-'', p, s, m, ''['', c, '']'', y, s2, tm, '':'', s3, ''tls_'', w]"
    and a: "\<forall>c \<in> set a. isspace c" and b: "b \<noteq> ''''" "\<forall>c \<in> set b. \<not> isspace c" and p: "p \<noteq> ''''" "\<forall>c \<in> set p. isdigit c"
    and s: "s \<noteq> ''''" "\<forall>c \<in> set s. isspace c" and m: "m = '''' \<or> (\<exists>r. m = CHR ''('' # r)"
    and c: "c \<noteq> ''''" "\<forall>d \<in> set c. isdigit d" and s2: "s2 \<noteq> ''''" "list_all isspace s2"
    and tm: "tm \<noteq> ''''" "\<forall>c \<in> set tm. dotdig c" and s3: "s3 \<noteq> ''''" "\<forall>c \<in> set s3. isspace c" and w: "w \<noteq> ''''" "\<forall>c \<in> set w. wordc c"
    using assms(3) by (auto simp: trace_re_def rx_parts_Cons rx_parts_Nil list_all_iff dotdig_def rx_match_Cat simp del: rx_match.simps(5))
  let ?Z = "s3 @ ''tls_'' @ w @ t'"
  let ?R = "'' '' @ ''tls_'' @ l_probe x @ '':'' @ l_args x"
  let ?Y = "y @ s2 @ tm @ '':'' @ ?Z"
  let ?L = "l_flags x @ l_sep x @ l_time x @ '':'' @ ?R"
  have line: "a @ (b @ ''-'' @ p @ s @ m @ ''['' @ c @ '']'' @ ?Y) = l_pre x @ (l_comm x @ ''-'' @ dec_nat (l_pid x) @ l_gap x @ ''['' @ l_cpu x @ '']'' @ ?L)"
    using assms(2) by (simp add: line_text_def ws)
  have hd1: "\<not> isspace (hd (b @ z))" "\<not> isspace (hd (l_comm x @ z))" for z using b ok(2,3) by simp_all
  have 1: "b @ ''-'' @ p @ s @ m @ ''['' @ c @ '']'' @ ?Y = l_comm x @ ''-'' @ dec_nat (l_pid x) @ l_gap x @ ''['' @ l_cpu x @ '']'' @ ?L"
    using span_unique [OF line, of isspace] a ok(1) hd1 by blast
  have hd2: "isspace (hd (s @ z))" "isspace (hd (l_gap x @ z))" for z using s ok(4,5) by simp_all
  have e2: "(b @ ''-'' @ p) @ (s @ m @ ''['' @ c @ '']'' @ ?Y) = (l_comm x @ ''-'' @ dec_nat (l_pid x)) @ (l_gap x @ ''['' @ l_cpu x @ '']'' @ ?L)" using 1 by simp
  have minus: "\<not> isspace (CHR ''-'')" by (simp add: isspace_def)
  have np: "\<forall>c \<in> set p. \<not> isspace c" "\<forall>c \<in> set (dec_nat (l_pid x)). \<not> isspace c" using p(2) pid plain_chars(1) by blast+
  have plain: "\<forall>c \<in> set (b @ ''-'' @ p). \<not> isspace c" "\<forall>c \<in> set (l_comm x @ ''-'' @ dec_nat (l_pid x)). \<not> isspace c"
    using b(2) ok(3) np minus by (simp_all only: ball_Un set_append list.set ball_simps simp_thms)
  have 2: "b @ ''-'' @ p = l_comm x @ ''-'' @ dec_nat (l_pid x)" "s @ m @ ''['' @ c @ '']'' @ ?Y = l_gap x @ ''['' @ l_cpu x @ '']'' @ ?L"
    using span_unique [OF e2 plain] hd2 by simp_all
  have bp: "b = l_comm x" "p = dec_nat (l_pid x)"
    using 2(1) split_at_last [of b "CHR ''-''" p "l_comm x" "dec_nat (l_pid x)"] p(2) pid plain_chars by auto
  have "\<not> isspace (hd (m @ ''['' @ z))" for z using m by (auto simp: isspace_def)
  then have "s = l_gap x \<and> m @ ''['' @ c @ '']'' @ ?Y = ''['' @ l_cpu x @ '']'' @ ?L"
    using 2(2) s(2) ok(5) by (intro span_unique [where P = isspace]) (auto simp: isspace_def)
  then have 3: "c @ ('']'' @ ?Y) = l_cpu x @ ('']'' @ ?L)" using m by auto
  have 4: "?Y = ?L" using span_unique [OF 3, of isdigit] c(2) ok(7) by (simp add: isdigit_def)
  have colon: "\<not> isspace (CHR '':'')" "\<not> dotdig (CHR '':'')" "\<not> wordc (CHR '':'')" by (simp_all add: isspace_def dotdig_def wordc_def isdigit_def)
  have nocolon: "CHR '':'' \<notin> set (l_flags x @ l_sep x @ l_time x)" "CHR '':'' \<notin> set ('' '' @ ''tls_'' @ l_probe x)"
    using ok(8,10,12,13) colon by (auto simp: list_all_iff)
  have "(y @ s2 @ tm) @ CHR '':'' # ?Z = (l_flags x @ l_sep x @ l_time x) @ CHR '':'' # ('' '' @ ''tls_'' @ l_probe x) @ CHR '':'' # l_args x"
    using 4 by simp
  from two_separators [OF this nocolon ok(14)] consider
    (first) "y @ s2 @ tm = l_flags x @ l_sep x @ l_time x" "?Z = ?R"
    | (second) "y @ s2 @ tm = (l_flags x @ l_sep x @ l_time x @ '':'') @ '' '' @ ''tls_'' @ l_probe x" by auto
  then have "tm = l_time x \<and> ''tls_'' @ w = ''tls_'' @ l_probe x"
  proof cases
    case first
    have "tm = l_time x" using last_word_unique [OF first(1) s2(1) ok(9) s2(2) ok(10)] tm(2) ok(12) plain_chars by blast
    have "s3 = '' '' \<and> ''tls_'' @ w @ t' = ''tls_'' @ l_probe x @ '':'' @ l_args x"
      using first(2) s3(2) by (intro span_unique [where P = isspace]) (auto simp: isspace_def)
    then have eqs: "s3 = '' ''" "w @ t' = l_probe x @ '':'' @ l_args x" by simp_all
    have "length (concat ws @ t') = length (concat (line_parts x) @ '':'' @ l_args x)" using assms(2) line_parts_text [of x] by simp
    then have "length t' \<le> length ('':'' @ l_args x)" using assms(4) unfolding length_append by linarith
    moreover have "length (w @ t') = length (l_probe x @ '':'' @ l_args x)" using eqs(2) by simp
    ultimately have "length (l_probe x) \<le> length w" unfolding length_append by linarith
    then have "w = l_probe x @ drop (length (l_probe x)) w"
      using arg_cong [OF eqs(2), of "take (length (l_probe x))"] append_take_drop_id [of "length (l_probe x)" w] by simp
    then obtain r where r: "w = l_probe x @ r" by blast
    have "CHR '':'' \<notin> set r" using w(2) colon(3) unfolding r by auto
    moreover have "r @ t' = '':'' @ l_args x" using eqs(2) r by simp
    ultimately have "r = ''''" by (cases r) auto
    then show ?thesis using \<open>tm = l_time x\<close> r by simp
  next
    case second
    have "tm = ''tls_'' @ l_probe x"
      using last_word_unique [OF second s2(1) _ s2(2)] tm(2) ok(13) plain_chars by (auto simp: isspace_def)
    then show ?thesis using tm(2) by (simp add: dotdig_def isdigit_def)
  qed
  then show ?thesis using bp by (simp add: ws)
qed

lemma trace_line_parts:
  assumes "trace_ok x"
  shows "\<exists>ws. regexec True trace_re (line_text x) = Some ws \<and> ws ! 1 = l_comm x \<and> ws ! 3 = dec_nat (l_pid x) \<and> ws ! 11 = l_time x
    \<and> ws ! 14 @ ws ! 15 = ''tls_'' @ l_probe x"
proof -
  have m: "rx_parts trace_re (line_parts x) ('':'' @ l_args x = '''')" by (rule line_parts_match [OF assms])
  then obtain ws where ws: "rx_at trace_re (line_text x) = Some ws" using rx_at_complete [OF m] unfolding line_parts_text by blast
  then obtain t' where "line_text x = concat ws @ t'" "rx_parts trace_re ws (t' = '''')" using rx_at_sound by metis
  moreover have "length (concat (line_parts x)) \<le> length (concat ws)"
    by (rule rx_at_longest [OF ws _ m]) (simp only: line_parts_text)
  ultimately show ?thesis using parts_of_line [OF assms] ws by (simp add: regexec_def)
qed

section \<open>The quoted server name\<close>

lemma first_some_at: "i < n \<Longrightarrow> \<forall>j < i. f j = None \<Longrightarrow> f i = Some z \<Longrightarrow> first_some f [0..<n] = Some z"
proof -
  assume i: "i < n" "\<forall>j < i. f j = None" "f i = Some z"
  have "[0..<n] = [0..<i] @ i # [Suc i..<n]"
    using i(1) upt_add_eq_append [of 0 i "n - i"] upt_conv_Cons [of i n] by simp
  moreover have "first_some f (xs @ i # ys) = Some z" if "\<forall>j \<in> set xs. f j = None" for xs ys
    using that i(3) by (induction xs) auto
  ultimately show ?thesis using i(2) by simp
qed

abbreviation quote :: char where "quote \<equiv> CHR 0x22"

lemma sni_parts:
  "rx_parts sni_re us e \<Longrightarrow> \<exists>u v. us = [u, ''='' @ [quote], v, [quote]] \<and> (u = ''arg1'' \<or> u = ''sni'') \<and> quote \<notin> set v"
  by (auto simp: sni_re_def rx_parts_Cons rx_parts_Nil list_all_iff)

lemma sni_found:
  assumes "quote \<notin> set a" "k = ''arg1'' \<or> k = ''sni''" "quote \<notin> set host"
  shows "regexec False sni_re (a @ k @ ''='' @ quote # host @ quote # rest) = Some [k, ''='' @ [quote], host, [quote]]"
proof -
  let ?line = "a @ k @ ''='' @ quote # host @ quote # rest"
  let ?us = "[k, ''='' @ [quote], host, [quote]]"
  have m: "rx_parts sni_re ?us e" for e using assms(2,3) by (auto simp: sni_re_def list_all_iff)
  have at: "j = length a \<and> us = ?us" if at_j: "j \<le> length a" "rx_at sni_re (drop j ?line) = Some us" for j us
  proof -
    obtain t' where t': "drop j ?line = concat us @ t'" "rx_parts sni_re us (t' = '''')" using rx_at_sound [OF at_j(2)] by blast
    obtain u v where uv: "us = [u, ''='' @ [quote], v, [quote]]" "u = ''arg1'' \<or> u = ''sni''" "quote \<notin> set v" using sni_parts [OF t'(2)] by blast
    have e: "(drop j a @ k @ ''='') @ quote # (host @ quote # rest) = (u @ ''='') @ quote # (v @ quote # t')"
      using t'(1) at_j(1) by (simp add: uv(1))
    have "quote \<notin> set (drop j a)" using assms(1) in_set_dropD [of quote j a] by blast
    moreover have "quote \<notin> set k" "quote \<notin> set u" using assms(2) uv(2) by auto
    ultimately have no: "quote \<notin> set (drop j a @ k @ ''='')" "quote \<notin> set (u @ ''='')" by simp_all
    have eqs: "drop j a @ k = u" "host @ quote # rest = v @ quote # t'" using split_at [OF e no] by simp_all
    have "length (drop j a) + length k = length u" using eqs(1) by (metis length_append)
    then have "drop j a = '''' \<or> k = ''sni'' \<and> u = ''arg1'' \<and> length (drop j a) = 1" using assms(2) uv(2) by auto
    then have "drop j a = ''''" using eqs(1) by (auto simp: length_Suc_conv numeral_eq_Suc simp del: length_drop)
    moreover have "host = v" using split_at [OF eqs(2) assms(3) uv(3)] by simp
    ultimately show ?thesis using at_j(1) eqs(1) uv(1) by simp
  qed
  have none: "\<forall>j < length a. rx_at sni_re (drop j ?line) = None" using at by (metis less_imp_le_nat nat_neq_iff not_None_eq)
  have "concat ?us @ rest = drop (length a) ?line" by simp
  then obtain us where "rx_at sni_re (drop (length a) ?line) = Some us" using rx_at_complete [OF m, of rest] by metis
  then have "rx_at sni_re (drop (length a) ?line) = Some ?us" using at by blast
  moreover have "length a < Suc (length ?line)" by simp
  ultimately show ?thesis unfolding regexec_def if_False using first_some_at [OF _ none] by blast
qed

lemma sni_absent: "quote \<notin> set line \<Longrightarrow> regexec False sni_re line = None"
proof (rule ccontr)
  assume a: "quote \<notin> set line" "regexec False sni_re line \<noteq> None"
  then obtain us where "regexec False sni_re line = Some us" by blast
  then obtain j where "rx_at sni_re (drop j line) = Some us" using first_some_Some unfolding regexec_def by fastforce
  then obtain t' where "drop j line = concat us @ t'" "rx_parts sni_re us (t' = '''')" using rx_at_sound by blast
  moreover from sni_parts [OF this(2)] have "quote \<in> set (concat us)" by auto
  ultimately have "quote \<in> set (drop j line)" by simp
  then show False using a(1) in_set_dropD by fast
qed

section \<open>The lines of the kernel\<close>

text \<open>
  A line of the trace pipe as the kernel's documentation shows it: the command in 16 columns and the
  process in 7, the processor, the flags, the time in seconds and microseconds, the probe with its address (for a
  return probe the return address and the function) and its arguments, each with its name: a number, a string in
  quotes, or \<open>(fault)\<close> for a string that could not be read.
\<close>

datatype arg_val = Num nat | Str string | Fault

record kernel_event =
  k_comm :: string
  k_pid :: nat
  k_cpu :: nat
  k_flags :: string
  k_secs :: nat
  k_usecs :: nat
  k_probe :: string
  k_addr :: string
  k_args :: "(string \<times> arg_val) list"

fun arg_text :: "arg_val \<Rightarrow> string" where
  "arg_text (Num n) = dec_nat n"
| "arg_text (Str s) = quote # s @ [quote]"
| "arg_text Fault = ''(fault)''"

definition args_text :: "(string \<times> arg_val) list \<Rightarrow> string" where
  "args_text as = concat (map (\<lambda>(k, v). '' '' @ k @ ''='' @ arg_text v) as)"

definition kernel_args :: "kernel_event \<Rightarrow> string" where
  "kernel_args x = '' ('' @ k_addr x @ '')'' @ args_text (k_args x)"

definition kernel_line :: "kernel_event \<Rightarrow> string" where
  "kernel_line x = pad_left 16 (k_comm x) @ ''-'' @ pad_right 7 (dec_nat (k_pid x)) @ '' ['' @ zero_pad 3 (dec_nat (k_cpu x)) @ ''] '' @ k_flags x
     @ '' '' @ pad_left 5 (dec_nat (k_secs x)) @ ''.'' @ zero_pad 6 (dec_nat (k_usecs x)) @ '': '' @ k_probe x @ '':'' @ kernel_args x"

definition unquoted :: "string \<Rightarrow> bool" where
  "unquoted s \<longleftrightarrow> quote \<notin> set s \<and> CHR '':'' \<notin> set s"

definition kernel_ok :: "kernel_event \<Rightarrow> bool" where
  "kernel_ok x \<longleftrightarrow> k_comm x \<noteq> '''' \<and> length (k_comm x) < 16 \<and> quote \<notin> set (k_comm x) \<and> k_pid x < 2147483648
     \<and> unquoted (k_flags x) \<and> k_secs x < 10 ^ 9 \<and> k_usecs x < 10 ^ 6 \<and> unquoted (k_addr x)"

text \<open>
  The arguments a probe was defined with: words \<^verbatim>\<open>NAME=FETCH:TYPE\<close>, or \<^verbatim>\<open>FETCH:TYPE\<close>, which the kernel names by its
  position. The values fit their types; the strings are the server names, without quotes and colons.
\<close>

definition arg_specs :: "probe_target \<Rightarrow> (string \<times> string) list" where
  "arg_specs t = map (\<lambda>(i, w). (case strchr w (CHR ''='') of Some j \<Rightarrow> take j w | None \<Rightarrow> ''arg'' @ dec_nat i,
       case strrchr w (CHR '':'') of Some j \<Rightarrow> drop (j + 1) w | None \<Rightarrow> '''')) (enumerate 1 (strtok '' '' (pt_extra t)))"

fun type_fits :: "string \<Rightarrow> arg_val \<Rightarrow> bool" where
  "type_fits ty (Num n) \<longleftrightarrow> ty = ''u64''"
| "type_fits ty (Str s) \<longleftrightarrow> ty = ''string'' \<and> unquoted s"
| "type_fits ty Fault \<longleftrightarrow> ty = ''string''"

definition args_fit :: "probe_target \<Rightarrow> (string \<times> arg_val) list \<Rightarrow> bool" where
  "args_fit t as \<longleftrightarrow> list_all2 (\<lambda>(nm, ty) (k, v). k = nm \<and> type_fits ty v) (arg_specs t) as"

text \<open>The string among the arguments, which comes last.\<close>

definition last_string :: "(string \<times> arg_val) list \<Rightarrow> string" where
  "last_string as = (if as = [] then '''' else case snd (last as) of Str s \<Rightarrow> s | _ \<Rightarrow> '''')"

text \<open>What the reader relies on: the quotes are those of one string, named \<^verbatim>\<open>arg1\<close> or \<^verbatim>\<open>sni\<close>.\<close>

definition args_plain :: "(string \<times> arg_val) list \<Rightarrow> bool" where
  "args_plain as \<longleftrightarrow> CHR '':'' \<notin> set (args_text as) \<and>
     (quote \<notin> set (args_text as) \<and> last_string as = '''' \<or>
      (\<exists>a k. args_text as = a @ k @ ''='' @ quote # last_string as @ [quote] \<and> quote \<notin> set a \<and> (k = ''arg1'' \<or> k = ''sni'')
         \<and> quote \<notin> set (last_string as)))"

lemma arg_specs_known:
  "t \<in> set probe_targets \<Longrightarrow> arg_specs t = [] \<or> arg_specs t = [(''arg1'', ''string'')] \<or> arg_specs t = [(''cmd'', ''u64''), (''sni'', ''string'')]"
proof -
  have "list_all (\<lambda>t. arg_specs t = [] \<or> arg_specs t = [(''arg1'', ''string'')] \<or> arg_specs t = [(''cmd'', ''u64''), (''sni'', ''string'')]) probe_targets"
    by code_simp
  then show "t \<in> set probe_targets \<Longrightarrow> ?thesis" unfolding list_all_iff by blast
qed

lemma args_fit_plain:
  assumes "t \<in> set probe_targets" "args_fit t as"
  shows "args_plain as"
proof -
  have dig: "quote \<notin> set (dec_nat n)" "CHR '':'' \<notin> set (dec_nat n)" for n by (auto simp: isdigit_def dest!: dec_nat_digits)
  have str: "args_plain (as0 @ [(k, v)])"
    if "args_text as0 = a0" "quote \<notin> set a0" "CHR '':'' \<notin> set a0" "k = ''arg1'' \<or> k = ''sni''" "type_fits ''string'' v" for as0 a0 k v
  proof -
    have at: "args_text (as0 @ [(k, v)]) = (a0 @ '' '') @ k @ ''='' @ arg_text v" using that(1) by (simp add: args_text_def)
    have colon: "CHR '':'' \<notin> set (args_text (as0 @ [(k, v)]))" unfolding at using that by (cases v) (auto simp: unquoted_def)
    show ?thesis
    proof (cases v)
      case (Str s)
      have "last_string (as0 @ [(k, v)]) = s" by (simp add: last_string_def Str)
      moreover from this have "args_text (as0 @ [(k, v)]) = (a0 @ '' '') @ k @ ''='' @ quote # last_string (as0 @ [(k, v)]) @ [quote]"
        unfolding at by (simp add: Str)
      moreover have "quote \<notin> set (a0 @ '' '')" "quote \<notin> set s" using that Str by (simp_all add: unquoted_def)
      ultimately show ?thesis unfolding args_plain_def using colon that(4) by blast
    next
      case Fault
      then have "quote \<notin> set (args_text (as0 @ [(k, v)]))" unfolding at using that by auto
      then show ?thesis unfolding args_plain_def using colon by (simp add: last_string_def Fault)
    qed (use that(5) in simp)
  qed
  from arg_specs_known [OF assms(1)] consider "as = []" | v where "as = [] @ [(''arg1'', v)]" "type_fits ''string'' v"
    | n v where "as = [(''cmd'', Num n)] @ [(''sni'', v)]" "type_fits ''string'' v"
  proof (elim disjE)
    assume "arg_specs t = [(''cmd'', ''u64''), (''sni'', ''string'')]"
    then obtain u v where as: "as = [(''cmd'', u), (''sni'', v)]" "type_fits ''u64'' u" "type_fits ''string'' v"
      using assms(2) by (auto simp: args_fit_def list_all2_Cons1)
    then show ?thesis using that(3) by (cases u) auto
  qed (use assms(2) that(1,2) in \<open>auto simp: args_fit_def list_all2_Cons1\<close>)
  then show ?thesis
  proof cases
    case 1
    then show ?thesis by (simp add: args_plain_def args_text_def last_string_def)
  next
    case (2 v)
    then show ?thesis using str [of "[]" "''''"] by (simp add: args_text_def)
  next
    case (3 n v)
    show ?thesis unfolding 3(1) by (rule str [OF refl]) (use 3(2) dig in \<open>simp_all add: args_text_def\<close>)
  qed
qed

definition kernel_parts :: "kernel_event \<Rightarrow> trace_line" where
  "kernel_parts x = \<lparr>l_pre = replicate (16 - length (k_comm x)) CHR '' '', l_comm = k_comm x, l_pid = k_pid x,
     l_gap = replicate (7 - length (dec_nat (k_pid x))) CHR '' '' @ '' '', l_cpu = zero_pad 3 (dec_nat (k_cpu x)), l_flags = '' '' @ k_flags x,
     l_sep = '' '' @ replicate (5 - length (dec_nat (k_secs x))) CHR '' '', l_time = dec_nat (k_secs x) @ ''.'' @ zero_pad 6 (dec_nat (k_usecs x)),
     l_probe = drop 4 (k_probe x), l_args = kernel_args x\<rparr>"

definition pname_ok :: "string \<Rightarrow> bool" where
  "pname_ok p \<longleftrightarrow> prefix ''tls_'' p \<and> 4 < length p \<and> length p < 64 \<and> list_all wordc p"

lemma kernel_line_text:
  assumes "pname_ok (k_probe x)"
  shows "kernel_line x = line_text (kernel_parts x)"
proof -
  obtain r where "k_probe x = ''tls_'' @ r" using assms unfolding pname_ok_def prefix_def by blast
  then show ?thesis by (simp add: kernel_line_def line_text_def kernel_parts_def pad_left_def pad_right_def)
qed

lemma zero_pad_digits: "c \<in> set (zero_pad n (dec_nat k)) \<Longrightarrow> isdigit c"
proof -
  have "isdigit (CHR ''0'')" by (simp add: isdigit_def)
  then show "c \<in> set (zero_pad n (dec_nat k)) \<Longrightarrow> isdigit c" by (auto simp: zero_pad_def dest: dec_nat_digits)
qed

lemma length_zero_pad: "length (zero_pad n s) = max n (length s)"
  by (simp add: zero_pad_def)

lemma kernel_parts_ok:
  assumes "kernel_ok x" "pname_ok (k_probe x)" "list_all (\<lambda>c. \<not> isspace c) (k_comm x)" "args_plain (k_args x)"
  shows "trace_ok (kernel_parts x)"
proof -
  have len: "length (dec_nat (k_secs x)) \<le> 9" "length (dec_nat (k_usecs x)) \<le> 6"
    using length_dec_nat [of "k_secs x" 8] length_dec_nat [of "k_usecs x" 5] assms(1) by (simp_all add: kernel_ok_def)
  have sp: "isspace (CHR '' '')" by (simp add: isspace_def)
  have args: "CHR '':'' \<notin> set (kernel_args x)" using assms(1,4) by (auto simp: kernel_ok_def kernel_args_def unquoted_def args_plain_def)
  have tm: "list_all dotdig (l_time (kernel_parts x))" using dec_nat_digits zero_pad_digits by (fastforce simp: kernel_parts_def list_all_iff dotdig_def)
  have cpu: "l_cpu (kernel_parts x) \<noteq> ''''" "list_all isdigit (l_cpu (kernel_parts x))"
    using zero_pad_digits by (auto simp: kernel_parts_def list_all_iff zero_pad_def)
  have word4: "list_all wordc s \<Longrightarrow> list_all wordc (drop 4 s)" for s using in_set_dropD unfolding list_all_iff by fast
  have probe: "l_probe (kernel_parts x) \<noteq> ''''" "list_all wordc (l_probe (kernel_parts x))" "length (l_probe (kernel_parts x)) < 60"
    using assms(2) word4 by (simp_all add: kernel_parts_def pname_ok_def less_diff_conv2)
  show ?thesis unfolding trace_ok_def using assms(1,3) len args tm cpu probe
    by (auto simp: kernel_parts_def kernel_ok_def list_all_iff sp unquoted_def length_zero_pad)
qed

lemma num_of_zeros: "num_of b (replicate n 0 @ ds) = num_of b ds"
  by (induction n) (simp_all add: num_of_def)

lemma num_of_append: "num_of b (xs @ ys) = num_of b xs * b ^ length ys + num_of b ys"
proof (induction ys rule: rev_induct)
  case (snoc y ys)
  then show ?case unfolding append_assoc [symmetric] num_of_snoc by (simp add: algebra_simps)
qed simp

lemma time_value:
  assumes "s < 10 ^ 9" "u < 10 ^ 6"
  shows "strtod_dots (dec_nat s @ ''.'' @ zero_pad 6 (dec_nat u)) = dbl (s * 1000000 + u, 1000000)"
proof -
  let ?f = "zero_pad 6 (dec_nat u)"
  have dig: "takeWhile isdigit (dec_nat s @ CHR ''.'' # r) = dec_nat s" "dropWhile isdigit (dec_nat s @ CHR ''.'' # r) = CHR ''.'' # r" for r
    using takeWhile_dropWhile_run [of "dec_nat s" isdigit "CHR ''.'' # r", OF dec_nat_digits] by simp_all
  have f: "takeWhile isdigit ?f = ?f" using zero_pad_digits by (simp add: takeWhile_eq_all_conv)
  have len: "length ?f = 6" using length_dec_nat [of u 5] assms(2) by (simp add: length_zero_pad)
  have "num_of 10 (map dec_val ?f) = u" by (simp add: zero_pad_def num_of_zeros dec_val_def)
  then have "num_of 10 (map dec_val (dec_nat s @ ?f)) = s * 1000000 + u" using len by (simp add: num_of_append)
  then show ?thesis by (simp add: strtod_dots_def Let_def dig f len)
qed

lemma kernel_line_event:
  assumes "kernel_ok x" "pname_ok (k_probe x)" "list_all (\<lambda>c. \<not> isspace c) (k_comm x)" "args_plain (k_args x)"
  shows "parse_line (kernel_line x) = Some \<lparr>ev_comm = k_comm x, ev_pid = int (k_pid x), ev_ts = dbl (k_secs x * 1000000 + k_usecs x, 1000000),
    ev_probe = k_probe x, ev_dir = dir_of (k_probe x),
    ev_sni = (if strstr (k_probe x) ''_sni'' = None then '''' else take 255 (last_string (k_args x)))\<rparr>"
proof -
  let ?p = "kernel_parts x"
  obtain ws where ws: "regexec True trace_re (kernel_line x) = Some ws" "ws ! 1 = k_comm x" "ws ! 3 = dec_nat (k_pid x)"
      "ws ! 11 = dec_nat (k_secs x) @ ''.'' @ zero_pad 6 (dec_nat (k_usecs x))" "ws ! 14 @ ws ! 15 = ''tls_'' @ drop 4 (k_probe x)"
    using trace_line_parts [OF kernel_parts_ok [OF assms]] kernel_line_text [OF assms(2)] by (auto simp: kernel_parts_def)
  have probe: "take 63 (ws ! 14 @ ws ! 15) = k_probe x" using ws(5) assms(2) by (auto simp: pname_ok_def prefix_def)
  have len: "length (dec_nat (k_secs x)) \<le> 9" "length (dec_nat (k_usecs x)) \<le> 6" "length (dec_nat (k_pid x)) \<le> 10"
    using length_dec_nat [of "k_secs x" 8] length_dec_nat [of "k_usecs x" 5] length_dec_nat [of "k_pid x" 9] assms(1) by (simp_all add: kernel_ok_def)
  have comm: "take 255 (ws ! 1) = k_comm x" using ws(2) assms(1) by (simp add: kernel_ok_def)
  have pid: "atoi (take 31 (ws ! 3)) = int (k_pid x)" using ws(3) len(3) atoi_dec_nat [of "k_pid x" "''''"] assms(1) by (simp add: kernel_ok_def)
  have tm: "strtod_dots (take 31 (ws ! 11)) = dbl (k_secs x * 1000000 + k_usecs x, 1000000)"
    using ws(4) len time_value assms(1) by (simp add: kernel_ok_def length_zero_pad)
  have sni: "(case regexec False sni_re (kernel_line x) of None \<Rightarrow> '''' | Some us \<Rightarrow> take 255 (us ! 2)) = take 255 (last_string (k_args x))"
  proof -
    let ?a = "pad_left 16 (k_comm x) @ ''-'' @ pad_right 7 (dec_nat (k_pid x)) @ '' ['' @ zero_pad 3 (dec_nat (k_cpu x)) @ ''] '' @ k_flags x
      @ '' '' @ pad_left 5 (dec_nat (k_secs x)) @ ''.'' @ zero_pad 6 (dec_nat (k_usecs x)) @ '': '' @ k_probe x @ '': ('' @ k_addr x @ '')''"
    have nq: "\<not> isdigit quote" "\<not> wordc quote" by (simp_all add: isdigit_def wordc_def)
    have "quote \<notin> set (k_probe x)" "quote \<notin> set (k_comm x)" "quote \<notin> set (k_flags x)" "quote \<notin> set (k_addr x)" "\<And>n k. quote \<notin> set (zero_pad n (dec_nat k))"
      using assms(1,2) nq zero_pad_digits by (auto simp: pname_ok_def list_all_iff kernel_ok_def unquoted_def)
    then have a: "quote \<notin> set ?a" using nq(1) by (auto simp: pad_left_def pad_right_def)
    have line: "kernel_line x = ?a @ args_text (k_args x)" by (simp add: kernel_line_def kernel_args_def)
    show ?thesis
    proof (cases "quote \<in> set (args_text (k_args x))")
      case False
      then have "last_string (k_args x) = ''''" using assms(4) by (auto simp: args_plain_def)
      moreover have "quote \<notin> set (kernel_line x)" using a False unfolding line by simp
      ultimately show ?thesis using sni_absent by simp
    next
      case True
      then obtain a' k where k: "args_text (k_args x) = a' @ k @ ''='' @ quote # last_string (k_args x) @ [quote]" "quote \<notin> set a'"
        "k = ''arg1'' \<or> k = ''sni''" "quote \<notin> set (last_string (k_args x))" using assms(4) by (auto simp: args_plain_def)
      have "quote \<notin> set (?a @ a')" using a k(2) by simp
      moreover have "kernel_line x = (?a @ a') @ k @ ''='' @ quote # last_string (k_args x) @ quote # ''''" unfolding line k(1) by simp
      ultimately show ?thesis using sni_found [OF _ k(3,4), of "?a @ a'" "''''"] by simp
    qed
  qed
  show ?thesis unfolding parse_line_def ws(1) Let_def option.case probe comm pid tm sni by simp
qed

section \<open>The probes of the tracer\<close>

lemma target_probe:
  assumes "t \<in> set probe_targets"
  shows "pname_ok (probe_name t) \<and> dir_of (probe_name t) = pt_dir t \<and> (strstr (probe_name t) ''_sni'' = None \<longleftrightarrow> pt_dir t \<noteq> ''sni'')"
proof -
  have "list_all (\<lambda>t. pname_ok (probe_name t) \<and> dir_of (probe_name t) = pt_dir t \<and> (strstr (probe_name t) ''_sni'' = None \<longleftrightarrow> pt_dir t \<noteq> ''sni''))
    probe_targets" by code_simp
  then show ?thesis using assms unfolding list_all_iff by blast
qed

text \<open>What any line that is parsed begins with.\<close>

lemma trace_re_head:
  assumes "rx_parts trace_re ws e"
  shows "\<exists>a w s r. concat ws = a @ w @ s @ r \<and> (\<forall>c \<in> set a. isspace c) \<and> w \<noteq> '''' \<and> (\<forall>c \<in> set w. \<not> isspace c)
    \<and> s \<noteq> '''' \<and> (\<forall>c \<in> set s. isspace c) \<and> r \<noteq> '''' \<and> (hd r = CHR ''['' \<or> hd r = CHR ''('')"
proof -
  obtain a b p s m r where ws: "ws = a # b # ''-'' # p # s # m # ''['' # r" and a: "\<forall>c \<in> set a. isspace c" and b: "\<forall>c \<in> set b. \<not> isspace c"
    and p: "\<forall>c \<in> set p. isdigit c" and s: "s \<noteq> ''''" "\<forall>c \<in> set s. isspace c" and m: "m = '''' \<or> (\<exists>r. m = CHR ''('' # r)"
    using assms by (auto simp: trace_re_def rx_parts_Cons rx_parts_Nil list_all_iff rx_match_Cat simp del: rx_match.simps(5))
  have "\<not> isspace (CHR ''-'')" by (simp add: isspace_def)
  then have "\<forall>c \<in> set (b @ ''-'' @ p). \<not> isspace c" using b p plain_chars(1) by (simp add: ball_Un)
  moreover have "concat ws = a @ (b @ ''-'' @ p) @ s @ (m @ ''['' @ concat r)" by (simp add: ws)
  moreover have "hd (m @ ''['' @ concat r) = CHR ''['' \<or> hd (m @ ''['' @ concat r) = CHR ''(''" using m by auto
  ultimately show ?thesis using a s
    by (intro exI [of _ a] exI [of _ "b @ ''-'' @ p"] exI [of _ s] exI [of _ "m @ ''['' @ concat r"]) simp
qed

lemma spaced_comm_unparsed:
  assumes "k_comm x = w1 @ '' '' @ w2" "list_all (\<lambda>c. \<not> isspace c) w1" "w1 \<noteq> ''''"
    and "w2 \<noteq> ''''" "\<not> isspace (hd w2)" "hd w2 \<noteq> CHR ''['' \<and> hd w2 \<noteq> CHR ''(''"
  shows "parse_line (kernel_line x) = None"
proof (rule ccontr)
  assume "parse_line (kernel_line x) \<noteq> None"
  then obtain ws where "rx_at trace_re (kernel_line x) = Some ws" by (auto simp: parse_line_def regexec_def split: option.splits)
  then obtain t' where t': "kernel_line x = concat ws @ t'" "rx_parts trace_re ws (t' = '''')" using rx_at_sound by metis
  obtain a w s r where h: "concat ws = a @ w @ s @ r" "\<forall>c \<in> set a. isspace c" "w \<noteq> ''''" "\<forall>c \<in> set w. \<not> isspace c"
    "s \<noteq> ''''" "\<forall>c \<in> set s. isspace c" "r \<noteq> ''''" "hd r = CHR ''['' \<or> hd r = CHR ''(''" using trace_re_head [OF t'(2)] by blast
  obtain k where k: "kernel_line x = replicate (16 - length (k_comm x)) CHR '' '' @ w1 @ '' '' @ w2 @ k"
    using assms(1) by (simp add: kernel_line_def pad_left_def)
  have hds: "\<not> isspace (hd (w @ z))" "\<not> isspace (hd (w1 @ z))" "isspace (hd (s @ z))" "isspace (hd ('' '' @ z))" "\<not> isspace (hd (w2 @ z))" for z
    using h assms(2-5) by (simp_all add: list_all_iff isspace_def)
  have rep: "\<forall>c \<in> set (replicate n CHR '' ''). isspace c" for n by (simp add: isspace_def)
  have blank: "\<forall>c \<in> set '' ''. isspace c" by (simp add: isspace_def)
  have w1: "\<forall>c \<in> set w1. \<not> isspace c" using assms(2) by (simp add: list_all_iff)
  have "a @ (w @ s @ r @ t') = replicate (16 - length (k_comm x)) CHR '' '' @ (w1 @ '' '' @ w2 @ k)" using t'(1) k h(1) by simp
  from span_unique [OF this h(2) rep] have 1: "w @ (s @ r @ t') = w1 @ ('' '' @ w2 @ k)" using hds by blast
  from span_unique [OF 1 h(4) w1] have 2: "s @ (r @ t') = '' '' @ (w2 @ k)" using hds by blast
  have "\<not> isspace (hd (r @ t'))" using h(7,8) by (auto simp: isspace_def)
  then have "r @ t' = w2 @ k" using span_unique [OF 2 h(6) blank] hds by blast
  then have "hd r = hd w2" using h(7) assms(4) by (metis hd_append2)
  then show False using h(8) assms(6) by auto
qed

section \<open>Claims\<close>

text \<open>
  C30. What the kernel prints for a probe of the tracer, with the arguments that probe was defined with, is read back if the
  command has no blank and no quote in its name: the command, the process, the time (the decimal number rounded to a
  \<^verbatim>\<open>double\<close>), the probe with the direction the table gives its target, and for the probes that deliver a server name the
  text between the quotes, nothing if the kernel could not read it.
\<close>

theorem kernel_line_parsed:
  assumes "kernel_ok x" "t \<in> set probe_targets" "k_probe x = probe_name t" "args_fit t (k_args x)" "list_all (\<lambda>c. \<not> isspace c) (k_comm x)"
  shows "parse_line (kernel_line x) = Some \<lparr>ev_comm = k_comm x, ev_pid = int (k_pid x), ev_ts = dbl (k_secs x * 1000000 + k_usecs x, 1000000),
    ev_probe = probe_name t, ev_dir = pt_dir t, ev_sni = (if pt_dir t \<noteq> ''sni'' then '''' else take 255 (last_string (k_args x)))\<rparr>"
  using kernel_line_event [OF assms(1) _ assms(5) args_fit_plain [OF assms(2,4)]] target_probe [OF assms(2)] assms(3) by simp

definition sample_event :: kernel_event where
  "sample_event = \<lparr>k_comm = ''curl'', k_pid = 4711, k_cpu = 1, k_flags = ''.....'', k_secs = 12345, k_usecs = 678901,
     k_probe = ''tls_sni_SSL_ctrl'', k_addr = ''0x7f53a2'', k_args = [(''cmd'', Num 55), (''sni'', Str ''example.org'')]\<rparr>"

theorem kernel_line_parsed_witness:
  "parse_line (kernel_line sample_event) = Some \<lparr>ev_comm = ''curl'', ev_pid = 4711, ev_ts = dbl (12345678901, 1000000),
     ev_probe = ''tls_sni_SSL_ctrl'', ev_dir = ''sni'', ev_sni = ''example.org''\<rparr>
   \<and> kernel_args sample_event = '' (0x7f53a2) cmd='' @ dec_nat 55 @ '' sni='' @ [quote] @ ''example.org'' @ [quote]"
proof
  define t where "t = target ''SSL_ctrl'' False ''sni'' ''cmd=%si:u64 sni=+0(%cx):string'' ''cmd==55''"
  have "arg_specs (target ''SSL_ctrl'' False ''sni'' ''cmd=%si:u64 sni=+0(%cx):string'' ''cmd==55'') = [(''cmd'', ''u64''), (''sni'', ''string'')]"
    by code_simp
  then have "args_fit t (k_args sample_event)" unfolding args_fit_def t_def by (simp add: sample_event_def unquoted_def)
  moreover have "t \<in> set probe_targets" by (simp add: t_def probe_targets_def)
  moreover have "probe_name t = ''tls_sni_SSL_ctrl''" "pt_dir t = ''sni''" by (simp_all add: t_def probe_name_def target_def)
  moreover have "kernel_ok sample_event" by (simp add: kernel_ok_def sample_event_def unquoted_def)
  moreover have "list_all (\<lambda>c. \<not> isspace c) (k_comm sample_event)" by (simp add: sample_event_def isspace_def)
  moreover have "k_comm sample_event = ''curl''" "k_pid sample_event = 4711" "k_secs sample_event * 1000000 + k_usecs sample_event = 12345678901"
    "last_string (k_args sample_event) = ''example.org''" "k_probe sample_event = ''tls_sni_SSL_ctrl''"
    by (simp_all add: sample_event_def last_string_def)
  ultimately show "parse_line (kernel_line sample_event) = Some \<lparr>ev_comm = ''curl'', ev_pid = 4711, ev_ts = dbl (12345678901, 1000000),
     ev_probe = ''tls_sni_SSL_ctrl'', ev_dir = ''sni'', ev_sni = ''example.org''\<rparr>"
    using kernel_line_parsed [of sample_event t] by (simp only: simp_thms if_False) simp
qed (simp add: kernel_args_def args_text_def sample_event_def)

text \<open>
  C40. A thread with a blank in its name, such as \<^verbatim>\<open>Socket Thread\<close> or \<^verbatim>\<open>Web Content\<close>, is invisible: the pattern takes
  the first word of the line for the command and wants the process behind it, so none of its lines is
  parsed and the event is dropped without a message. This holds for names whose second word does not begin with
  a bracket or parenthesis or a further blank; a name such as \<^verbatim>\<open>x-1 [2] y\<close> can match the pattern.
\<close>

theorem spaced_thread_dropped:
  assumes "k_comm x = w1 @ '' '' @ w2" "list_all (\<lambda>c. \<not> isspace c) w1" "w1 \<noteq> ''''"
    and "w2 \<noteq> ''''" "\<not> isspace (hd w2)" "hd w2 \<noteq> CHR ''['' \<and> hd w2 \<noteq> CHR ''(''"
  shows "tls_line cfg h (kernel_line x) st = Inr st"
  using spaced_comm_unparsed [OF assms] by (simp add: tls_line_def)

theorem spaced_thread_dropped_witness:
  "tls_line \<lparr>tc_color = False, tc_no_rdns = True, tc_watch = []\<rparr> sample_tls_host (kernel_line (sample_event\<lparr>k_comm := ''Web Content''\<rparr>)) \<lparr>ts_sni = Map.empty, ts_conn = Map.empty, ts_count = 0, ts_out = ''''\<rparr>
    = Inr \<lparr>ts_sni = Map.empty, ts_conn = Map.empty, ts_count = 0, ts_out = ''''\<rparr>"
  by (rule spaced_thread_dropped [of _ "''Web''" "''Content''"]) (simp_all add: sample_event_def isspace_def)

text \<open>
  C12. The loop over the trace pipe prints one line for every pair of process and host, when it is first
  heard, in the order of the events, and counts the printed lines. The pairs are those of the reads and
  writes of watched processes, each with the host known when it happened (\<open>heard\<close>); the table has room
  for 4096.
\<close>

theorem tls_pairs_once:
  assumes "list_all (\<lambda>(h, line). line_ok line) xs" "sni_ok (ts_sni st)" "conn_ok (ts_conn st)"
    and "heard cfg xs (ts_sni st) = Inr (es, c)" "card (pairs_seen (ts_conn st) \<union> pair_of ` set es) \<le> MAX_CONN"
  shows "\<exists>st' s. tls_lines cfg xs st = Inr st' \<and> show_events cfg (first_times pair_of (pairs_seen (ts_conn st)) es) = Inr s
    \<and> ts_out st' = ts_out st @ s \<and> ts_count st' = ts_count st + length (first_times pair_of (pairs_seen (ts_conn st)) es)
    \<and> conn_ok (ts_conn st') \<and> pairs_seen (ts_conn st') = pairs_seen (ts_conn st) \<union> pair_of ` set es"
  by (rule tls_lines_once [OF assms])


definition sample_read :: kernel_event where
  "sample_read = sample_event\<lparr>k_probe := ''tls_read_SSL_read'', k_secs := 0, k_usecs := 0, k_args := []\<rparr>"

definition sample_tls_cfg :: tls_cfg where
  "sample_tls_cfg = \<lparr>tc_color = False, tc_no_rdns = True, tc_watch = []\<rparr>"

definition sample_tls_st :: tls_st where
  "sample_tls_st = \<lparr>ts_sni = Map.empty, ts_conn = Map.empty, ts_count = 0, ts_out = ''''\<rparr>"

lemma sample_read_event:
  "parse_line (kernel_line sample_read) = Some \<lparr>ev_comm = ''curl'', ev_pid = 4711, ev_ts = (0, 1), ev_probe = ''tls_read_SSL_read'', ev_dir = ''read'', ev_sni = ''''\<rparr>"
proof -
  have f: "k_comm sample_read = ''curl''" "k_pid sample_read = 4711" "k_secs sample_read * 1000000 + k_usecs sample_read = 0" "k_probe sample_read = ''tls_read_SSL_read''"
    by (simp_all add: sample_read_def sample_event_def)
  have "kernel_ok sample_read" by (simp add: kernel_ok_def sample_read_def sample_event_def unquoted_def)
  moreover have "target ''SSL_read'' False ''read'' '''' '''' \<in> set probe_targets" by (simp add: probe_targets_def)
  from target_probe [OF this] have p: "pname_ok ''tls_read_SSL_read''" "dir_of ''tls_read_SSL_read'' = ''read''" "strstr ''tls_read_SSL_read'' ''_sni'' = None"
    by (simp_all add: probe_name_def target_def)
  moreover have "list_all (\<lambda>c. \<not> isspace c) ''curl''" by (simp add: isspace_def)
  moreover have "dbl (0, 1000000) = (0, 1)" by (simp add: dbl_def)
  moreover have "args_plain (k_args sample_read)" by (simp add: sample_read_def args_plain_def args_text_def last_string_def)
  ultimately show ?thesis using kernel_line_event [of sample_read] unfolding f by simp
qed

theorem tls_pairs_once_witness:
  "\<exists>st' s. tls_lines sample_tls_cfg [(sample_tls_host, kernel_line sample_read), (sample_tls_host, kernel_line sample_read)] sample_tls_st = Inr st'
    \<and> ts_out st' = s \<and> ts_count st' = 1"
proof -
  define ev where "ev = \<lparr>ev_comm = ''curl'', ev_pid = 4711, ev_ts = (0, 1), ev_probe = ''tls_read_SSL_read'', ev_dir = ''read'', ev_sni = ''''\<rparr>"
  let ?xs = "[(sample_tls_host, kernel_line sample_read), (sample_tls_host, kernel_line sample_read)]"
  let ?es = "[(sample_tls_host, ev, ''''), (sample_tls_host, ev, '''')]"
  have p: "parse_line (kernel_line sample_read) = Some ev" using sample_read_event by (simp add: ev_def)
  have ev: "ev_pid ev = 4711" "ev_dir ev = ''read''" "time_ok ev" by (simp_all add: ev_def time_ok_def dbl_def)
  have "get_sni Map.empty 4711 = ''''" using sni_find_None [of Map.empty 4711] by (simp add: get_sni_def)
  then have "remote_host sample_tls_host True Map.empty 4711 300 = ''''"
    by (simp add: remote_host_def remote_from_proc_net_def sample_tls_host_def)
  then have "heard sample_tls_cfg ?xs (ts_sni sample_tls_st) = Inr (?es, Map.empty)"
    by (simp add: p ev sample_tls_cfg_def sample_tls_st_def tls_is_watched_def)
  moreover have "pairs_seen (ts_conn sample_tls_st) = {}" "conn_ok (ts_conn sample_tls_st)" "sni_ok (ts_sni sample_tls_st)"
    by (simp_all add: sample_tls_st_def pairs_seen_def conn_ok_def slots_set_def slots_ok_def sni_ok_def)
  moreover have "list_all (\<lambda>(h, line). line_ok line) ?xs" by (simp add: line_ok_def p ev)
  moreover have "card (pair_of ` set ?es) \<le> MAX_CONN" by (simp add: ev MAX_CONN_def)
  ultimately obtain st' s where "tls_lines sample_tls_cfg ?xs sample_tls_st = Inr st'"
    "ts_count st' = ts_count sample_tls_st + length (first_times pair_of {} ?es)"
    using tls_pairs_once [of ?xs sample_tls_st sample_tls_cfg ?es Map.empty] by auto
  then show ?thesis by (simp add: sample_tls_st_def ev)
qed

end
