(* ===== verification/Usage_Text.thy ===== *)
theory Usage_Text
  imports CLib
begin

text \<open>
  The help texts of the tracers, as their \<^verbatim>\<open>usage\<close> functions print them: one row per call of \<^verbatim>\<open>fprintf\<close>,
  with the format of the source. Characters outside ASCII are their bytes in UTF-8, named after the
  character. \<open>version\<close> is \<^verbatim>\<open>tracep_version\<close>.
\<close>

section \<open>Definitions\<close>

text \<open>\<^verbatim>\<open>fprintf\<close> with a format whose only conversion is \<^verbatim>\<open>%s\<close>.\<close>

fun printf_s :: "string \<Rightarrow> string list \<Rightarrow> string" where
  "printf_s [] ss = []"
| "printf_s [c] ss = [c]"
| "printf_s (c # d # fs) ss =
     (if c = CHR ''%'' \<and> d = CHR ''s'' then (case ss of [] \<Rightarrow> printf_s fs [] | s # ss' \<Rightarrow> s @ printf_s fs ss') else c # printf_s (d # fs) ss)"

definition sgr :: "string \<Rightarrow> string" where "sgr c = [CHR 0x1B] @ ''['' @ c @ ''m''"
definition bold :: string where "bold = sgr ''1''"
definition dim :: string where "dim = sgr ''2''"
definition plain :: string where "plain = sgr ''0''"
definition cyan :: string where "cyan = sgr ''36''"
definition yellow :: string where "yellow = sgr ''33''"
definition green :: string where "green = sgr ''32''"
definition magenta :: string where "magenta = sgr ''35''"

definition g_anticlockwise_downwards_and_upwards_open_circle_arrows :: string where "g_anticlockwise_downwards_and_upwards_open_circle_arrows = [CHR 0xF0, CHR 0x9F, CHR 0x94, CHR 0x84]"
definition g_artist_palette :: string where "g_artist_palette = [CHR 0xF0, CHR 0x9F, CHR 0x8E, CHR 0xA8]"
definition g_bar_chart :: string where "g_bar_chart = [CHR 0xF0, CHR 0x9F, CHR 0x93, CHR 0x8A]"
definition g_bust_in_silhouette :: string where "g_bust_in_silhouette = [CHR 0xF0, CHR 0x9F, CHR 0x91, CHR 0xA4]"
definition g_combining_enclosing_keycap :: string where "g_combining_enclosing_keycap = [CHR 0xEF, CHR 0xB8, CHR 0x8F, CHR 0xE2, CHR 0x83, CHR 0xA3]"
definition g_direct_hit :: string where "g_direct_hit = [CHR 0xF0, CHR 0x9F, CHR 0x8E, CHR 0xAF]"
definition g_electric_light_bulb :: string where "g_electric_light_bulb = [CHR 0xF0, CHR 0x9F, CHR 0x92, CHR 0xA1]"
definition g_em_dash :: string where "g_em_dash = [CHR 0xE2, CHR 0x80, CHR 0x94]"
definition g_face_with_finger_covering_closed_lips :: string where "g_face_with_finger_covering_closed_lips = [CHR 0xF0, CHR 0x9F, CHR 0xA4, CHR 0xAB]"
definition g_file_folder :: string where "g_file_folder = [CHR 0xF0, CHR 0x9F, CHR 0x93, CHR 0x81]"
definition g_globe_with_meridians :: string where "g_globe_with_meridians = [CHR 0xF0, CHR 0x9F, CHR 0x8C, CHR 0x90]"
definition g_herb :: string where "g_herb = [CHR 0xF0, CHR 0x9F, CHR 0x8C, CHR 0xBF]"
definition g_left_pointing_magnifying_glass :: string where "g_left_pointing_magnifying_glass = [CHR 0xF0, CHR 0x9F, CHR 0x94, CHR 0x8D]"
definition g_left_right_arrow :: string where "g_left_right_arrow = [CHR 0xE2, CHR 0x86, CHR 0x94]"
definition g_leftwards_arrow :: string where "g_leftwards_arrow = [CHR 0xE2, CHR 0x86, CHR 0x90]"
definition g_link_symbol :: string where "g_link_symbol = [CHR 0xF0, CHR 0x9F, CHR 0x94, CHR 0x97]"
definition g_lock :: string where "g_lock = [CHR 0xF0, CHR 0x9F, CHR 0x94, CHR 0x92]"
definition g_memo :: string where "g_memo = [CHR 0xF0, CHR 0x9F, CHR 0x93, CHR 0x9D]"
definition g_multiplication_sign :: string where "g_multiplication_sign = [CHR 0xC3, CHR 0x97]"
definition g_no_entry_sign :: string where "g_no_entry_sign = [CHR 0xF0, CHR 0x9F, CHR 0x9A, CHR 0xAB]"
definition g_outbox_tray :: string where "g_outbox_tray = [CHR 0xF0, CHR 0x9F, CHR 0x93, CHR 0xA4]"
definition g_rightwards_arrow :: string where "g_rightwards_arrow = [CHR 0xE2, CHR 0x86, CHR 0x92]"
definition g_rightwards_double_arrow :: string where "g_rightwards_double_arrow = [CHR 0xE2, CHR 0x87, CHR 0x92]"
definition g_speaker_with_cancellation_stroke :: string where "g_speaker_with_cancellation_stroke = [CHR 0xF0, CHR 0x9F, CHR 0x94, CHR 0x87]"
definition g_stopwatch :: string where "g_stopwatch = [CHR 0xE2, CHR 0x8F, CHR 0xB1, CHR 0xEF, CHR 0xB8, CHR 0x8F]"
definition g_timer_clock :: string where "g_timer_clock = [CHR 0xE2, CHR 0x8F, CHR 0xB2, CHR 0xEF, CHR 0xB8, CHR 0x8F]"
definition g_triangular_flag_on_post :: string where "g_triangular_flag_on_post = [CHR 0xF0, CHR 0x9F, CHR 0x9A, CHR 0xA9]"
definition g_warning_sign :: string where "g_warning_sign = [CHR 0xE2, CHR 0x9A, CHR 0xA0]"
definition g_white_large_square :: string where "g_white_large_square = [CHR 0xE2, CHR 0xAC, CHR 0x9C]"

definition exec_usage_rows :: "string list" where
  "exec_usage_rows =
     [printf_s (''  %sUsage:%s'' @ NL) [bold, plain],
      printf_s (''    proc-trace-exec %s[flags]%s %s[-p PID[,PID,...] | CMD...]%s'' @ NL @ NL) [dim, plain, yellow, plain],
      printf_s (''  %sFlags:%s'' @ NL) [bold, plain],
      printf_s (''    '' @ g_artist_palette @ ''  %s-c%s          colorize output %s(auto when stdout is a tty)%s'' @ NL) [yellow, plain, dim, plain],
      printf_s (''    '' @ g_file_folder @ ''  %s-d%s          print cwd of each process'' @ NL) [yellow, plain],
      printf_s (''    '' @ g_herb @ ''  %s-e%s          print environment variables'' @ NL) [yellow, plain],
      printf_s (''    '' @ g_white_large_square @ ''  %s-f%s          flat output %s(no indentation)%s'' @ NL) [yellow, plain, dim, plain],
      printf_s (''    '' @ g_link_symbol @ ''  %s-l%s          print full executable path'' @ NL) [yellow, plain],
      printf_s (''    '' @ g_memo @ ''  %s-o%s %sFILE%s      log output to FILE instead of stdout'' @ NL) [yellow, plain, cyan, plain],
      printf_s (''    '' @ g_direct_hit @ ''  %s-p%s %sPID%s       trace descendants of PID %s(repeat or comma-separate for multiple)%s'' @ NL) [yellow, plain, cyan, plain, dim, plain],
      printf_s (''    '' @ g_face_with_finger_covering_closed_lips @ ''  %s-q%s          suppress arguments'' @ NL) [yellow, plain],
      printf_s (''    '' @ g_speaker_with_cancellation_stroke @ ''  %s-Q%s          suppress error messages'' @ NL) [yellow, plain],
      printf_s (''    '' @ g_stopwatch @ ''   %s-t%s          show exit status + timing'' @ NL) [yellow, plain],
      printf_s (''    '' @ g_bust_in_silhouette @ ''  %s-u%s          print owning user'' @ NL) [yellow, plain],
      printf_s (NL @ ''  %sExamples:%s'' @ NL) [bold, plain],
      printf_s (''    %s# trace a command and all its children%s'' @ NL) [dim, plain],
      printf_s (''    sudo proc-trace-exec %s-ct%s sh -c %s'' @ [CHR 0x27] @ ''make'' @ [CHR 0x27] @ ''%s'' @ NL @ NL) [green, plain, magenta, plain],
      printf_s (''    %s# watch all nginx worker processes%s'' @ NL) [dim, plain],
      printf_s (''    sudo proc-trace-exec %s-p%s $(pgrep nginx | paste -sd,)'' @ NL @ NL) [green, plain],
      printf_s (''    %s# log everything quietly to a file%s'' @ NL) [dim, plain],
      printf_s (''    sudo proc-trace-exec %s-Qo%s /var/log/execs.log'' @ NL @ NL) [green, plain]]"

definition exec_usage :: "string \<Rightarrow> string" where
  "exec_usage version = printf_s (NL @ ''  %s%s'' @ g_left_pointing_magnifying_glass @ '' proc-trace-exec%s %s%s%s '' @ g_em_dash @ '' system-wide exec() tracer for Linux'' @ NL @ NL) [bold, cyan, plain, dim, version, plain] @ concat exec_usage_rows"

definition exec_mac_usage_rows :: "string list" where
  "exec_mac_usage_rows =
     [printf_s (''  %sUsage:%s'' @ NL) [bold, plain],
      printf_s (''    tracep exec %s[flags]%s %s[-p PID[,PID,...] | CMD...]%s'' @ NL @ NL) [dim, plain, yellow, plain],
      printf_s (''  %sFlags:%s'' @ NL) [bold, plain],
      printf_s (''    '' @ g_artist_palette @ ''  %s-c%s          colorize output %s(auto when stdout is a tty)%s'' @ NL) [yellow, plain, dim, plain],
      printf_s (''    '' @ g_file_folder @ ''  %s-d%s          print cwd of each process'' @ NL) [yellow, plain],
      printf_s (''    '' @ g_herb @ ''  %s-e%s          print environment variables'' @ NL) [yellow, plain],
      printf_s (''    '' @ g_white_large_square @ ''  %s-f%s          flat output %s(no indentation)%s'' @ NL) [yellow, plain, dim, plain],
      printf_s (''    '' @ g_timer_clock @ ''   %s-i%s %sMS%s        poll interval in ms %s(default 50)%s'' @ NL) [yellow, plain, cyan, plain, dim, plain],
      printf_s (''    '' @ g_link_symbol @ ''  %s-l%s          print full executable path'' @ NL) [yellow, plain],
      printf_s (''    '' @ g_memo @ ''  %s-o%s %sFILE%s      log output to FILE instead of stdout'' @ NL) [yellow, plain, cyan, plain],
      printf_s (''    '' @ g_direct_hit @ ''  %s-p%s %sPID%s       trace descendants of PID %s(repeat or comma-separate)%s'' @ NL) [yellow, plain, cyan, plain, dim, plain],
      printf_s (''    '' @ g_face_with_finger_covering_closed_lips @ ''  %s-q%s          suppress arguments'' @ NL) [yellow, plain],
      printf_s (''    '' @ g_speaker_with_cancellation_stroke @ ''  %s-Q%s          suppress error messages'' @ NL) [yellow, plain],
      printf_s (''    '' @ g_stopwatch @ ''   %s-t%s          show exit + timing %s(exit code unknown on darwin)%s'' @ NL) [yellow, plain, dim, plain],
      printf_s (''    '' @ g_bust_in_silhouette @ ''  %s-u%s          print owning user'' @ NL) [yellow, plain],
      printf_s (NL @ ''  %sNotes:%s'' @ NL) [bold, plain],
      printf_s (''    %sdarwin has no equivalent of Linux'' @ [CHR 0x27] @ ''s proc connector. This build polls%s'' @ NL) [dim, plain],
      printf_s (''    %sproc_listallpids and diffs snapshots '' @ g_em_dash @ '' processes that exec+exit inside%s'' @ NL) [dim, plain],
      printf_s (''    %sone interval are missed. Lower -i for finer-grained coverage at higher CPU.%s'' @ NL @ NL) [dim, plain],
      printf_s (''  %sExamples:%s'' @ NL) [bold, plain],
      printf_s (''    %s# trace a command and all its children%s'' @ NL) [dim, plain],
      printf_s (''    tracep exec %s-ct%s sh -c %s'' @ [CHR 0x27] @ ''make'' @ [CHR 0x27] @ ''%s'' @ NL @ NL) [green, plain, magenta, plain],
      printf_s (''    %s# 20ms polling, log to file%s'' @ NL) [dim, plain],
      printf_s (''    tracep exec %s-i 20 -Qo%s /tmp/execs.log'' @ NL @ NL) [green, plain]]"

definition exec_mac_usage :: "string \<Rightarrow> string" where
  "exec_mac_usage version = printf_s (NL @ ''  %s%s'' @ g_left_pointing_magnifying_glass @ '' tracep exec%s %s%s%s '' @ g_em_dash @ '' exec() tracer (darwin, polling)'' @ NL @ NL) [bold, cyan, plain, dim, version, plain] @ concat exec_mac_usage_rows"

definition net_usage_rows :: "string list" where
  "net_usage_rows =
     [printf_s (''  %sRequires:%s root or CAP_NET_ADMIN, nf_conntrack kernel module'' @ NL @ NL) [bold, plain],
      printf_s (''  %sUsage:%s'' @ NL) [bold, plain],
      printf_s (''    proc-trace-net %s[flags]%s %s[-p PID[,PID,...] | CMD...]%s'' @ NL @ NL) [dim, plain, yellow, plain],
      printf_s (''  %sFlags:%s'' @ NL) [bold, plain],
      printf_s (''    '' @ g_artist_palette @ ''  %s-c%s          colorize output %s(auto when stdout is a tty)%s'' @ NL) [yellow, plain, dim, plain],
      printf_s (''    '' @ g_stopwatch @ ''   %s-t%s          show connection close events with duration'' @ NL) [yellow, plain],
      printf_s (''    '' @ g_anticlockwise_downwards_and_upwards_open_circle_arrows @ ''  %s-U%s          show TCP state update events %s(ESTABLISHED, FIN_WAIT, ...)%s'' @ NL) [yellow, plain, dim, plain],
      printf_s (''    '' @ g_bust_in_silhouette @ ''  %s-u%s          print owning user of each connection'' @ NL) [yellow, plain],
      printf_s (''    '' @ g_left_pointing_magnifying_glass @ ''  %s-r%s          reverse DNS lookup for remote IPs %s(async, cached)%s'' @ NL) [yellow, plain, dim, plain],
      printf_s (''    4'' @ g_combining_enclosing_keycap @ ''   %s-4%s          IPv4 connections only'' @ NL) [yellow, plain],
      printf_s (''    6'' @ g_combining_enclosing_keycap @ ''   %s-6%s          IPv6 connections only'' @ NL) [yellow, plain],
      printf_s (''    '' @ g_outbox_tray @ ''  %s-O%s          outbound connections only %s(hide inbound/unknown)%s'' @ NL) [yellow, plain, dim, plain],
      printf_s (''    '' @ g_speaker_with_cancellation_stroke @ ''  %s-Q%s          suppress error messages'' @ NL) [yellow, plain],
      printf_s (''    '' @ g_memo @ ''  %s-o%s %sFILE%s      write output to FILE instead of stdout'' @ NL) [yellow, plain, cyan, plain],
      printf_s (''    '' @ g_direct_hit @ ''  %s-p%s %sPID%s       trace PIDs and their descendants %s(comma-separate for multiple)%s'' @ NL) [yellow, plain, cyan, plain, dim, plain],
      printf_s (NL @ ''  %sOutput columns:%s'' @ NL) [bold, plain],
      printf_s (''    PID  COMM         PROTO  SRC_IP:PORT              %s'' @ g_rightwards_arrow @ ''%s  DST_IP:PORT'' @ NL) [cyan, plain],
      printf_s (''    %s'' @ g_rightwards_arrow @ ''%s outbound  %s'' @ g_leftwards_arrow @ ''%s inbound  %s'' @ g_left_right_arrow @ ''%s unknown direction'' @ NL) [cyan, plain, cyan, plain, cyan, plain],
      printf_s (''    %s'' @ g_rightwards_double_arrow @ ''%s TCP state update (with -U)   %s'' @ g_multiplication_sign @ ''%s connection closed (with -t)'' @ NL @ NL) [magenta, plain, yellow, plain],
      printf_s (''  %sExamples:%s'' @ NL) [bold, plain],
      printf_s (''    %s# trace all connections system-wide%s'' @ NL) [dim, plain],
      printf_s (''    sudo proc-trace-net %s-ctu%s'' @ NL @ NL) [green, plain],
      printf_s (''    %s# trace connections made by a command%s'' @ NL) [dim, plain],
      printf_s (''    sudo proc-trace-net %s-ctr%s curl https://example.com'' @ NL @ NL) [green, plain],
      printf_s (''    %s# watch all nginx worker connections%s'' @ NL) [dim, plain],
      printf_s (''    sudo proc-trace-net %s-p%s $(pgrep nginx | paste -sd,)'' @ NL @ NL) [green, plain],
      printf_s (''    %s# log everything to a file%s'' @ NL) [dim, plain],
      printf_s (''    sudo proc-trace-net %s-Qo%s /var/log/connections.log'' @ NL @ NL) [green, plain]]"

definition net_usage :: "string \<Rightarrow> string" where
  "net_usage version = printf_s (NL @ ''  %s%s'' @ g_globe_with_meridians @ '' proc-trace-net%s %s%s%s '' @ g_em_dash @ '' system-wide network connection tracer for Linux'' @ NL @ NL) [bold, cyan, plain, dim, version, plain] @ concat net_usage_rows"

definition net_mac_usage_rows :: "string list" where
  "net_mac_usage_rows =
     [printf_s (''  %sUsage:%s'' @ NL) [bold, plain],
      printf_s (''    tracep net %s[flags]%s %s[-p PID[,PID,...] | CMD...]%s'' @ NL @ NL) [dim, plain, yellow, plain],
      printf_s (''  %sFlags:%s'' @ NL) [bold, plain],
      printf_s (''    '' @ g_artist_palette @ ''  %s-c%s          colorize output'' @ NL) [yellow, plain],
      printf_s (''    '' @ g_timer_clock @ ''   %s-i%s %sMS%s        poll interval in ms %s(default 1000)%s'' @ NL) [yellow, plain, cyan, plain, dim, plain],
      printf_s (''    '' @ g_memo @ ''  %s-o%s %sFILE%s      log output to FILE'' @ NL) [yellow, plain, cyan, plain],
      printf_s (''    '' @ g_direct_hit @ ''  %s-p%s %sPID%s       watch only PID'' @ [CHR 0x27] @ ''s own connections'' @ NL) [yellow, plain, cyan, plain],
      printf_s (''    '' @ g_bust_in_silhouette @ ''  %s-u%s          print owning user'' @ NL) [yellow, plain],
      printf_s (''    '' @ g_speaker_with_cancellation_stroke @ ''  %s-Q%s          suppress error messages'' @ NL) [yellow, plain],
      printf_s (''    %s-t/-U/-r/-4/-6/-O recognized for Linux compatibility (no-op on darwin)%s'' @ NL) [dim, plain],
      printf_s (NL @ ''  %sNotes:%s'' @ NL) [bold, plain],
      printf_s (''    %sdarwin has no netlink conntrack. This build polls `lsof -nP -i` and%s'' @ NL) [dim, plain],
      printf_s (''    %sdiffs snapshots, so short-lived connections may not be observed.%s'' @ NL @ NL) [dim, plain],
      printf_s (''  %sExamples:%s'' @ NL) [bold, plain],
      printf_s (''    %s# trace one PID'' @ [CHR 0x27] @ ''s connections%s'' @ NL) [dim, plain],
      printf_s (''    tracep net %s-c -p%s 1234'' @ NL @ NL) [green, plain],
      printf_s (''    %s# trace a command'' @ [CHR 0x27] @ ''s subtree%s'' @ NL) [dim, plain],
      printf_s (''    tracep net %s-c%s curl %shttps://example.com%s'' @ NL @ NL) [green, plain, magenta, plain]]"

definition net_mac_usage :: "string \<Rightarrow> string" where
  "net_mac_usage version = printf_s (NL @ ''  %s%s'' @ g_globe_with_meridians @ '' tracep net%s %s%s%s '' @ g_em_dash @ '' network-connection tracer (darwin, polling)'' @ NL @ NL) [bold, cyan, plain, dim, version, plain] @ concat net_mac_usage_rows"

definition tls_usage_rows :: "string list" where
  "tls_usage_rows =
     [printf_s (''  %sUsage:%s'' @ NL) [bold, plain],
      printf_s (''    proc-trace-tls %s[flags]%s'' @ NL @ NL) [dim, plain],
      printf_s (''  %sFlags:%s'' @ NL) [bold, plain],
      printf_s (''    '' @ g_artist_palette @ ''  %s-c%s          colorize output %s(auto when stdout is a tty)%s'' @ NL) [yellow, plain, dim, plain],
      printf_s (''    '' @ g_link_symbol @ ''  %s-l%s %sLIB%s      path to libssl.so %s(auto-detected if omitted)%s'' @ NL) [yellow, plain, cyan, plain, dim, plain],
      printf_s (''    '' @ g_memo @ ''  %s-o%s %sFILE%s     log output to FILE instead of stdout'' @ NL) [yellow, plain, cyan, plain],
      printf_s (''    '' @ g_direct_hit @ ''  %s-p%s %sPID%s      trace only PID(s) %s(comma-separated)%s'' @ NL) [yellow, plain, cyan, plain, dim, plain],
      printf_s (''    '' @ g_face_with_finger_covering_closed_lips @ ''  %s-q%s          suppress startup messages'' @ NL) [yellow, plain],
      printf_s (''    '' @ g_speaker_with_cancellation_stroke @ ''  %s-Q%s          suppress error messages'' @ NL) [yellow, plain],
      printf_s (''    '' @ g_no_entry_sign @ ''  %s-R%s          skip reverse DNS %s(show raw IPs)%s'' @ NL) [yellow, plain, dim, plain],
      printf_s (''    '' @ g_bar_chart @ ''  %s-s%s          event summary only'' @ NL) [yellow, plain],
      printf_s (''    '' @ g_left_pointing_magnifying_glass @ ''  %s-v%s          verbose probe registration'' @ NL) [yellow, plain],
      printf_s (NL @ ''  %sExamples:%s'' @ NL) [bold, plain],
      printf_s (''    sudo proc-trace-tls'' @ NL @ NL) [],
      printf_s (''    sudo proc-trace-tls %s-p%s $(pgrep curl)'' @ NL @ NL) [green, plain],
      printf_s (''    sudo proc-trace-tls %s-R%s  %s# raw IPs, no DNS%s'' @ NL @ NL) [green, plain, dim, plain]]"

definition tls_usage :: "string \<Rightarrow> string" where
  "tls_usage version = printf_s (NL @ ''  %s%s'' @ g_lock @ '' proc-trace-tls%s %s%s%s '' @ g_em_dash @ '' plaintext TLS traffic interceptor for Linux'' @ NL @ NL) [bold, cyan, plain, dim, version, plain] @ concat tls_usage_rows"

text \<open>\<open>st\<close> keeps a sequence or drops it: colours are on or off.\<close>

definition dns_example :: "(string \<Rightarrow> string) \<Rightarrow> string \<Rightarrow> string \<Rightarrow> string" where
  "dns_example st c m = printf_s (''  %s%s%s%s%s# %s%s'' @ NL) [st bold, st green, pad_right 52 c, st plain, st dim, m, st plain]"

definition dns_usage_rows :: "(string \<Rightarrow> string) \<Rightarrow> string list" where
  "dns_usage_rows st =
     [printf_s (''%sWatch every DNS query your processes make, in real time.%s'' @ NL @ NL) [(st dim), (st plain)],
      printf_s (''%s%sUSAGE%s'' @ NL) [(st bold), (st yellow), (st plain)],
      printf_s (''  tracep dns [flags] [-- CMD [args...]]'' @ NL @ NL) [],
      printf_s (''%s%s%sFLAGS%s'' @ NL) [(st (g_triangular_flag_on_post @ '' '')), (st bold), (st yellow), (st plain)],
      printf_s (''  %s%s-c%s              %sforce ANSI color output%s'' @ NL) [(st bold), (st cyan), (st plain), (st dim), (st plain)],
      printf_s (''  %s%s-t%s              %sshow timestamp for each query%s'' @ NL) [(st bold), (st cyan), (st plain), (st dim), (st plain)],
      printf_s (''  %s%s-q%s              %squiet '' @ g_em_dash @ '' print only queried hostnames%s'' @ NL) [(st bold), (st cyan), (st plain), (st dim), (st plain)],
      printf_s (''  %s%s-Q%s              %ssuppress error messages%s'' @ NL) [(st bold), (st cyan), (st plain), (st dim), (st plain)],
      printf_s (''  %s%s-f%s              %sflat output '' @ g_em_dash @ '' no column alignment%s'' @ NL) [(st bold), (st cyan), (st plain), (st dim), (st plain)],
      printf_s (''  %s%s-j%s              %sJSON output (one object per line)%s'' @ NL) [(st bold), (st cyan), (st plain), (st dim), (st plain)],
      printf_s (''  %s%s-n%s %sNAME,...%s      only show queries from these process names'' @ NL) [(st bold), (st cyan), (st plain), (st yellow), (st plain)],
      printf_s (''  %s%s-p%s %sPID,...%s       only show queries from these PIDs'' @ NL) [(st bold), (st cyan), (st plain), (st yellow), (st plain)],
      printf_s (''  %s%s-d%s %sDOMAIN%s        only show queries matching this domain substring'' @ NL) [(st bold), (st cyan), (st plain), (st yellow), (st plain)],
      printf_s (''  %s%s-T%s %sTYPE,...%s      only show these DNS record types (e.g. A,AAAA,MX)'' @ NL) [(st bold), (st cyan), (st plain), (st yellow), (st plain)],
      printf_s (''  %s%s-o%s %sFILE%s          append output to FILE instead of stdout'' @ NL @ NL) [(st bold), (st cyan), (st plain), (st yellow), (st plain)],
      printf_s (''%s%s%sEXAMPLES%s'' @ NL) [(st (g_electric_light_bulb @ '' '')), (st bold), (st yellow), (st plain)],
      dns_example st (''sudo tracep dns'') (''system-wide, all processes''),
      dns_example st (''sudo tracep dns -n curl,wget'') (''filter by process name''),
      dns_example st (''sudo tracep dns -p 1234,5678'') (''filter by PID''),
      dns_example st (''sudo tracep dns -d amazonaws.com'') (''filter by domain substring''),
      dns_example st (''sudo tracep dns -T A,AAAA'') (''only show A and AAAA records''),
      dns_example st (''sudo tracep dns -j | jq .'') (''JSON output, pretty-printed''),
      dns_example st (''sudo tracep dns -- curl https://example.com'') (''trace a single command''),
      printf_s (NL @ ''%s%sRequires root or CAP_NET_RAW (Linux) / sudo (macOS).%s'' @ NL @ NL) [(st (g_warning_sign @ '' '')), (st dim), (st plain)]]"

definition dns_usage :: "bool \<Rightarrow> string \<Rightarrow> string" where
  "dns_usage colors version = (let st = (\<lambda>s. if colors then s else '''') in printf_s (NL @ ''%s%sproc-trace-dns%s  %s(v%s)%s'' @ NL) [(st bold), (st cyan), (st plain), (st dim), version, (st plain)] @ concat (dns_usage_rows st))"

end
