(* ===== verification/Tls_Main.thy ===== *)
theory Tls_Main
  imports Tls_Lines Net_Main Dispatch Usage_Text
begin

text \<open>
  The command line of the TLS tracer and its main program (\<^verbatim>\<open>tls_main\<close> of \<^verbatim>\<open>src/c/tls.c\<close>): finding the
  library, switching the kernel's tracing on, registering the probes, reading the trace pipe, and the
  ways it ends. What the system answers is the record \<open>tls_env\<close>, with \<open>tls_host\<close> for the library and
  \<open>tls_sys\<close> for the tracing directory.
\<close>

section \<open>Definitions\<close>

subsection \<open>The command line\<close>

record tls_args =
  ta_watch :: "int list"
  ta_lib :: string
  ta_out :: string
  ta_force :: bool
  ta_quiet :: bool
  ta_errors :: bool
  ta_size_only :: bool
  ta_verbose :: bool
  ta_no_rdns :: bool

definition tls_initial :: tls_args where
  "tls_initial = \<lparr>ta_watch = [], ta_lib = '''', ta_out = '''', ta_force = False, ta_quiet = False, ta_errors = True, ta_size_only = False,
     ta_verbose = False, ta_no_rdns = False\<rparr>"

definition MAX_PIDS :: nat where "MAX_PIDS = 256"

fun tls_pid_items :: "string list \<Rightarrow> int list \<Rightarrow> leave + int list" where
  "tls_pid_items [] ws = Inr ws"
| "tls_pid_items (t # ts) ws =
     (let s = trim_right is_sptab (trim_left is_sptab t)
      in if s = '''' then tls_pid_items ts ws
         else let (v, rest, _) = strtol10 s
              in if rest \<noteq> [] \<or> v \<le> 0 then Inl (Fatal (''-p: invalid PID: '' @ s))
                 else tls_pid_items ts (if length ws < MAX_PIDS then ws @ [to_int32 v] else ws))"

definition tls_flag :: "char \<Rightarrow> (tls_args \<Rightarrow> tls_args) option" where
  "tls_flag ch =
     (if ch = CHR ''c'' then Some (ta_force_update (\<lambda>_. True))
      else if ch = CHR ''q'' then Some (ta_quiet_update (\<lambda>_. True))
      else if ch = CHR ''Q'' then Some (ta_errors_update (\<lambda>_. False))
      else if ch = CHR ''R'' then Some (ta_no_rdns_update (\<lambda>_. True))
      else if ch = CHR ''s'' then Some (ta_size_only_update (\<lambda>_. True))
      else if ch = CHR ''v'' then Some (ta_verbose_update (\<lambda>_. True))
      else None)"

text \<open>The letters of one argument; a letter with a value takes the next argument, and the letters behind
  it are read on.\<close>

fun tls_letters :: "string \<Rightarrow> string list \<Rightarrow> tls_args \<Rightarrow> leave + (string list \<times> tls_args)" where
  "tls_letters [] rest a = Inr (rest, a)"
| "tls_letters (ch # chs) rest a =
     (case tls_flag ch of
        Some f \<Rightarrow> tls_letters chs rest (f a)
      | None \<Rightarrow>
          if ch = CHR ''h'' then Inl UsageText
          else if ch = CHR ''l'' then
            (case rest of [] \<Rightarrow> Inl (Fatal ''-l requires a path'')
             | v # rest' \<Rightarrow> tls_letters chs rest' (a\<lparr>ta_lib := snprintf_s PATH_MAX v\<rparr>))
          else if ch = CHR ''o'' then
            (case rest of [] \<Rightarrow> Inl (Fatal ''-o requires a path'')
             | v # rest' \<Rightarrow> tls_letters chs rest' (a\<lparr>ta_out := snprintf_s PATH_MAX v\<rparr>))
          else if ch = CHR ''p'' then
            (case rest of [] \<Rightarrow> Inl (Fatal ''-p requires a PID list'')
             | v # rest' \<Rightarrow>
                 (case tls_pid_items (strtok '','' v) (ta_watch a) of Inl l \<Rightarrow> Inl l
                  | Inr ws \<Rightarrow> tls_letters chs rest' (a\<lparr>ta_watch := ws\<rparr>)))
          else Inl (Fatal (''unknown flag -'' @ [ch])))"

lemma tls_letters_shorter: "tls_letters chs rest a = Inr (rest', a') \<Longrightarrow> length rest' \<le> length rest"
  by (induction chs rest a rule: tls_letters.induct) (auto split: option.splits if_splits list.splits sum.splits intro!: le_SucI)

function tls_parse :: "string list \<Rightarrow> tls_args \<Rightarrow> leave + tls_args" where
  "tls_parse [] a = Inr a"
| "tls_parse (w # ws) a =
     (if length w < 2 \<or> hd w \<noteq> CHR ''-'' then Inl (Fatal (''unexpected argument: '' @ w))
      else case tls_letters (tl w) ws a of Inl l \<Rightarrow> Inl l
           | Inr (rest, a') \<Rightarrow> tls_parse rest a')"
  by pat_completeness auto
termination
  by (relation "measure (\<lambda>(ws, a). length ws)") (auto dest: tls_letters_shorter)

definition tls_fatal_text :: "string \<Rightarrow> string" where
  "tls_fatal_text msg = ''proc-trace-tls: '' @ msg @ NL"

subsection \<open>The main program\<close>

definition TRACE_ON :: string where "TRACE_ON = TRACING_BASE @ ''/tracing_on''"
definition CURRENT_TRACER :: string where "CURRENT_TRACER = TRACING_BASE @ ''/current_tracer''"

text \<open>\<open>e_pipe\<close> is what the trace pipe delivers, each line with the system it is read in; the loop is left
  when it ends or by a signal.\<close>

record tls_env =
  e_host :: tls_host
  e_sys :: tls_sys
  e_opens :: "string \<Rightarrow> bool"
  e_strerror :: "string \<Rightarrow> string"
  e_tty :: "bool option"
  e_no_color :: "string option"
  e_pipe :: "(tls_host \<times> string) list option"
  e_signal :: bool

record tls_run =
  run_code :: int
  run_err :: string
  run_out :: string
  run_writes :: writes

definition tls_color :: "tls_env \<Rightarrow> tls_args \<Rightarrow> bool" where
  "tls_color e a = (if ta_force a then True else if e_no_color e = None then is_terminal (e_tty e) else False)"

fun pids_text :: "bool \<Rightarrow> int list \<Rightarrow> string \<Rightarrow> string" where
  "pids_text first [] buf = buf"
| "pids_text first (p # ps) buf =
     pids_text False ps (cat_to 1024 buf (snprintf_s 16 ((if first then '''' else '','') @ dec_int p)))"

definition tls_banner :: "string \<Rightarrow> bool \<Rightarrow> string \<Rightarrow> int list \<Rightarrow> string" where
  "tls_banner version cm lib watch =
     clr cm ''96'' (Some (''proc-trace-tls '' @ version)) @ NL @ ''  lib : '' @ clr cm ''2'' (Some lib) @ NL
     @ ''  pids: '' @ (if watch \<noteq> [] then clr cm ''33'' (Some (pids_text True watch '''')) else clr cm ''2'' (Some ''all'')) @ NL @ NL"

definition die :: "string \<Rightarrow> string \<Rightarrow> writes \<Rightarrow> tls_run" where
  "die err msg ws = \<lparr>run_code = 1, run_err = err @ tls_fatal_text msg, run_out = '''', run_writes = ws\<rparr>"

text \<open>\<open>on_sig\<close>: the handler reports the count, removes the probes and ends the program; otherwise the pipe
  has ended and \<^verbatim>\<open>tls_main\<close> returns.\<close>

definition on_sig :: "tls_sys \<Rightarrow> bool \<Rightarrow> nat \<Rightarrow> probe_st \<Rightarrow> string \<times> writes" where
  "on_sig y quiet n st =
     ((if quiet then '''' else NL @ NL @ ''captured '' @ dec_nat n @ '' TLS events'' @ NL), cleanup_uprobes y (ps_reg st) (ps_writes st))"

text \<open>From the registration on; \<open>err\<close> has been written to the error stream.\<close>

definition tls_trace :: "tls_env \<Rightarrow> tls_args \<Rightarrow> string \<Rightarrow> string \<Rightarrow> writes \<Rightarrow> tls_run outcome" where
  "tls_trace e a lib err ws =
     (let err1 = err @ (if ta_verbose a then ''Registering uprobes on '' @ lib @ ''...'' @ NL else '''');
          st = register_uprobes (e_sys e) (ta_verbose a) lib ws; err2 = err1 @ ps_err st
      in if ps_reg st = [] then Inr (die err2 (''no uprobes registered '' @ em_dash @ '' is OpenSSL installed?'') (ps_writes st))
         else let err3 = err2 @ (if ta_quiet a then '''' else ''Watching '' @ dec_nat (length (ps_reg st)) @ '' probe(s). Press Ctrl-C to stop.'' @ NL @ NL)
           in case e_pipe e of
                None \<Rightarrow> Inr (die err3 (''open trace_pipe: '' @ e_strerror e (TRACING_BASE @ ''/trace_pipe'')) (cleanup_uprobes (e_sys e) (ps_reg st) (ps_writes st)))
              | Some lines \<Rightarrow>
                  and_then (tls_lines \<lparr>tc_color = tls_color e a, tc_no_rdns = ta_no_rdns a, tc_watch = ta_watch a\<rparr> lines
                      \<lparr>ts_sni = Map.empty, ts_conn = Map.empty, ts_count = 0, ts_out = ''''\<rparr>)
                    (\<lambda>t. let (bye, ws') = (if e_signal e then on_sig (e_sys e) (ta_quiet a) (ts_count t) st else ('''', ps_writes st))
                         in Inr \<lparr>run_code = 0, run_err = err3 @ bye, run_out = ts_out t, run_writes = ws'\<rparr>))"

definition tls_start :: "string \<Rightarrow> tls_env \<Rightarrow> tls_args \<Rightarrow> string \<Rightarrow> tls_run outcome" where
  "tls_start version e a lib =
     (let y = e_sys e; err = (if ta_quiet a then '''' else tls_banner version (tls_color e a) lib (ta_watch a));
          (ok1, ws1) = write_str y TRACE_ON ''1'' []
      in if \<not> ok1 then Inr (die err (''enable tracing: '' @ s_errno y ws1 TRACE_ON ''1'' @ NL @ ''Are you root? Is debugfs mounted at '' @ TRACING_BASE @ ''?'') ws1)
         else let (ok2, ws2) = write_str y CURRENT_TRACER ''nop'' ws1;
                  warn = (if \<not> ok2 \<and> ta_verbose a then ''  warning: could not set current_tracer to nop: '' @ s_errno y ws2 CURRENT_TRACER ''nop'' @ NL else '''')
              in tls_trace e a lib (err @ warn) ws2)"

definition tls_main :: "string \<Rightarrow> tls_env \<Rightarrow> string list \<Rightarrow> tls_run outcome" where
  "tls_main version e args =
     (case tls_parse args tls_initial of
        Inl UsageText \<Rightarrow> Inr \<lparr>run_code = 1, run_err = tls_usage version, run_out = '''', run_writes = []\<rparr>
      | Inl (Fatal msg) \<Rightarrow> Inr (die '''' msg [])
      | Inr a \<Rightarrow>
          if ta_out a \<noteq> '''' \<and> \<not> e_opens e (ta_out a) then Inr (die '''' (''open '' @ ta_out a @ '': '' @ e_strerror e (ta_out a)) [])
          else case (if ta_lib a = '''' then find_libssl (e_host e) (ta_watch a) PATH_MAX else Some (ta_lib a)) of
                 None \<Rightarrow> Inr (die '''' (''libssl.so not found; use -l to specify'' @ NL @ ''Hint: install openssl or use -l /path/to/libssl.so'') [])
               | Some lib \<Rightarrow> tls_start version e a lib)"

text \<open>On other systems the subcommand only says so.\<close>

definition tls_main_other :: "bool \<Rightarrow> tls_run" where
  "tls_main_other apple =
     (let os = (if apple then ''darwin'' else ''unknown'')
      in \<lparr>run_code = 1, run_err = ''tracep tls: TLS tracing is only supported on Linux (this is '' @ os @ '').'' @ NL
            @ ''Only `tracep ca` and `tracep dns` run on '' @ os @ ''.'' @ NL, run_out = '''', run_writes = []\<rparr>)"


section \<open>What is left in the kernel\<close>

lemma other_files: "enable_name TRACE_ON = None" "enable_name CURRENT_TRACER = None" "TRACE_ON \<noteq> UPROBE_EVENTS" "CURRENT_TRACER \<noteq> UPROBE_EVENTS"
  by (simp_all add: enable_name_def TRACE_ON_def CURRENT_TRACER_def UPROBE_EVENTS_def TRACING_BASE_def Let_def)

lemma write_other: "kernel_write (TRACE_ON, l) S = S" "kernel_state (snd (write_str y CURRENT_TRACER l ws)) S = kernel_state ws S"
  by (simp_all add: write_str_def kernel_write_def other_files)

lemma trace_restores:
  assumes "kernel_rules (e_sys e) S"
    and "tls_trace e a lib err ws = Inr r" "e_pipe e = None \<or> e_signal e"
  shows "kernel_state (run_writes r) S = (kernel_state ws S) |` (- located (e_sys e) lib probe_targets)"
proof -
  let ?st = "register_uprobes (e_sys e) (ta_verbose a) lib ws"
  note clean = cleanup_restores [OF assms(1), of "ta_verbose a" lib ws]
  show ?thesis
  proof (cases "ps_reg ?st = []")
    case True
    then have "run_writes r = ps_writes ?st" using assms(2) by (auto simp: tls_trace_def Let_def die_def)
    then show ?thesis using clean True by (simp add: cleanup_uprobes_def)
  next
    case False
    then have "run_writes r = cleanup_uprobes (e_sys e) (ps_reg ?st) (ps_writes ?st)"
      using assms(2,3) by (auto simp: tls_trace_def Let_def die_def on_sig_def outcome_simps split: option.splits)
    then show ?thesis using clean by simp
  qed
qed

lemma trace_leaves:
  assumes "kernel_rules (e_sys e) S"
    and "tls_trace e a lib err ws = Inr r" "e_pipe e \<noteq> None" "\<not> e_signal e"
  shows "dom (kernel_state (run_writes r) S) \<inter> located (e_sys e) lib probe_targets = reg_names (register_uprobes (e_sys e) (ta_verbose a) lib ws)"
    and "nm \<notin> located (e_sys e) lib probe_targets \<Longrightarrow> kernel_state (run_writes r) S nm = kernel_state ws S nm"
proof -
  let ?st = "register_uprobes (e_sys e) (ta_verbose a) lib ws"
  have "run_writes r = ps_writes ?st"
    using assms(2,3,4) by (auto simp: tls_trace_def Let_def die_def outcome_simps split: option.splits if_splits)
  then show "dom (kernel_state (run_writes r) S) \<inter> located (e_sys e) lib probe_targets = reg_names ?st"
    "nm \<notin> located (e_sys e) lib probe_targets \<Longrightarrow> kernel_state (run_writes r) S nm = kernel_state ws S nm"
    using registered_names [OF assms(1), of lib ws "ta_verbose a"] by (auto simp: reg_inv_def)
qed

lemma mark_all_subset: "set (fst (mark_all f mark xs s)) \<subseteq> set xs"
proof (induction xs arbitrary: s)
  case (Cons x xs)
  show ?case using Cons.IH [of "snd (mark (f x) s)"] by (auto simp: case_prod_beta split: if_splits)
qed simp

lemma tls_lines_total:
  assumes "list_all (\<lambda>(h, line). line_ok line) xs" "sni_ok (ts_sni st)"
  shows "\<exists>st'. tls_lines cfg xs st = Inr st'"
proof -
  obtain es c where es: "heard cfg xs (ts_sni st) = Inr (es, c)" "\<forall>(h, ev, host) \<in> set es. time_ok ev \<and> pair_fits (ev_pid ev, host)"
    using heard_total [OF assms, of cfg] by blast
  obtain rs t where rs: "mark_all pair_of (\<lambda>x. conn_mark (pair_key x)) es (ts_conn st) = (rs, t)" by fastforce
  have "set rs \<subseteq> set es" using mark_all_subset [of pair_of "\<lambda>x. conn_mark (pair_key x)" es "ts_conn st"] by (simp add: rs)
  then obtain s where "show_events cfg rs = Inr s" using show_events_total [of rs cfg] es(2) by blast
  from tls_lines_marks [OF es(1) rs this] show ?thesis by blast
qed

lemma trace_returns:
  assumes "\<forall>lines. e_pipe e = Some lines \<longrightarrow> list_all (\<lambda>(h, line). line_ok line) lines"
  shows "\<exists>r. tls_trace e a lib err ws = Inr r"
proof (cases "e_pipe e")
  case None
  then show ?thesis by (simp add: tls_trace_def Let_def)
next
  case (Some lines)
  then obtain t where "tls_lines \<lparr>tc_color = tls_color e a, tc_no_rdns = ta_no_rdns a, tc_watch = ta_watch a\<rparr> lines
      \<lparr>ts_sni = Map.empty, ts_conn = Map.empty, ts_count = 0, ts_out = ''''\<rparr> = Inr t"
    using tls_lines_total [of lines] assms by (force simp: sni_ok_def)
  then show ?thesis using Some by (simp add: tls_trace_def Let_def case_prod_beta)
qed

text \<open>The probes of the tracer that are there when a run that could switch tracing on is over.\<close>

definition left_over :: "tls_env \<Rightarrow> tls_args \<Rightarrow> string \<Rightarrow> string set" where
  "left_over e a lib =
     (if e_pipe e = None \<or> e_signal e then {} else reg_names (register_uprobes (e_sys e) (ta_verbose a) lib (snd (write_str (e_sys e) CURRENT_TRACER ''nop'' [(TRACE_ON, ''1'')]))))"

lemma start_probes:
  assumes "kernel_rules (e_sys e) S" "\<not> s_refused (e_sys e) [] TRACE_ON ''1''"
    and "\<forall>lines. e_pipe e = Some lines \<longrightarrow> list_all (\<lambda>(h, line). line_ok line) lines"
  shows "\<exists>r. tls_start version e a lib = Inr r \<and> dom (kernel_state (run_writes r) S) \<inter> located (e_sys e) lib probe_targets = left_over e a lib
    \<and> (\<forall>nm. nm \<notin> located (e_sys e) lib probe_targets \<longrightarrow> kernel_state (run_writes r) S nm = S nm)"
proof -
  let ?ws = "snd (write_str (e_sys e) CURRENT_TRACER ''nop'' [(TRACE_ON, ''1'')])"
  have on: "write_str (e_sys e) TRACE_ON ''1'' [] = (True, [(TRACE_ON, ''1'')])" using assms(2) by (simp add: write_str_def)
  obtain err where start: "tls_start version e a lib = tls_trace e a lib err ?ws"
    unfolding tls_start_def Let_def on by (simp add: case_prod_beta)
  obtain r where r: "tls_trace e a lib err ?ws = Inr r" using trace_returns [OF assms(3)] by blast
  have same: "kernel_state ?ws S = S" by (simp add: write_other)
  have "dom (kernel_state (run_writes r) S) \<inter> located (e_sys e) lib probe_targets = left_over e a lib
    \<and> (\<forall>nm. nm \<notin> located (e_sys e) lib probe_targets \<longrightarrow> kernel_state (run_writes r) S nm = S nm)"
  proof (cases "e_pipe e = None \<or> e_signal e")
    case True
    have "kernel_state (run_writes r) S = S |` (- located (e_sys e) lib probe_targets)" using trace_restores [OF assms(1) r True] by (simp add: same)
    then show ?thesis using True by (auto simp: left_over_def)
  next
    case False
    then show ?thesis using trace_leaves [OF assms(1) r] by (auto simp: same left_over_def)
  qed
  then show ?thesis unfolding start r by (intro exI [of _ r] conjI refl) blast+
qed

section \<open>Claims\<close>


definition sample_tls_env :: tls_env where
  "sample_tls_env = \<lparr>e_host = sample_tls_host, e_sys = sample_tls_sys, e_opens = (\<lambda>_. True), e_strerror = (\<lambda>_. ''''), e_tty = None, e_no_color = None,
     e_pipe = Some [(sample_tls_host, kernel_line sample_read)], e_signal = True\<rparr>"


end
