(* ===== verification/Rounding.thy ===== *)
theory Rounding
  imports Complex_Main Double
begin

text \<open>
  How far a rounded double is from the exact value: the relative error of one rounding, and of the
  two roundings of a decimal number that is read and then multiplied, which is how
  \<^verbatim>\<open>src/c/tls.c\<close> turns the time stamp of a trace line into nanoseconds.
\<close>

section \<open>Relative errors\<close>

lemma scale_up_reach: "2 ^ 52 * d \<le> n * 2 ^ b \<Longrightarrow> 2 ^ 52 * d \<le> n * 2 ^ scale_up b n d"
proof (induction b arbitrary: n)
  case (Suc b)
  then show ?case using Suc.IH [of "2 * n"] by (auto simp: ac_simps simp del: power_numeral)
qed simp

lemma scale_up_0: "2 ^ 52 * d \<le> n \<Longrightarrow> scale_up b n d = 0"
  by (cases b) auto

lemma scale_down_bound: "scale_down b n d \<noteq> 0 \<Longrightarrow> 2 ^ 52 * (d * 2 ^ scale_down b n d) \<le> n"
proof (induction b arbitrary: d)
  case (Suc b)
  then have n: "2 ^ 53 * d \<le> n" by (auto split: if_splits)
  show ?case
  proof (cases "scale_down b n (2 * d) = 0")
    case True
    then show ?thesis using n by simp
  next
    case False
    then show ?thesis using n Suc.IH [of "2 * d"] by (simp add: ac_simps)
  qed
qed simp

text \<open>The relative error of a rounding is at most \<open>2\<^sup>-\<^sup>5\<^sup>3\<close>.\<close>

definition near :: "nat \<times> nat \<Rightarrow> nat \<Rightarrow> nat \<Rightarrow> bool" where
  "near x n d \<longleftrightarrow> 0 < snd x \<and> 2 ^ 53 * (n * snd x) \<le> 2 ^ 53 * (fst x * d) + n * snd x \<and> 2 ^ 53 * (fst x * d) \<le> 2 ^ 53 * (n * snd x) + n * snd x"

lemma rhe_scaled:
  assumes "0 < d" "2 ^ 52 * d \<le> n"
  shows "2 ^ 53 * n \<le> 2 ^ 53 * (rhe n d * d) + n \<and> 2 ^ 53 * (rhe n d * d) \<le> 2 ^ 53 * n + n"
  using rhe_near [OF assms(1), of n] assms(2) by (simp add: algebra_simps)

lemma dbl_near:
  assumes "0 < d" "0 < n" "2 ^ 52 * d \<le> n * 2 ^ 1074"
  shows "near (dbl (n, d)) n d"
proof (cases "2 ^ 53 * d \<le> n")
  case True
  define v where "v = scale_down 1024 n d"
  have u: "scale_up 1074 n d = 0" using True by (intro scale_up_0) simp
  have b: "2 ^ 52 * (d * 2 ^ v) \<le> n" using scale_down_bound [of 1024 n d] True by (cases "v = 0") (simp_all add: v_def)
  have "dbl (n, d) = (rhe n (d * 2 ^ v) * 2 ^ v, 1)" using assms(2) by (simp only: dbl_def Let_def prod.case u v_def) simp
  then show ?thesis using rhe_scaled [OF _ b] assms(1) by (simp add: near_def ac_simps del: power_numeral)
next
  case False
  define u where "u = scale_up 1074 n d"
  have b: "2 ^ 52 * d \<le> n * 2 ^ u" unfolding u_def by (rule scale_up_reach) (rule assms(3))
  have "dbl (n, d) = (rhe (n * 2 ^ u) d, 2 ^ u)" using dbl_small [of n d] False assms(2) by (simp add: u_def)
  then show ?thesis using rhe_scaled [OF assms(1) b] by (simp add: near_def ac_simps del: power_numeral)
qed

text \<open>The scaling, once known, computes the rounding.\<close>

lemma scale_up_at: "n * 2 ^ k < 2 ^ 53 * d \<Longrightarrow> 2 ^ 52 * d \<le> n * 2 ^ k \<Longrightarrow> k \<le> b \<Longrightarrow> scale_up b n d = k"
proof (induction k arbitrary: b n)
  case 0
  then show ?case by (simp add: scale_up_0)
next
  case (Suc k)
  have "n * 2 ^ Suc k < 2 * (2 ^ 52 * d)" using Suc.prems(1) by simp
  then have "n * 2 ^ k < 2 ^ 52 * d" by simp
  then have "n < 2 ^ 52 * d" by (metis le_less_trans mult_le_mono2 mult.right_neutral one_le_numeral one_le_power)
  then show ?case using Suc.IH [of "2 * n" "b - 1"] Suc.prems by (cases b) (auto simp: ac_simps)
qed

lemma dbl_at:
  assumes "0 < n" "n * 2 ^ k < 2 ^ 53 * d" "2 ^ 52 * d \<le> n * 2 ^ k" "k \<le> 1074"
  shows "dbl (n, d) = (rhe (n * 2 ^ k) d, 2 ^ k)"
proof -
  have "n \<le> n * 2 ^ k" by simp
  then have "n < 2 ^ 53 * d" using assms(2) by (rule le_less_trans)
  then show ?thesis using dbl_small [of n d] assms(1) scale_up_at [OF assms(2-4)] by simp
qed

lemma dbl_near':
  assumes "0 < d" "0 < n" "d \<le> n * 2 ^ 64"
  shows "near (dbl (n, d)) n d"
proof (rule dbl_near [OF assms(1,2)])
  have "2 ^ 52 * d \<le> 2 ^ 52 * (n * 2 ^ 64)" by (rule mult_le_mono2) (rule assms(3))
  also have "\<dots> = n * 2 ^ 116" by (simp add: ac_simps)
  also have "\<dots> \<le> n * 2 ^ 1074" by (rule mult_le_mono2) (rule power_increasing, simp_all)
  finally show "2 ^ 52 * d \<le> n * 2 ^ 1074" .
qed

text \<open>As a statement about quotients.\<close>

definition quot :: "nat \<times> nat \<Rightarrow> real" where
  "quot x = real (fst x) / real (snd x)"

lemma near_quot: "near x n d \<Longrightarrow> 0 < d \<Longrightarrow> \<bar>quot x - n / d\<bar> \<le> (n / d) / 2 ^ 53"
proof -
  assume x: "near x n d" and d: "0 < d"
  obtain p q where pq: "x = (p, q)" by (cases x)
  have q: "0 < q" and le: "2 ^ 53 * (n * q) \<le> 2 ^ 53 * (p * d) + n * q" "2 ^ 53 * (p * d) \<le> 2 ^ 53 * (n * q) + n * q"
    using x by (simp_all add: near_def pq)
  have "real (2 ^ 53 * (n * q)) \<le> real (2 ^ 53 * (p * d) + n * q)" "real (2 ^ 53 * (p * d)) \<le> real (2 ^ 53 * (n * q) + n * q)"
    using le by (simp_all only: of_nat_le_iff)
  then have "2 ^ 53 * (real n * q) \<le> 2 ^ 53 * (real p * d) + real n * q" "2 ^ 53 * (real p * d) \<le> 2 ^ 53 * (real n * q) + real n * q" by simp_all
  moreover define A B where "A = real p * d" and "B = real n * q"
  ultimately have "2 ^ 53 * B \<le> 2 ^ 53 * A + B" "2 ^ 53 * A \<le> 2 ^ 53 * B + B" by simp_all
  then have "\<bar>A - B\<bar> \<le> B / 2 ^ 53" unfolding abs_le_iff by simp
  then have "\<bar>real p * d - real n * q\<bar> \<le> real n * q / 2 ^ 53" unfolding A_def B_def .
  then have "\<bar>real p * d - real n * q\<bar> / (q * d) \<le> real n * q / 2 ^ 53 / (q * d)" using q d by (intro divide_right_mono) simp_all
  moreover have "(real p * d - real n * q) / (q * d) = quot x - n / d" using q d by (simp add: pq quot_def field_simps)
  then have "\<bar>real p * d - real n * q\<bar> / (q * d) = \<bar>quot x - n / d\<bar>" using q d by (metis abs_divide abs_of_nat of_nat_mult)
  ultimately show ?thesis using q d by (simp add: field_simps)
qed

text \<open>A decimal number of \<open>k\<close> decimals read as a \<^verbatim>\<open>double\<close> and multiplied by a power of ten: two roundings.\<close>

lemma near_twice:
  assumes "0 < n"
  shows "\<bar>quot (dbl (fst (dbl (n, 1000000)) * 1000000000, snd (dbl (n, 1000000)))) - 1000 * real n\<bar> \<le> 3 * (1000 * real n) / 2 ^ 53
    \<and> 0 < snd (dbl (fst (dbl (n, 1000000)) * 1000000000, snd (dbl (n, 1000000))))"
proof -
  obtain p q where x: "dbl (n, 1000000) = (p, q)" by fastforce
  have nx: "near (p, q) n 1000000" using dbl_near' [of 1000000 n] assms x by simp
  then have q: "0 < q" by (simp add: near_def)
  have r: "\<bar>quot (p, q) - real n / 1000000\<bar> \<le> (real n / 1000000) / 2 ^ 53" using near_quot [OF nx] by simp
  define R where "R = quot (p, q)"
  have n: "1 \<le> real n" using assms by simp
  then have R: "1 / 2000000 \<le> R" using r unfolding R_def [symmetric] abs_le_iff by (simp add: field_simps)
  then have p: "0 < p" by (cases p) (simp_all add: quot_def R_def)
  have "real q \<le> real (2000000 * p)" using R q by (simp add: R_def quot_def field_simps)
  then have "q \<le> 2000000 * p" by (simp only: of_nat_le_iff)
  then have "q \<le> p * 1000000000 * 2 ^ 64" by simp
  then have ny: "near (dbl (p * 1000000000, q)) (p * 1000000000) q" using q p by (intro dbl_near') simp_all
  define T where "T = quot (dbl (p * 1000000000, q))"
  have t: "\<bar>T - 1000000000 * R\<bar> \<le> (1000000000 * R) / 2 ^ 53"
    using near_quot [OF ny q] by (simp add: quot_def T_def R_def ac_simps)
  have "\<bar>T - 1000 * real n\<bar> \<le> 3 * (1000 * real n) / 2 ^ 53"
    using t r [folded R_def] n unfolding abs_le_iff by (simp add: field_simps)
  then show ?thesis using ny by (simp add: x near_def T_def)
qed

end
