(* ===== verification/Tls_Time.thy ===== *)
theory Tls_Time
  imports Rounding Tls_Lines
begin

text \<open>
  The time of day the TLS tracer prints (\<^verbatim>\<open>src/c/tls.c\<close>, \<open>print_event\<close>), against the time in the trace line.
\<close>

section \<open>The printed time\<close>

definition trace_nanos :: "nat \<Rightarrow> nat" where
  "trace_nanos n = (let x = dbl (n, 1000000); y = dbl (fst x * 1000000000, snd x) in fst y div snd y)"

lemma nat_div_bounds:
  assumes "0 < b"
  shows "real (a div b) \<le> quot (a, b) \<and> quot (a, b) - 1 \<le> real (a div b)"
proof -
  have "real a = real b * real (a div b) + real (a mod b)" by (metis of_nat_add of_nat_mult mult_div_mod_eq)
  moreover have "real (a mod b) < real b" using assms by simp
  ultimately show ?thesis using assms by (simp add: quot_def field_simps)
qed

lemma trace_nanos_quot:
  assumes "0 < n"
  shows "\<exists>Q. \<bar>Q - 1000 * real n\<bar> \<le> 3 * (1000 * real n) / 2 ^ 53 \<and> real (trace_nanos n) \<le> Q \<and> Q - 1 \<le> real (trace_nanos n)"
proof -
  let ?y = "dbl (fst (dbl (n, 1000000)) * 1000000000, snd (dbl (n, 1000000)))"
  have "trace_nanos n = fst ?y div snd ?y" by (simp add: trace_nanos_def Let_def)
  moreover have "quot (fst ?y, snd ?y) = quot ?y" by simp
  ultimately show ?thesis using near_twice [OF assms] nat_div_bounds [of "snd ?y" "fst ?y"] by metis
qed

lemma trace_nanos_near:
  assumes "0 < n" "n \<le> 10 ^ 13"
  shows "1000 * n \<le> trace_nanos n + 5 \<and> trace_nanos n \<le> 1000 * n + 4"
proof -
  obtain Q where Q: "\<bar>Q - 1000 * real n\<bar> \<le> 3 * (1000 * real n) / 2 ^ 53" "real (trace_nanos n) \<le> Q" "Q - 1 \<le> real (trace_nanos n)"
    using trace_nanos_quot [OF assms(1)] by blast
  have "real n \<le> 10 ^ 13" using assms(2) by (metis of_nat_le_iff of_nat_power of_nat_numeral)
  then have "real (1000 * n) \<le> real (trace_nanos n + 5)" "real (trace_nanos n) \<le> real (1000 * n + 4)" using Q unfolding abs_le_iff by simp_all
  then show ?thesis by (simp only: of_nat_le_iff)
qed

lemma trace_nanos_less:
  assumes "n < 10 ^ 15"
  shows "trace_nanos n < 2 ^ 63"
proof (cases "n = 0")
  case True
  then show ?thesis by (simp add: trace_nanos_def dbl_def)
next
  case False
  then obtain Q where Q: "\<bar>Q - 1000 * real n\<bar> \<le> 3 * (1000 * real n) / 2 ^ 53" "real (trace_nanos n) \<le> Q"
    using trace_nanos_quot [of n] by blast
  have "real n < 10 ^ 15" using assms by (metis of_nat_less_iff of_nat_power of_nat_numeral)
  then have "real (trace_nanos n) < real (2 ^ 63)" using Q unfolding abs_le_iff by simp
  then show ?thesis by (simp only: of_nat_less_iff)
qed

lemma event_time_nanos:
  assumes "n < 10 ^ 15" "t_local h (int (trace_nanos n div 1000000000)) = (hh, mm, ss)"
  shows "event_time h (dbl (n, 1000000)) = Inr (snprintf_s 16 (zero_pad 2 (dec_nat hh) @ '':'' @ zero_pad 2 (dec_nat mm) @ '':'' @ zero_pad 2 (dec_nat ss)
    @ ''.'' @ zero_pad 3 (dec_nat (trace_nanos n mod 1000000000 div 1000000))))"
  using trace_nanos_less [OF assms(1)] assms(2) unfolding event_time_def trace_nanos_def Let_def by (simp del: power_numeral)

lemma kernel_time_ok: "k_secs x < 10 ^ 9 \<Longrightarrow> k_usecs x < 10 ^ 6 \<Longrightarrow> ev_ts ev = dbl (k_secs x * 1000000 + k_usecs x, 1000000) \<Longrightarrow> time_ok ev"
  using trace_nanos_less [of "k_secs x * 1000000 + k_usecs x"] by (simp add: time_ok_def trace_nanos_def Let_def)

definition clock_text :: "tls_host \<Rightarrow> nat \<Rightarrow> string" where
  "clock_text h ms = (let (hh, mm, ss) = t_local h (int (ms div 1000))
     in snprintf_s 16 (zero_pad 2 (dec_nat hh) @ '':'' @ zero_pad 2 (dec_nat mm) @ '':'' @ zero_pad 2 (dec_nat ss) @ ''.'' @ zero_pad 3 (dec_nat (ms mod 1000))))"

lemma event_time_clock:
  assumes "n < 10 ^ 15"
  shows "event_time h (dbl (n, 1000000)) = Inr (clock_text h (trace_nanos n div 1000000))"
proof -
  define z where "z = trace_nanos n"
  obtain hh mm ss where t: "t_local h (int (z div 1000000000)) = (hh, mm, ss)" by (cases "t_local h (int (z div 1000000000))")
  have 1: "z div 1000000 div 1000 = z div 1000000000" by (simp add: div_mult2_eq [symmetric])
  have "z mod 1000000000 = 1000000 * (z div 1000000 mod 1000) + z mod 1000000" using mod_mult2_eq [of z 1000000 1000] by simp
  then have "z mod 1000000000 div 1000000 = z div 1000000 mod 1000" by simp
  then show ?thesis using event_time_nanos [OF assms] t by (simp add: clock_text_def z_def [symmetric] 1)
qed

lemma printed_ms:
  assumes "0 < n" "n \<le> 10 ^ 13"
  shows "trace_nanos n div 1000000 = n div 1000 \<or> (n mod 1000 = 0 \<and> trace_nanos n div 1000000 + 1 = n div 1000)"
proof -
  define k r where "k = n div 1000" and "r = n mod 1000"
  have n: "n = 1000 * k + r" and r: "r < 1000" by (simp_all add: k_def r_def)
  have z: "1000000 * k + 1000 * r \<le> trace_nanos n + 5 \<and> trace_nanos n \<le> 1000000 * k + 1000 * r + 4"
    using trace_nanos_near [OF assms] by (simp add: n algebra_simps)
  show ?thesis
  proof (cases "1000000 * k \<le> trace_nanos n")
    case True
    then have "trace_nanos n div 1000000 = k" using z r by (intro div_nat_eqI) simp_all
    then show ?thesis by (simp add: k_def)
  next
    case False
    then have "r = 0" "0 < k" using z by simp_all
    then have "trace_nanos n div 1000000 = k - 1" using z False by (intro div_nat_eqI) (simp_all add: algebra_simps)
    then show ?thesis using \<open>r = 0\<close> \<open>0 < k\<close> by (simp add: k_def r_def)
  qed
qed

text \<open>
  C38. The time printed for an event is that of its trace line, to the millisecond; only for a time of
  whole milliseconds it can be the millisecond before, because the product with \<open>10\<^sup>9\<close> is rounded and then
  cut off. (The trace clock counts from the start of the system, so what is printed as the time of day
  is the uptime.)
\<close>

theorem printed_time_close:
  assumes "0 < n" "n \<le> 10 ^ 13"
  shows "\<exists>ms. event_time h (dbl (n, 1000000)) = Inr (clock_text h ms) \<and> (ms = n div 1000 \<or> n mod 1000 = 0 \<and> ms + 1 = n div 1000)"
  using event_time_clock [of n h] printed_ms [OF assms] assms(2) by fastforce

theorem printed_time_close_witness:
  "\<exists>ms. event_time sample_tls_host (dbl (1001000, 1000000)) = Inr (clock_text sample_tls_host ms)
     \<and> (ms = 1001000 div 1000 \<or> 1001000 mod 1000 = (0 :: nat) \<and> ms + 1 = 1001000 div 1000)"
  by (rule printed_time_close) simp_all

text \<open>The smallest case: 1.001 seconds are printed as 1.000.\<close>

lemma printed_1001: "trace_nanos 1001000 = 1000999999"
proof -
  have 1: "dbl (1001000, 1000000) = (rhe (1001000 * 2 ^ 52) 1000000, 2 ^ 52)" by (rule dbl_at) simp_all
  have 2: "rhe (1001000 * 2 ^ 52) 1000000 = 4508103226997866" by (simp add: rhe_def)
  have 3: "dbl (4508103226997866 * 1000000000, 2 ^ 52) = (rhe (4508103226997866 * 1000000000 * 2 ^ 23) (2 ^ 52), 2 ^ 23)" by (rule dbl_at) simp_all
  have 4: "rhe (4508103226997866 * 1000000000 * 2 ^ 23) (2 ^ 52) = 8396996607999999" by (simp add: rhe_def)
  show ?thesis unfolding trace_nanos_def 1 2 Let_def fst_conv snd_conv 3 4 by simp
qed

end
