(* ===== verification/Ca_Http.thy ===== *)
theory Ca_Http
  imports Scan
begin

text \<open>
  How \<^verbatim>\<open>src/c/ca.c\<close> downloads a certificate: connecting with a deadline, splitting a URL, one HTTP
  request, and the chain of redirects. The network is the record \<open>ca_net\<close>: name resolution, what becomes of
  a connection attempt, the TLS layer (OpenSSL) and the bytes a server answers. Addresses of buffers do
  not matter, their sizes do: a write behind one is \<open>OutOfBounds\<close>.
\<close>

section \<open>Definitions\<close>

subsection \<open>Connecting\<close>

text \<open>One turn of the wait for a pending connection: the seconds since the start, and what \<^verbatim>\<open>select\<close> says.\<close>

datatype poll = PollIntr | PollFail string | PollTimeout | PollReady "string option"

datatype attempt = NoSocket | Immediate | Rejected | Pending "(int \<times> poll) list"

datatype dialled = Up | TimedOut

text \<open>\<open>None\<close> is a failed attempt after which the next address is tried; \<open>err\<close> is the text in the buffer.\<close>

fun dial_wait :: "int \<Rightarrow> string \<Rightarrow> int \<Rightarrow> (int \<times> poll) list \<Rightarrow> string \<Rightarrow> (dialled option \<times> string) outcome" where
  "dial_wait tmo host port [] err = Inl OutOfFuel"
| "dial_wait tmo host port ((elapsed, s) # turns) err =
     (let say = (\<lambda>e. snprintf_s 256 (''dial tcp '' @ host @ '':'' @ dec_int port @ '': '' @ e))
      in if tmo - elapsed \<le> 0 then Inr (Some TimedOut, say ''i/o timeout'')
         else case s of
           PollIntr \<Rightarrow> dial_wait tmo host port turns err
         | PollFail e \<Rightarrow> Inr (None, say e)
         | PollTimeout \<Rightarrow> Inr (Some TimedOut, say ''i/o timeout'')
         | PollReady None \<Rightarrow> Inr (Some Up, err)
         | PollReady (Some e) \<Rightarrow> Inr (None, say e))"

fun dial_each :: "int \<Rightarrow> string \<Rightarrow> int \<Rightarrow> attempt list \<Rightarrow> string \<Rightarrow> (dialled option \<times> string) outcome" where
  "dial_each tmo host port [] err = Inr (None, err)"
| "dial_each tmo host port (a # as) err =
     (case a of
        NoSocket \<Rightarrow> dial_each tmo host port as err
      | Immediate \<Rightarrow> Inr (Some Up, err)
      | Rejected \<Rightarrow> dial_each tmo host port as err
      | Pending turns \<Rightarrow>
          and_then (dial_wait tmo host port turns err) (\<lambda>(r, err'). if r = None then dial_each tmo host port as err' else Inr (r, err')))"

record ca_net =
  n_lookup :: "string \<Rightarrow> int \<Rightarrow> string + attempt list"       \<comment> \<open>\<^verbatim>\<open>getaddrinfo\<close>: its error, or the addresses\<close>
  n_tls :: "string \<Rightarrow> int \<Rightarrow> string option"                    \<comment> \<open>the error of the TLS layer, if any\<close>
  n_accepts :: "string \<Rightarrow> int \<Rightarrow> string \<Rightarrow> bool"                 \<comment> \<open>the request can be written\<close>
  n_answer :: "string \<Rightarrow> int \<Rightarrow> string \<Rightarrow> string"               \<comment> \<open>the bytes read until the end\<close>

text \<open>\<open>dial\<close>: whether there is a connection, and the text in the error buffer.\<close>

definition dial :: "int \<Rightarrow> ca_net \<Rightarrow> string \<Rightarrow> int \<Rightarrow> string \<Rightarrow> (bool \<times> string) outcome" where
  "dial tmo n host port err =
     (case n_lookup n host port of
        Inl e \<Rightarrow> Inr (False, snprintf_s 256 (''dial tcp: lookup '' @ host @ '': '' @ e))
      | Inr as \<Rightarrow>
          and_then (dial_each tmo host port as err) (\<lambda>(r, err').
            Inr (r = Some Up,
              if r = None \<and> err' = '''' then snprintf_s 256 (''dial tcp '' @ host @ '':'' @ dec_int port @ '': connect failed'') else err')))"

subsection \<open>URLs\<close>

record url_parts =
  u_scheme :: string
  u_host :: string
  u_port :: int
  u_path :: string

text \<open>\<open>cap\<close> is the size the code checks against; \<open>ssz\<close> and \<open>hsz\<close> are those of the buffers for scheme and host.\<close>

definition url_split :: "nat \<Rightarrow> nat \<Rightarrow> nat \<Rightarrow> string \<Rightarrow> url_parts option outcome" where
  "url_split ssz hsz cap url =
     (case strstr url ''://'' of None \<Rightarrow> Inr None
      | Some sl \<Rightarrow>
          if sl \<ge> cap then Inr None
          else if sl \<ge> ssz then Inl OutOfBounds
          else let scheme = take sl url; https = (scheme = ''https'')
            in if \<not> https \<and> scheme \<noteq> ''http'' then Inr None
               else let h = drop (sl + 3) url; auth = takeWhile (\<lambda>c. c \<noteq> CHR ''/'') h; slash = dropWhile (\<lambda>c. c \<noteq> CHR ''/'') h;
                        host = takeWhile (\<lambda>c. c \<noteq> CHR '':'') auth; colon = dropWhile (\<lambda>c. c \<noteq> CHR '':'') h
                 in if length host \<ge> cap then Inr None
                    else if length host \<ge> hsz then Inl OutOfBounds
                    else Inr (Some \<lparr>u_scheme = scheme, u_host = host,
                           u_port = (if CHR '':'' \<in> set auth then atoi (tl colon) else if https then 443 else 80),
                           u_path = (if slash \<noteq> '''' then snprintf_s cap slash else snprintf_s cap ''/'')\<rparr>))"

text \<open>The buffers of the callers: \<^verbatim>\<open>char scheme[16], host[256], path[1024]\<close>.\<close>

abbreviation split_1024 :: "string \<Rightarrow> url_parts option outcome" where
  "split_1024 \<equiv> url_split 16 256 1024"

subsection \<open>One request\<close>

definition CRLF :: string where "CRLF = [CHR 0x0D, CHR 0x0A]"

definition http_request :: "string \<Rightarrow> string \<Rightarrow> string" where
  "http_request path host = ''GET '' @ path @ '' HTTP/1.1'' @ CRLF @ ''Host: '' @ host @ CRLF @ ''User-Agent: tracep'' @ CRLF
     @ ''Accept: */*'' @ CRLF @ ''Connection: close'' @ CRLF @ CRLF"

definition status_format :: "scan_dir list" where
  "status_format = map Exact ''HTTP/'' @ [SkipInt, Exact CHR ''.'', SkipInt, Blank, LongInt]"

definition status_format0 :: "scan_dir list" where
  "status_format0 = map Exact ''HTTP/'' @ [SkipInt, Blank, LongInt]"

definition http_status :: "string \<Rightarrow> int" where
  "http_status text =
     (case sscanf status_format text of
        [ALong v] \<Rightarrow> to_int32 v
      | _ \<Rightarrow> (case sscanf status_format0 text of [ALong v] \<Rightarrow> to_int32 v | _ \<Rightarrow> 0))"

definition tolower :: "char \<Rightarrow> char" where
  "tolower c = (let n = (of_char c :: nat) in if 65 \<le> n \<and> n \<le> 90 then char_of (n + 32) else c)"

text \<open>The walk over the lines of the header: the text from the line on, the length of the header that
  remains, and the location so far.\<close>

function scan_location :: "string \<Rightarrow> nat \<Rightarrow> nat \<Rightarrow> string \<Rightarrow> string" where
  "scan_location l rest cap loc =
     (if rest = 0 then loc
      else case strstr l CRLF of None \<Rightarrow> loc
           | Some nl \<Rightarrow>
               if nl > rest then loc
               else let v = dropWhile (\<lambda>c. c = CHR '' '' \<or> c = CHR 0x09) (drop 9 l);
                        loc' = (if map tolower (take 9 l) = ''location:'' then take (min (cap - 1) (nl - (length l - length v))) v else loc)
                 in if nl + 2 < rest then scan_location (drop (nl + 2) l) (rest - (nl + 2)) cap loc' else loc')"
  by auto
termination by (relation "measure (\<lambda>(l, rest, cap, loc). rest)") auto

declare scan_location.simps [simp del]

record http_reply =
  r_status :: int
  r_location :: string
  r_body :: string

text \<open>The reply in the bytes received; string functions see them up to the first null byte. The error
  text is \<open>Inl\<close>.\<close>

definition parse_reply :: "string \<Rightarrow> nat \<Rightarrow> string + http_reply" where
  "parse_reply raw loccap =
     (if raw = '''' then Inl ''empty response''
      else let text = takeWhile (\<lambda>c. c \<noteq> CHR 0x00) raw
        in case strstr text (CRLF @ CRLF) of None \<Rightarrow> Inl ''malformed HTTP response''
           | Some hdrend \<Rightarrow>
               Inr \<lparr>r_status = http_status text, r_location = scan_location text hdrend loccap '''', r_body = drop (hdrend + 4) raw\<rparr>)"

text \<open>\<open>Inr (Inl err)\<close> is a failed request and the text in the buffer, \<open>Inr (Inr (err, reply))\<close> a reply.\<close>

definition http_get_once :: "int \<Rightarrow> ca_net \<Rightarrow> string \<Rightarrow> string \<Rightarrow> (string + (string \<times> http_reply)) outcome" where
  "http_get_once tmo n url err =
     and_then (split_1024 url) (\<lambda>parts.
       case parts of None \<Rightarrow> Inr (Inl (snprintf_s 256 (''unsupported URL: '' @ url)))
       | Some p \<Rightarrow>
           and_then (dial tmo n (u_host p) (u_port p) err) (\<lambda>(up, err1).
             if \<not> up then Inr (Inl err1)
             else case (if u_scheme p = ''https'' then n_tls n (u_host p) (u_port p) else None) of
               Some e \<Rightarrow> Inr (Inl (snprintf_s 256 e))
             | None \<Rightarrow>
                 let req = http_request (u_path p) (u_host p)
                 in if \<not> n_accepts n (u_host p) (u_port p) req then Inr (Inl ''write request failed'')
                    else case parse_reply (n_answer n (u_host p) (u_port p) req) 2048 of
                      Inl e \<Rightarrow> Inr (Inl e)
                    | Inr r \<Rightarrow> Inr (Inr (err1, r))))"

subsection \<open>Redirects\<close>

definition next_url :: "string \<Rightarrow> string \<Rightarrow> string option outcome" where
  "next_url cur loc =
     (if strstr loc ''://'' \<noteq> None then Inr (Some (snprintf_s 2048 loc))
      else and_then (split_1024 cur) (\<lambda>parts.
        case parts of None \<Rightarrow> Inr None
        | Some p \<Rightarrow>
            let base = u_scheme p @ ''://'' @ u_host p @ '':'' @ dec_int (u_port p)
            in Inr (Some (snprintf_s 2048 (base @ (if hd loc = CHR ''/'' then loc else ''/'' @ loc))))))"

text \<open>The loop of at most ten requests: the error of a request that failed, or the last body.\<close>

fun fetch_loop :: "int \<Rightarrow> ca_net \<Rightarrow> nat \<Rightarrow> string \<Rightarrow> string \<Rightarrow> string \<Rightarrow> (string + (string \<times> string)) outcome" where
  "fetch_loop tmo n 0 cur body err = Inr (Inr (err, body))"
| "fetch_loop tmo n (Suc hops) cur body err =
     and_then (http_get_once tmo n cur err) (\<lambda>r.
       case r of Inl e \<Rightarrow> Inr (Inl e)
       | Inr (err1, rep) \<Rightarrow>
           if 300 \<le> r_status rep \<and> r_status rep < 400 \<and> r_location rep \<noteq> '''' then
             and_then (next_url cur (r_location rep)) (\<lambda>nxt.
               case nxt of None \<Rightarrow> Inr (Inr (err1, r_body rep))
               | Some url \<Rightarrow> fetch_loop tmo n hops url (r_body rep) err1)
           else Inr (Inr (err1, r_body rep)))"

text \<open>\<open>parse\<close> is OpenSSL's reading of a certificate, DER first and then PEM.\<close>

definition fetch_der_cert :: "(string \<Rightarrow> 'c option) \<Rightarrow> (string \<Rightarrow> 'c option) \<Rightarrow> int \<Rightarrow> ca_net \<Rightarrow> string \<Rightarrow> string \<Rightarrow> (string + 'c) outcome" where
  "fetch_der_cert der pem tmo n url err =
     and_then (fetch_loop tmo n 10 (snprintf_s 2048 url) '''' err) (\<lambda>r.
       case r of Inl e \<Rightarrow> Inr (Inl e)
       | Inr (_, body) \<Rightarrow>
           let none = snprintf_s 256 (''could not parse certificate from '' @ url)
           in if body = '''' then Inr (Inl none)
              else case der body of Some c \<Rightarrow> Inr (Inr c)
                | None \<Rightarrow> (case pem body of Some c \<Rightarrow> Inr (Inr c) | None \<Rightarrow> Inr (Inl none)))"

section \<open>URLs, read back and overrun\<close>

lemma strstr_at: "a \<notin> set s \<Longrightarrow> prefix (a # q) r \<Longrightarrow> strstr (s @ r) (a # q) = Some (length s)"
  by (induction s) (auto simp: neq_Nil_conv prefix_def)

lemma dropWhile_not: "x \<notin> set l \<Longrightarrow> dropWhile (\<lambda>c. c \<noteq> x) (l @ x # s) = x # s"
  by (induction l) auto

lemma takeWhile_upto: "x \<notin> set l \<Longrightarrow> takeWhile (\<lambda>c. c \<noteq> x) (l @ x # s) = l"
  by (induction l) auto

definition url_ok :: "url_parts \<Rightarrow> bool" where
  "url_ok p \<longleftrightarrow> u_scheme p \<in> {''http'', ''https''} \<and> length (u_host p) < 256 \<and> set (u_host p) \<inter> {CHR ''/'', CHR '':''} = {}
     \<and> 0 \<le> u_port p \<and> u_port p \<le> 2147483647 \<and> u_path p \<noteq> '''' \<and> hd (u_path p) = CHR ''/'' \<and> length (u_path p) < 1024"

text \<open>The spellings of a URL: the port of the scheme may be left out, and a path that is the root.\<close>

definition port_forms :: "url_parts \<Rightarrow> string list" where
  "port_forms p = ('':'' @ dec_int (u_port p)) # (if map_of [(''http'', 80), (''https'', 443)] (u_scheme p) = Some (u_port p) then [''''] else [])"

definition path_forms :: "url_parts \<Rightarrow> string list" where
  "path_forms p = u_path p # (if u_path p = ''/'' then [''''] else [])"

definition url_forms :: "url_parts \<Rightarrow> string list" where
  "url_forms p = concat (map (\<lambda>q. map (\<lambda>r. u_scheme p @ ''://'' @ u_host p @ q @ r) (path_forms p)) (port_forms p))"

lemma scheme_found: "u_scheme p \<in> {''http'', ''https''} \<Longrightarrow> strstr (u_scheme p @ ''://'' @ r) ''://'' = Some (length (u_scheme p))"
  by (rule strstr_at) auto

lemma url_ok_path: "url_ok p \<Longrightarrow> u_path p \<noteq> ''''"
  by (simp add: url_ok_def)

lemma takeWhile_absent: "x \<notin> set l \<Longrightarrow> takeWhile (\<lambda>c. c \<noteq> x) l = l"
  by (induction l) auto

lemma url_split_parts:
  assumes "sc \<in> {''http'', ''https''}" "length h < 256" "set h \<inter> {CHR ''/'', CHR '':''} = {}"
    and "CHR ''/'' \<notin> set q" "q = '''' \<or> hd q = CHR '':''" "r = '''' \<or> hd r = CHR ''/''"
  shows "split_1024 (sc @ ''://'' @ h @ q @ r) = Inr (Some \<lparr>u_scheme = sc, u_host = h,
    u_port = (if q = '''' then (if sc = ''https'' then 443 else 80) else atoi (tl q @ r)), u_path = (if r = '''' then ''/'' else snprintf_s 1024 r)\<rparr>)"
proof -
  let ?u = "sc @ ''://'' @ h @ q @ r"
  have found: "strstr ?u ''://'' = Some (length sc)" by (rule strstr_at) (use assms(1) in auto)
  have noslash: "CHR ''/'' \<notin> set (h @ q)" and nocolon: "CHR '':'' \<notin> set h" using assms(3,4) by auto
  have rest: "drop (length sc + 3) ?u = (h @ q) @ r" by simp
  have auth: "takeWhile (\<lambda>c. c \<noteq> CHR ''/'') ((h @ q) @ r) = h @ q"
    using assms(6) takeWhile_upto [OF noslash, of "tl r"] takeWhile_absent [OF noslash] by (cases r) auto
  have slash: "dropWhile (\<lambda>c. c \<noteq> CHR ''/'') ((h @ q) @ r) = r"
    using assms(6) dropWhile_not [OF noslash, of "tl r"] noslash by (cases r) (auto simp: dropWhile_eq_Nil_conv)
  have host: "takeWhile (\<lambda>c. c \<noteq> CHR '':'') (h @ q) = h"
    using assms(5) takeWhile_upto [OF nocolon, of "tl q"] takeWhile_absent [OF nocolon] by (cases q) auto
  have colon: "q \<noteq> '''' \<Longrightarrow> dropWhile (\<lambda>c. c \<noteq> CHR '':'') ((h @ q) @ r) = q @ r"
    using assms(5) dropWhile_not [OF nocolon, of "tl q @ r"] by (cases q) auto
  have some: "CHR '':'' \<in> set (h @ q) \<longleftrightarrow> q \<noteq> ''''" using assms(5) nocolon by (cases q) auto
  have scheme: "length sc < 16" "take (length sc) ?u = sc" using assms(1) by auto
  have q: "q \<noteq> '''' \<Longrightarrow> tl (q @ r) = tl q @ r" by (cases q) auto
  show ?thesis
    unfolding url_split_def found option.case Let_def rest auth slash host some scheme(2)
    using assms(1,2) scheme(1) colon q by (auto simp: snprintf_s_def)
qed

lemma url_split_forms: "\<lbrakk>url_ok p; s \<in> set (url_forms p)\<rbrakk> \<Longrightarrow> split_1024 s = Inr (Some p)"
proof -
  assume ok: "url_ok p" and "s \<in> set (url_forms p)"
  then obtain q r where s: "s = u_scheme p @ ''://'' @ u_host p @ q @ r" and q: "q \<in> set (port_forms p)" and r: "r \<in> set (path_forms p)"
    by (auto simp: url_forms_def)
  let ?d = "dec_nat (nat (u_port p))"
  have d: "dec_int (u_port p) = ?d" using ok by (simp add: url_ok_def dec_int_def)
  have r': "r = '''' \<and> u_path p = ''/'' \<or> r = u_path p \<and> r \<noteq> ''''" "r = '''' \<or> hd r = CHR ''/''"
    using r ok by (auto simp: path_forms_def url_ok_def split: if_splits)
  have path: "(if r = '''' then ''/'' else snprintf_s 1024 r) = u_path p" using r'(1) ok by (auto simp: url_ok_def)
  have q': "CHR ''/'' \<notin> set q" "q = '''' \<or> hd q = CHR '':''"
    using q dec_nat_digits [of "CHR ''/''" "nat (u_port p)"] by (auto simp: port_forms_def d isdigit_def split: if_splits)
  have nodigit: "r = '''' \<or> \<not> isdigit (hd r)" using r'(2) by (auto simp: isdigit_def)
  have port: "(if q = '''' then (if u_scheme p = ''https'' then 443 else 80) else atoi (tl q @ r)) = u_port p"
    using q ok atoi_dec_nat [of "nat (u_port p)" r] nodigit by (auto simp: port_forms_def d url_ok_def nat_le_iff split: if_splits)
  show ?thesis
    unfolding s by (subst url_split_parts) (use ok r' q' path port in \<open>auto simp: url_ok_def\<close>)
qed

lemma url_split_overrun:
  "\<lbrakk>s \<in> {''http'', ''https''}; 256 \<le> length h; length h < 1024; set h \<inter> {CHR ''/'', CHR '':''} = {}\<rbrakk>
    \<Longrightarrow> split_1024 (s @ ''://'' @ h) = Inl OutOfBounds"
  using strstr_at [of "CHR '':''" s "''//''" "''://'' @ h"]
  by (auto simp: url_split_def Let_def takeWhile_absent)

section \<open>The deadline\<close>

lemma dial_wait_returns: "\<exists>(el, s) \<in> set turns. tmo \<le> el \<or> s \<noteq> PollIntr \<Longrightarrow> \<exists>r. dial_wait tmo host port turns err = Inr r"
  by (induction tmo host port turns err rule: dial_wait.induct) (auto simp: Let_def split: poll.splits option.splits)

lemma dial_each_returns:
  "\<forall>turns. Pending turns \<in> set as \<longrightarrow> (\<exists>(el, s) \<in> set turns. tmo \<le> el \<or> s \<noteq> PollIntr) \<Longrightarrow> \<exists>r. dial_each tmo host port as err = Inr r"
proof (induction tmo host port as err rule: dial_each.induct)
  case (2 tmo host port a as err)
  show ?case
  proof (cases a)
    case (Pending turns)
    then obtain r e where "dial_wait tmo host port turns err = Inr (r, e)" using dial_wait_returns [of turns tmo host port err] 2(4) by auto
    then show ?thesis using 2 Pending by auto
  qed (use 2 in auto)
qed simp

lemma dial_returns:
  "\<forall>as turns. n_lookup n host port = Inr as \<longrightarrow> Pending turns \<in> set as \<longrightarrow> (\<exists>(el, s) \<in> set turns. tmo \<le> el \<or> s \<noteq> PollIntr)
    \<Longrightarrow> \<exists>r. dial tmo n host port err = Inr r"
proof (cases "n_lookup n host port")
  case (Inr as)
  assume "\<forall>as turns. n_lookup n host port = Inr as \<longrightarrow> Pending turns \<in> set as \<longrightarrow> (\<exists>(el, s) \<in> set turns. tmo \<le> el \<or> s \<noteq> PollIntr)"
  then obtain r e where "dial_each tmo host port as err = Inr (r, e)" using dial_each_returns [of as tmo host port err] Inr by auto
  then show ?thesis using Inr by (simp add: dial_def)
next
  case (Inl e)
  then show ?thesis by (auto simp: dial_def)
qed

section \<open>A reply, read back\<close>

definition lines_text :: "string list \<Rightarrow> string" where
  "lines_text ls = concat (map (\<lambda>l. l @ CRLF) ls)"

definition reply_text :: "string list \<Rightarrow> string \<Rightarrow> string" where
  "reply_text ls body = lines_text ls @ CRLF @ body"

definition plain_line :: "string \<Rightarrow> bool" where
  "plain_line l \<longleftrightarrow> l \<noteq> '''' \<and> CHR 0x0D \<notin> set l \<and> CHR 0x00 \<notin> set l"

definition status_line :: "nat \<Rightarrow> nat \<Rightarrow> nat \<Rightarrow> string \<Rightarrow> string" where
  "status_line v1 v2 code reason = ''HTTP/'' @ dec_nat v1 @ ''.'' @ dec_nat v2 @ '' '' @ dec_nat code @ '' '' @ reason"

definition header_location :: "nat \<Rightarrow> string \<Rightarrow> string \<Rightarrow> string" where
  "header_location cap l loc =
     (if map tolower (take 9 l) = ''location:'' then take (cap - 1) (dropWhile (\<lambda>c. c = CHR '' '' \<or> c = CHR 0x09) (drop 9 l)) else loc)"

text \<open>The location is that of the last header with this name.\<close>

definition last_location :: "nat \<Rightarrow> string list \<Rightarrow> string" where
  "last_location cap ls = fold (header_location cap) ls ''''"

lemma lines_text_simps [simp]: "lines_text [] = ''''" "lines_text (l # ls) = l @ CRLF @ lines_text ls"
  by (simp_all add: lines_text_def)

lemma strstr_skip: "a \<notin> set s \<Longrightarrow> strstr (s @ r) (a # q) = map_option ((+) (length s)) (strstr r (a # q))"
proof (induction s)
  case (Cons x s)
  then show ?case by (cases "strstr r (a # q)") (auto simp: prefix_def)
qed (cases "strstr r (a # q)", auto)

lemma length_CRLF: "length CRLF = 2"
  by (simp add: CRLF_def)

lemma line_skip: "CHR 0x0D \<notin> set l \<Longrightarrow> strstr (l @ r) (CRLF @ CRLF) = map_option ((+) (length l)) (strstr r (CRLF @ CRLF))"
  unfolding CRLF_def append_Cons by (rule strstr_skip)

lemma crlf_skip: "s \<noteq> [] \<Longrightarrow> hd s \<noteq> CHR 0x0D \<Longrightarrow> strstr (CRLF @ s) (CRLF @ CRLF) = map_option ((+) 2) (strstr s (CRLF @ CRLF))"
proof (cases s)
  case (Cons x xs)
  moreover assume "hd s \<noteq> CHR 0x0D"
  ultimately show ?thesis by (cases "strstr s (CRLF @ CRLF)") (auto simp: CRLF_def)
qed simp

lemma header_end:
  "ls \<noteq> [] \<Longrightarrow> \<forall>l \<in> set ls. plain_line l \<Longrightarrow> strstr (lines_text ls @ CRLF @ r) (CRLF @ CRLF) = Some (length (lines_text ls) - 2)"
proof (induction ls)
  case (Cons l ls)
  then have l: "CHR 0x0D \<notin> set l" by (simp add: plain_line_def)
  show ?case
  proof (cases ls)
    case Nil
    then show ?thesis using strstr_at [OF l, of "[CHR 0x0A, CHR 0x0D, CHR 0x0A]"] by (simp add: CRLF_def)
  next
    case (Cons k ks)
    then obtain x xs where k: "lines_text ls = x # xs" "x \<noteq> CHR 0x0D" using Cons.prems by (cases k) (auto simp: plain_line_def)
    have "2 \<le> length (lines_text ls)" using Cons by (simp add: CRLF_def)
    moreover have "strstr (lines_text ls @ CRLF @ r) (CRLF @ CRLF) = Some (length (lines_text ls) - 2)" using Cons Cons.IH Cons.prems by simp
    moreover have "strstr (CRLF @ lines_text ls @ CRLF @ r) (CRLF @ CRLF) = map_option ((+) 2) (strstr (lines_text ls @ CRLF @ r) (CRLF @ CRLF))"
      using k by (intro crlf_skip) simp_all
    ultimately have "strstr (lines_text (l # ls) @ CRLF @ r) (CRLF @ CRLF) = Some (length l + (2 + (length (lines_text ls) - 2)))"
      using line_skip [OF l] by simp
    then show ?thesis using \<open>2 \<le> length (lines_text ls)\<close> by (simp add: length_CRLF)
  qed
qed simp

lemma take9_line:
  "map tolower (take 9 (l @ CRLF @ r)) = ''location:'' \<Longrightarrow> CHR 0x0D \<notin> set l \<Longrightarrow> 9 \<le> length l"
proof (rule ccontr)
  assume m: "map tolower (take 9 (l @ CRLF @ r)) = ''location:''" and short: "\<not> 9 \<le> length l"
  then have "CHR 0x0D \<in> set (take 9 (l @ CRLF @ r))" by (simp add: CRLF_def take_Cons' split: nat.splits)
  then have "tolower (CHR 0x0D) \<in> set ''location:''" unfolding m [symmetric] by (simp only: set_map image_eqI)
  then show False by (simp add: tolower_def)
qed

lemma header_line:
  fixes l r :: string
  assumes "plain_line l"
  defines "t \<equiv> l @ CRLF @ r"
  shows "(if map tolower (take 9 t) = ''location:''
          then take (min (cap - 1) (length l - (length t - length (dropWhile (\<lambda>c. c = CHR '' '' \<or> c = CHR 0x09) (drop 9 t)))))
                 (dropWhile (\<lambda>c. c = CHR '' '' \<or> c = CHR 0x09) (drop 9 t)) else loc) = header_location cap l loc"
proof (cases "9 \<le> length l")
  case True
  let ?b = "\<lambda>c. c = CHR '' '' \<or> c = CHR 0x09"
  have v: "dropWhile ?b (drop 9 t) = dropWhile ?b (drop 9 l) @ CRLF @ r" using True by (simp add: t_def CRLF_def dropWhile_append3)
  have "length (dropWhile ?b (drop 9 l)) \<le> length l" using length_dropWhile_le [of ?b "drop 9 l"] by simp
  then show ?thesis unfolding v using True by (simp add: header_location_def t_def min_def)
next
  case False
  then have "length (map tolower (take 9 l)) \<noteq> length ''location:''" by simp
  then have "map tolower (take 9 l) \<noteq> ''location:''" by metis
  moreover have "map tolower (take 9 t) \<noteq> ''location:''" using take9_line [of l r] False assms(1) unfolding t_def plain_line_def by metis
  ultimately show ?thesis by (simp only: header_location_def if_False)
qed

lemma scan_location_lines:
  "ls \<noteq> [] \<Longrightarrow> \<forall>l \<in> set ls. plain_line l
    \<Longrightarrow> scan_location (lines_text ls @ CRLF @ r) (length (lines_text ls) - 2) cap loc = fold (header_location cap) ls loc"
proof (induction ls arbitrary: loc)
  case (Cons l ls)
  define t where "t = l @ CRLF @ lines_text ls @ CRLF @ r"
  have l: "CHR 0x0D \<notin> set l" "l \<noteq> ''''" "plain_line l" using Cons.prems by (simp_all add: plain_line_def)
  have nl: "strstr t CRLF = Some (length l)" using strstr_at [OF l(1), of "[CHR 0x0A]"] by (simp add: t_def CRLF_def)
  have nxt: "drop (length l + 2) t = lines_text ls @ CRLF @ r" by (simp add: t_def CRLF_def)
  have n: "length (lines_text (l # ls)) - 2 = length l + length (lines_text ls)" by (simp add: CRLF_def)
  have "scan_location t (length l + length (lines_text ls)) cap loc =
      (if length (lines_text ls) > 2 then scan_location (lines_text ls @ CRLF @ r) (length (lines_text ls) - 2) cap (header_location cap l loc)
       else header_location cap l loc)"
    using header_line [OF l(3), of "lines_text ls @ CRLF @ r" cap loc, folded t_def] l(2) nl nxt
    by (subst scan_location.simps) (simp add: Let_def)
  moreover have "length (lines_text ls) > 2 \<longleftrightarrow> ls \<noteq> []" using Cons.prems by (cases ls) (auto simp: CRLF_def plain_line_def neq_Nil_conv)
  moreover have "lines_text (l # ls) @ CRLF @ r = t" by (simp add: t_def)
  ultimately show ?case unfolding n using Cons by auto
qed simp

lemma sscanf_exact: "sscanf (map Exact p @ ds) (p @ s) = sscanf ds s"
  by (induction p) auto

lemma http_status_line:
  assumes "int v1 \<le> long_max" "int v2 \<le> long_max" "code \<le> 2147483647"
  shows "http_status (status_line v1 v2 code reason @ r) = int code"
proof -
  have dot: "strtol10 (dec_nat v1 @ CHR ''.'' # s) = (int v1, CHR ''.'' # s, False)" for s
    by (rule strtol10_dec_nat [OF assms(1)]) (simp add: isdigit_def)
  have blank: "strtol10 (dec_nat v2 @ CHR '' '' # s) = (int v2, CHR '' '' # s, False)" for s
    by (rule strtol10_dec_nat [OF assms(2)]) (simp add: isdigit_def)
  have last: "strtol10 (dec_nat code @ CHR '' '' # s) = (int code, CHR '' '' # s, False)" for s
    using assms(3) by (intro strtol10_dec_nat) (simp_all add: isdigit_def long_max_def)
  obtain c cs where c: "dec_nat code = c # cs" "isdigit c" using dec_nat_digits [of _ code] show_base_nonempty [of 10 code] by (cases "dec_nat code") auto
  have digits: "dropWhile isspace (dec_nat code @ s) = dec_nat code @ s" for s using c dropWhile_space_digit by simp
  have "sscanf status_format (status_line v1 v2 code reason @ r) = [ALong (int code)]"
    unfolding status_format_def status_line_def append_assoc sscanf_exact
    using dot blank last digits by (simp add: isspace_def)
  then show ?thesis using assms(3) by (simp add: http_status_def)
qed

lemma status_line_plain: "CHR 0x0D \<notin> set reason \<Longrightarrow> CHR 0x00 \<notin> set reason \<Longrightarrow> plain_line (status_line v1 v2 code reason)"
  by (simp add: plain_line_def status_line_def isdigit_def)

lemma status_line_location: "header_location cap (status_line v1 v2 code reason) loc = loc"
  by (simp add: header_location_def status_line_def tolower_def)

lemma lines_no_null: "\<forall>l \<in> set ls. plain_line l \<Longrightarrow> CHR 0x00 \<notin> set (lines_text ls)"
  by (induction ls) (auto simp: plain_line_def CRLF_def)

lemma takeWhile_after: "x \<notin> set l \<Longrightarrow> takeWhile (\<lambda>c. c \<noteq> x) (l @ s) = l @ takeWhile (\<lambda>c. c \<noteq> x) s"
  by (induction l) auto

lemma parse_reply_text:
  assumes st: "int v1 \<le> long_max" "int v2 \<le> long_max" "code \<le> 2147483647" "CHR 0x0D \<notin> set reason" "CHR 0x00 \<notin> set reason"
    and hs: "\<forall>h \<in> set hs. plain_line h"
  shows "parse_reply (reply_text (status_line v1 v2 code reason # hs) body) cap
       = Inr \<lparr>r_status = int code, r_location = last_location cap hs, r_body = body\<rparr>"
proof -
  define ls b where ls_def: "ls = status_line v1 v2 code reason # hs" and "b = takeWhile (\<lambda>c. c \<noteq> CHR 0x00) body"
  have ok: "\<forall>l \<in> set ls. plain_line l" using hs status_line_plain [OF st(4,5)] by (simp add: ls_def)
  have null: "CHR 0x00 \<notin> set (lines_text ls @ CRLF)" using lines_no_null [OF ok] by (simp add: CRLF_def)
  have t: "takeWhile (\<lambda>c. c \<noteq> CHR 0x00) (reply_text ls body) = lines_text ls @ CRLF @ b"
    unfolding reply_text_def b_def using takeWhile_after [OF null, of body] by simp
  have e: "strstr (lines_text ls @ CRLF @ b) (CRLF @ CRLF) = Some (length (lines_text ls) - 2)" by (rule header_end [OF _ ok]) (simp add: ls_def)
  have s: "http_status (lines_text ls @ CRLF @ b) = int code"
    unfolding ls_def lines_text_simps append_assoc by (rule http_status_line [OF st(1-3)])
  have l: "scan_location (lines_text ls @ CRLF @ b) (length (lines_text ls) - 2) cap '''' = last_location cap hs"
    using scan_location_lines [OF _ ok, of b cap "''''"] by (simp add: ls_def last_location_def status_line_location)
  have n: "length (lines_text ls) - 2 + 4 = length (lines_text ls @ CRLF)" by (simp add: ls_def length_CRLF)
  have b: "drop (length (lines_text ls) - 2 + 4) (reply_text ls body) = body" unfolding n reply_text_def by simp
  have ne: "reply_text ls body \<noteq> ''''" by (simp add: reply_text_def CRLF_def)
  show ?thesis unfolding ls_def [symmetric] parse_reply_def Let_def t if_not_P [OF ne] by (simp only: e s l b option.case)
qed

section \<open>A trail of redirects\<close>

text \<open>A page of the web: its URL and what its server answers to a request for it.\<close>

record page =
  g_url :: url_parts
  g_code :: nat
  g_reason :: string
  g_headers :: "string list"
  g_body :: string

definition page_ok :: "page \<Rightarrow> bool" where
  "page_ok g \<longleftrightarrow> url_ok (g_url g) \<and> g_code g \<le> 2147483647 \<and> CHR 0x0D \<notin> set (g_reason g) \<and> CHR 0x00 \<notin> set (g_reason g)
     \<and> (\<forall>h \<in> set (g_headers g). plain_line h)"

text \<open>A wait that ends with \<open>s\<close> before the deadline, after any number of interruptions, and the lists of
  addresses of which one is connected to, after those that are refused or fail before the deadline.\<close>

definition answered :: "int \<Rightarrow> (int \<times> poll) list \<Rightarrow> poll \<Rightarrow> bool" where
  "answered tmo turns s \<longleftrightarrow>
     (\<exists>es el rest. turns = map (\<lambda>e. (e, PollIntr)) es @ (el, s) # rest \<and> (\<forall>e \<in> set (el # es). e < tmo))"

inductive connects :: "int \<Rightarrow> attempt list \<Rightarrow> bool" for tmo where
  at_once: "connects tmo (Immediate # as)"
| in_time: "answered tmo turns (PollReady None) \<Longrightarrow> connects tmo (Pending turns # as)"
| no_socket: "connects tmo as \<Longrightarrow> connects tmo (NoSocket # as)"
| rejected: "connects tmo as \<Longrightarrow> connects tmo (Rejected # as)"
| refused: "answered tmo turns (PollReady (Some e)) \<Longrightarrow> connects tmo as \<Longrightarrow> connects tmo (Pending turns # as)"
| no_select: "answered tmo turns (PollFail e) \<Longrightarrow> connects tmo as \<Longrightarrow> connects tmo (Pending turns # as)"

definition served :: "int \<Rightarrow> ca_net \<Rightarrow> page \<Rightarrow> bool" where
  "served tmo n g \<longleftrightarrow>
     (let u = g_url g; h = u_host u; p = u_port u; req = http_request (u_path u) h
      in (\<exists>as. n_lookup n h p = Inr as \<and> connects tmo as)
         \<and> (u_scheme u = ''https'' \<longrightarrow> n_tls n h p = None) \<and> n_accepts n h p req
         \<and> n_answer n h p req = reply_text (status_line 1 1 (g_code g) (g_reason g) # g_headers g) (g_body g))"

definition page_redirects :: "page \<Rightarrow> bool" where
  "page_redirects g \<longleftrightarrow> 300 \<le> g_code g \<and> g_code g < 400 \<and> last_location 2048 (g_headers g) \<noteq> ''''"

text \<open>A location leads from \<open>p\<close> to \<open>k\<close> as a spelling of the URL of \<open>k\<close>, or as a path on the same server,
  which is taken from the root whether it begins with a slash or not.\<close>

definition leads_to :: "url_parts \<Rightarrow> string \<Rightarrow> url_parts \<Rightarrow> bool" where
  "leads_to p loc k \<longleftrightarrow> loc \<in> set (url_forms k)
     \<or> strstr loc ''://'' = None \<and> u_path k = (if hd loc = CHR ''/'' then loc else ''/'' @ loc)
        \<and> u_scheme k = u_scheme p \<and> u_host k = u_host p \<and> u_port k = u_port p"

fun trail :: "page list \<Rightarrow> bool" where
  "trail [] = False"
| "trail [g] = (\<not> page_redirects g)"
| "trail (g # k # gs) = (page_redirects g \<and> leads_to (g_url g) (last_location 2048 (g_headers g)) (g_url k) \<and> trail (k # gs))"

lemma dial_wait_answered:
  assumes "answered tmo turns s" "s \<noteq> PollIntr"
  shows "\<exists>el < tmo. dial_wait tmo host port turns err = dial_wait tmo host port [(el, s)] err"
proof -
  obtain es el rest where t: "turns = map (\<lambda>e. (e, PollIntr)) es @ (el, s) # rest" and e: "\<forall>e \<in> set (el # es). e < tmo"
    using assms(1) by (auto simp: answered_def)
  have "dial_wait tmo host port turns err = dial_wait tmo host port [(el, s)] err"
    unfolding t using e assms(2) by (induction es) (auto simp: Let_def split: poll.splits option.splits)
  moreover have "el < tmo" using e by simp
  ultimately show ?thesis by blast
qed

lemma dial_connects: "connects tmo as \<Longrightarrow> \<exists>err'. dial_each tmo host port as err = Inr (Some Up, err')"
proof (induction as arbitrary: err rule: connects.induct)
  case (in_time turns as)
  then show ?case using dial_wait_answered [OF in_time(1), of host port err] by (auto simp: Let_def)
next
  case (refused turns e as)
  then show ?case using dial_wait_answered [OF refused(1), of host port err] by (auto simp: Let_def)
next
  case (no_select turns e as)
  then show ?case using dial_wait_answered [OF no_select(1), of host port err] by (auto simp: Let_def)
qed auto

lemma get_page:
  assumes "page_ok g" "served tmo n g" "s \<in> set (url_forms (g_url g))"
  shows "\<exists>err'. http_get_once tmo n s err =
    Inr (Inr (err', \<lparr>r_status = int (g_code g), r_location = last_location 2048 (g_headers g), r_body = g_body g\<rparr>))"
proof -
  let ?u = "g_url g"
  have split: "split_1024 s = Inr (Some ?u)" using assms(1,3) by (intro url_split_forms) (simp_all add: page_ok_def)
  obtain as where as: "n_lookup n (u_host ?u) (u_port ?u) = Inr as" "connects tmo as" using assms(2) by (auto simp: served_def Let_def)
  obtain err' where up: "dial tmo n (u_host ?u) (u_port ?u) err = Inr (True, err')"
    using dial_connects [OF as(2), of "u_host ?u" "u_port ?u" err] by (auto simp: dial_def as(1))
  have reply: "parse_reply (reply_text (status_line 1 1 (g_code g) (g_reason g) # g_headers g) (g_body g)) 2048
      = Inr \<lparr>r_status = int (g_code g), r_location = last_location 2048 (g_headers g), r_body = g_body g\<rparr>"
    using assms(1) by (intro parse_reply_text) (simp_all add: page_ok_def long_max_def)
  show ?thesis using assms(2) unfolding http_get_once_def split served_def Let_def by (auto simp: up reply [simplified])
qed

lemma url_forms_length: "\<lbrakk>url_ok p; s \<in> set (url_forms p)\<rbrakk> \<Longrightarrow> length s < 2048"
  using length_dec_int [of "u_port p" 9] by (auto simp: url_ok_def url_forms_def port_forms_def path_forms_def split: if_splits)

lemma next_page:
  assumes "url_ok p" "url_ok k" "cur \<in> set (url_forms p)" "leads_to p loc k"
  shows "\<exists>s \<in> set (url_forms k). next_url cur loc = Inr (Some s)"
proof (cases "loc \<in> set (url_forms k)")
  case True
  then obtain r where "loc = u_scheme k @ ''://'' @ r" by (auto simp: url_forms_def)
  then have "strstr loc ''://'' \<noteq> None" using scheme_found [of k r] assms(2) by (simp add: url_ok_def)
  then show ?thesis using True url_forms_length [OF assms(2) True] by (simp add: next_url_def)
next
  case False
  let ?s = "u_scheme k @ ''://'' @ u_host k @ ('':'' @ dec_int (u_port k)) @ u_path k"
  have s: "?s \<in> set (url_forms k)" by (simp add: url_forms_def port_forms_def path_forms_def)
  have "next_url cur loc = Inr (Some (snprintf_s 2048 ?s))"
    using False assms(4) url_split_forms [OF assms(1,3)] by (simp add: leads_to_def next_url_def)
  then show ?thesis using s snprintf_s_fits [OF url_forms_length [OF assms(2) s]] by auto
qed

lemma fetch_trail:
  "\<lbrakk>trail gs; length gs \<le> k; \<forall>g \<in> set gs. page_ok g \<and> served tmo n g; s \<in> set (url_forms (g_url (hd gs)))\<rbrakk>
    \<Longrightarrow> \<exists>err'. fetch_loop tmo n k s b err = Inr (Inr (err', g_body (last gs)))"
proof (induction gs arbitrary: k s b err rule: trail.induct)
  case (2 g)
  then obtain j where k: "k = Suc j" by (cases k) auto
  then show ?case using 2 get_page [of g tmo n s err] by (auto simp: page_redirects_def)
next
  case (3 g g' gs)
  then obtain j where k: "k = Suc j" by (cases k) auto
  obtain err1 where get: "http_get_once tmo n s err =
      Inr (Inr (err1, \<lparr>r_status = int (g_code g), r_location = last_location 2048 (g_headers g), r_body = g_body g\<rparr>))"
    using get_page [of g tmo n s err] 3 by auto
  obtain s' where s': "s' \<in> set (url_forms (g_url g'))" "next_url s (last_location 2048 (g_headers g)) = Inr (Some s')"
    using next_page [of "g_url g" "g_url g'" s "last_location 2048 (g_headers g)"] 3 by (auto simp: page_ok_def)
  have "\<exists>err'. fetch_loop tmo n j s' (g_body g) err1 = Inr (Inr (err', g_body (last (g' # gs))))"
    by (rule "3.IH") (use 3 k s' in auto)
  then show ?case using 3(2) get s' k by (auto simp: page_redirects_def)
qed simp

lemma fetch_der_trail:
  assumes "trail gs" "length gs \<le> 10" "\<forall>g \<in> set gs. page_ok g \<and> served tmo n g" "s \<in> set (url_forms (g_url (hd gs)))"
    and "g_body (last gs) \<noteq> ''''" "(case der (g_body (last gs)) of Some c \<Rightarrow> Some c | None \<Rightarrow> pem (g_body (last gs))) = Some c"
  shows "fetch_der_cert der pem tmo n s err = Inr (Inr c)"
proof -
  have "gs \<noteq> []" using assms(1) by auto
  then have "url_ok (g_url (hd gs))" using assms(3) by (cases gs) (auto simp: page_ok_def)
  then have "snprintf_s 2048 s = s" using url_forms_length assms(4) by simp
  moreover obtain err' where "fetch_loop tmo n 10 s '''' err = Inr (Inr (err', g_body (last gs)))" using fetch_trail [OF assms(1-4)] by blast
  ultimately show ?thesis using assms(5,6) by (simp add: fetch_der_cert_def Let_def split: option.splits)
qed

section \<open>What is claimed\<close>

text \<open>
  C15. The download of the certificate named in a certificate: along a trail of at most ten pages what is
  returned is the certificate in the body of the last page, read as DER or else as PEM. A URL may leave out the
  port of its scheme (80, 443) or a path that is the root; a redirect names the next page by such a URL or by a
  path on the same server; and each server is reached at the first of its addresses that can be connected to,
  at once or before the deadline, after those that fail.
\<close>

theorem certificate_fetched:
  assumes "trail gs" "length gs \<le> 10" "\<forall>g \<in> set gs. page_ok g \<and> served tmo n g" "url \<in> set (url_forms (g_url (hd gs)))"
    and "g_body (last gs) \<noteq> ''''" "(case der (g_body (last gs)) of Some c \<Rightarrow> Some c | None \<Rightarrow> pem (g_body (last gs))) = Some c"
  shows "fetch_der_cert der pem tmo n url err = Inr (Inr c)"
  using assms by (rule fetch_der_trail)

text \<open>A web in which every server has a first address that refuses, a second without a socket, and a third that
  connects after an interruption.\<close>

definition page_net :: "page list \<Rightarrow> ca_net" where
  "page_net gs =
     \<lparr>n_lookup = (\<lambda>h p. if \<exists>g \<in> set gs. u_host (g_url g) = h
         then Inr [Pending [(0, PollReady (Some ''refused''))], NoSocket, Pending [(1, PollIntr), (3, PollReady None)]] else Inl ''unknown host''),
      n_tls = (\<lambda>h p. None), n_accepts = (\<lambda>h p req. True),
      n_answer = (\<lambda>h p req. concat (map (\<lambda>g. if u_host (g_url g) = h \<and> u_port (g_url g) = p \<and> req = http_request (u_path (g_url g)) h
         then reply_text (status_line 1 1 (g_code g) (g_reason g) # g_headers g) (g_body g) else '''') gs))\<rparr>"

definition three_pages :: "page list" where
  "three_pages =
     [\<lparr>g_url = \<lparr>u_scheme = ''http'', u_host = ''a.org'', u_port = 80, u_path = ''/r''\<rparr>, g_code = 301, g_reason = ''Moved'',
       g_headers = [''Server: s'', ''LOCATION: c''], g_body = ''x''\<rparr>,
      \<lparr>g_url = \<lparr>u_scheme = ''http'', u_host = ''a.org'', u_port = 80, u_path = ''/c''\<rparr>, g_code = 302, g_reason = ''Found'',
       g_headers = [''LOCATION: https://b.org''], g_body = ''y''\<rparr>,
      \<lparr>g_url = \<lparr>u_scheme = ''https'', u_host = ''b.org'', u_port = 443, u_path = ''/''\<rparr>, g_code = 200, g_reason = ''OK'',
       g_headers = [], g_body = ''pem''\<rparr>]"

lemma page_net_connects:
  "connects 10 [Pending [(0, PollReady (Some ''refused''))], NoSocket, Pending [(1, PollIntr), (3, PollReady None)]]"
proof -
  have 1: "answered 10 [(0, PollReady (Some ''refused''))] (PollReady (Some ''refused''))"
    unfolding answered_def by (intro exI [of _ "[]"] exI [of _ 0]) simp
  have 2: "answered 10 [(1, PollIntr), (3, PollReady None)] (PollReady None)"
    unfolding answered_def by (intro exI [of _ "[1]"] exI [of _ 3]) simp
  show ?thesis by (rule connects.refused [OF 1 connects.no_socket [OF connects.in_time [OF 2]]])
qed

lemma location_lower: "map tolower ''LOCATION:'' = ''location:''"
  by code_simp

lemma three_pages_trail: "trail three_pages"
  using location_lower
  by (simp add: three_pages_def page_redirects_def last_location_def header_location_def leads_to_def url_forms_def port_forms_def path_forms_def
      tolower_def [of "CHR ''S''"])

lemma three_pages_served: "\<forall>g \<in> set three_pages. page_ok g \<and> served 10 (page_net three_pages) g"
  by (simp add: three_pages_def page_ok_def url_ok_def plain_line_def served_def page_net_def http_request_def page_net_connects)

lemma three_pages_url: "''http://a.org/r'' \<in> set (url_forms (g_url (hd three_pages)))"
  by (simp add: three_pages_def url_forms_def port_forms_def path_forms_def)

theorem certificate_fetched_witness:
  "fetch_der_cert (\<lambda>b. None) (\<lambda>b. if b = ''pem'' then Some (7 :: nat) else None) 10 (page_net three_pages) ''http://a.org/r'' '''' = Inr (Inr 7)"
  by (rule certificate_fetched [OF three_pages_trail _ three_pages_served three_pages_url]) (simp_all add: three_pages_def)

text \<open>
  C34. A URL whose host has between 256 and 1023 characters is not refused: the host is copied behind
  the end of the buffer of 256 bytes, as the check is against the size of the path's buffer.
\<close>

theorem url_buffer_overrun:
  assumes "s \<in> {''http'', ''https''}" "256 \<le> length h" "length h < 1024" "set h \<inter> {CHR ''/'', CHR '':''} = {}"
  shows "http_get_once tmo n (s @ ''://'' @ h) err = Inl OutOfBounds"
  unfolding http_get_once_def url_split_overrun [OF assms] by simp

theorem url_buffer_overrun_witness:
  "http_get_once 10 (page_net []) (''http'' @ ''://'' @ replicate 256 (CHR ''a'')) '''' = Inl OutOfBounds"
  by (rule url_buffer_overrun) simp_all

text \<open>
  Connecting never hangs: when every wait for a connection reaches the deadline or something other
  than an interruption, \<^verbatim>\<open>dial\<close> returns, connected or with an error.
\<close>

theorem dial_never_hangs:
  assumes "\<forall>as turns. n_lookup n host port = Inr as \<longrightarrow> Pending turns \<in> set as \<longrightarrow> (\<exists>(el, s) \<in> set turns. tmo \<le> el \<or> s \<noteq> PollIntr)"
  shows "\<exists>r. dial tmo n host port err = Inr r"
  by (rule dial_returns [OF assms])

definition slow_net :: ca_net where
  "slow_net = \<lparr>n_lookup = (\<lambda>h p. Inr [Rejected, Pending [(0, PollIntr), (4, PollIntr), (11, PollIntr)]]),
     n_tls = (\<lambda>h p. None), n_accepts = (\<lambda>h p req. True), n_answer = (\<lambda>h p req. '''')\<rparr>"

theorem dial_never_hangs_witness: "\<exists>r. dial 10 slow_net ''a.org'' 443 '''' = Inr r"
  by (rule dial_never_hangs) (auto simp: slow_net_def)

end
