(* ===== verification/Ca_Main.thy ===== *)
theory Ca_Main
  imports Ca_Http Dispatch
begin

text \<open>
  The subcommand \<^verbatim>\<open>tracep ca\<close> (\<^verbatim>\<open>ca_main\<close> of \<^verbatim>\<open>src/c/ca.c\<close>): flags in any order, the report on the chain a
  server presents, the root fetched by the URL in the topmost certificate, and the certificates saved.
  OpenSSL is a parameter: a certificate is the record \<open>cert\<close> of what its functions answer about it, and the
  handshake, the chain and the reading of a certificate are in \<open>ca_env\<close>.
\<close>

section \<open>Definitions\<close>

subsection \<open>Flags\<close>

record ca_opts =
  a_port :: int
  a_output :: string
  a_root :: bool
  a_insecure :: bool
  a_all :: bool
  a_timeout :: int
  a_version :: bool

definition ca_initial :: ca_opts where
  "ca_initial = \<lparr>a_port = 443, a_output = '''', a_root = False, a_insecure = False, a_all = False, a_timeout = 10, a_version = False\<rparr>"

definition print_defaults :: string where
  "print_defaults =
     (let row = (\<lambda>f d. ''  -'' @ f @ NL @ ''    '' @ [CHR 0x09] @ d @ NL)
      in row ''all'' ''Save full chain including leaf certificate''
         @ row ''fetch-root'' ''Fetch root CA via AIA URL''
         @ row ''insecure'' ''Skip TLS certificate verification''
         @ row ''o string'' ''Output file (default: <hostname>-ca.pem, use - for stdout)''
         @ row ''port int'' ''TLS port to connect to (default 443)''
         @ row ''timeout int'' ''Connection timeout in seconds (default 10)''
         @ row ''version'' ''Print version and exit'')"

definition ca_usage :: string where
  "ca_usage = ''usage: tracep ca [flags] <hostname> [port]'' @ NL @ print_defaults"

text \<open>\<open>MNext\<close> takes the value from the next argument.\<close>

datatype matched = NoMatch | MMissing | MNext string | MValue string | MBool string

definition match_flag :: "string \<Rightarrow> string list \<Rightarrow> string \<Rightarrow> bool \<Rightarrow> matched" where
  "match_flag a rest name is_bool =
     (if a = '''' \<or> hd a \<noteq> CHR ''-'' then NoMatch
      else let body = (if tl a \<noteq> '''' \<and> hd (tl a) = CHR ''-'' then tl (tl a) else tl a); after = drop (length name) body
        in if take (length name) body \<noteq> name then NoMatch
           else if after = '''' then
             (if is_bool then MBool '''' else case rest of [] \<Rightarrow> MMissing | v # _ \<Rightarrow> MNext v)
           else if hd after = CHR ''='' then (if is_bool then MBool (tl after) else MValue (tl after))
           else NoMatch)"

definition parse_bool :: "string \<Rightarrow> string + bool" where
  "parse_bool v =
     (if v = '''' then Inr True
      else if v \<in> set [''1'', ''t'', ''T'', ''true'', ''TRUE'', ''True''] then Inr True
      else if v \<in> set [''0'', ''f'', ''F'', ''false'', ''FALSE'', ''False''] then Inr False
      else Inl (''invalid boolean value '' @ v @ '' for flag'' @ NL))"

definition parse_int :: "string \<Rightarrow> string \<Rightarrow> string + int" where
  "parse_int name v =
     (let (x, rest, _) = strtol10 v
      in if rest = v \<or> rest \<noteq> '''' then Inl (''invalid value '' @ v @ '' for flag -'' @ name @ NL) else Inr (to_int32 x))"

text \<open>A flag that is set by its value.\<close>

datatype flag_kind = KBool "bool \<Rightarrow> ca_opts \<Rightarrow> ca_opts" | KInt "int \<Rightarrow> ca_opts \<Rightarrow> ca_opts" | KText "string \<Rightarrow> ca_opts \<Rightarrow> ca_opts"

definition ca_flags :: "(string \<times> flag_kind) list" where
  "ca_flags =
     [(''port'', KInt (\<lambda>v. a_port_update (\<lambda>_. v))),
      (''fetch-root'', KBool (\<lambda>v. a_root_update (\<lambda>_. v))),
      (''insecure'', KBool (\<lambda>v. a_insecure_update (\<lambda>_. v))),
      (''all'', KBool (\<lambda>v. a_all_update (\<lambda>_. v))),
      (''version'', KBool (\<lambda>v. a_version_update (\<lambda>_. v))),
      (''timeout'', KInt (\<lambda>v. a_timeout_update (\<lambda>_. v))),
      (''o'', KText (\<lambda>v. a_output_update (\<lambda>_. v)))]"

definition is_kbool :: "flag_kind \<Rightarrow> bool" where
  "is_kbool k = (case k of KBool _ \<Rightarrow> True | _ \<Rightarrow> False)"

definition set_flag :: "string \<Rightarrow> flag_kind \<Rightarrow> string \<Rightarrow> ca_opts \<Rightarrow> string + ca_opts" where
  "set_flag name k v a =
     (case k of
        KBool f \<Rightarrow> (case parse_bool v of Inl e \<Rightarrow> Inl e | Inr b \<Rightarrow> Inr (f b a))
      | KInt f \<Rightarrow> (case parse_int name v of Inl e \<Rightarrow> Inl e | Inr i \<Rightarrow> Inr (f i a))
      | KText f \<Rightarrow> Inr (f v a))"

text \<open>The result of trying the flags on an argument: an error, the options and whether the next
  argument was used, or \<open>None\<close> when no flag matches.\<close>

fun try_flags :: "(string \<times> flag_kind) list \<Rightarrow> string \<Rightarrow> string list \<Rightarrow> ca_opts \<Rightarrow> (string + (ca_opts \<times> bool)) option" where
  "try_flags [] w rest a = None"
| "try_flags ((name, k) # fs) w rest a =
     (case match_flag w rest name (is_kbool k) of
        NoMatch \<Rightarrow> try_flags fs w rest a
      | MMissing \<Rightarrow> Some (Inl (''flag needs an argument: -'' @ name @ NL))
      | MNext v \<Rightarrow> Some (case set_flag name k v a of Inl e \<Rightarrow> Inl e | Inr a' \<Rightarrow> Inr (a', True))
      | MValue v \<Rightarrow> Some (case set_flag name k v a of Inl e \<Rightarrow> Inl e | Inr a' \<Rightarrow> Inr (a', False))
      | MBool v \<Rightarrow> Some (case set_flag name k v a of Inl e \<Rightarrow> Inl e | Inr a' \<Rightarrow> Inr (a', False)))"

function ca_parse :: "string list \<Rightarrow> ca_opts \<Rightarrow> string list \<Rightarrow> string + (ca_opts \<times> string list)" where
  "ca_parse [] a ps = Inr (a, ps)"
| "ca_parse (w # ws) a ps =
     (case try_flags ca_flags w ws a of
        Some (Inl e) \<Rightarrow> Inl e
      | Some (Inr (a', used)) \<Rightarrow> ca_parse (if used then tl ws else ws) a' ps
      | None \<Rightarrow>
          if w \<noteq> '''' \<and> hd w = CHR ''-'' \<and> tl w \<noteq> '''' then Inl (''flag provided but not defined: '' @ w @ NL @ ca_usage)
          else ca_parse ws a (if length ps < 4 then ps @ [w] else ps))"
  by pat_completeness auto
termination by (relation "measure (\<lambda>(ws, a, ps). length ws)") auto

subsection \<open>Certificates\<close>

record cert =
  x_ca :: bool                           \<comment> \<open>\<^verbatim>\<open>X509_check_ca(c) == 1\<close>\<close>
  x_self :: bool                         \<comment> \<open>\<^verbatim>\<open>X509_check_issued(c, c) == X509_V_OK\<close>\<close>
  x_subject :: "string option"           \<comment> \<open>the first common name, as UTF-8\<close>
  x_issuer :: "string option"
  x_until :: "(int \<times> nat \<times> nat) option" \<comment> \<open>\<^verbatim>\<open>notAfter\<close>: year, month and day\<close>
  x_access :: "(bool \<times> bool \<times> string) list" \<comment> \<open>is \<^verbatim>\<open>caIssuers\<close>, is a URI, and its text\<close>
  x_pem :: "string option"               \<comment> \<open>what \<^verbatim>\<open>PEM_write_X509\<close> writes\<close>

definition cert_role :: "cert \<Rightarrow> nat \<Rightarrow> string" where
  "cert_role c i =
     (if i = 0 \<and> \<not> x_ca c then ''leaf'' else if x_ca c \<and> x_self c then ''root CA'' else if x_ca c then ''intermediate CA'' else ''unknown'')"

definition short_cn :: "string \<Rightarrow> string" where
  "short_cn cn = (if length cn > 38 then snprintf_s 64 (take 35 cn @ ''...'') else snprintf_s 64 cn)"

definition name_cn :: "string option \<Rightarrow> nat \<Rightarrow> string" where
  "name_cn nm cap = (case nm of None \<Rightarrow> '''' | Some s \<Rightarrow> takeWhile (\<lambda>c. c \<noteq> CHR 0x00) (take (cap - 1) s))"

definition not_after :: "cert \<Rightarrow> string" where
  "not_after c =
     (case x_until c of None \<Rightarrow> ''?''
      | Some (y, m, d) \<Rightarrow> dec_int y @ ''-'' @ zero_pad 2 (dec_nat m) @ ''-'' @ zero_pad 2 (dec_nat d))"

fun first_access :: "(bool \<times> bool \<times> string) list \<Rightarrow> string option" where
  "first_access [] = None"
| "first_access ((issuers, uri, s) # ds) =
     (if \<not> issuers then first_access ds else if \<not> uri then first_access ds
      else if s \<noteq> '''' then Some (takeWhile (\<lambda>c. c \<noteq> CHR 0x00) s) else first_access ds)"

definition aia_ca_issuer :: "cert \<Rightarrow> string option" where
  "aia_ca_issuer c = first_access (x_access c)"

subsection \<open>The main program\<close>

record ca_env =
  v_net :: ca_net
  v_context :: "string option"                                          \<comment> \<open>the error of \<^verbatim>\<open>SSL_CTX_new\<close>\<close>
  v_handshake :: "bool \<Rightarrow> string \<Rightarrow> int \<Rightarrow> (string option \<times> string) option" \<comment> \<open>of a failed handshake: the verification error and the other\<close>
  v_leaf :: "cert option"
  v_chain :: "cert list option"
  v_same :: "cert \<Rightarrow> cert \<Rightarrow> bool"                                       \<comment> \<open>\<^verbatim>\<open>X509_cmp\<close> is 0\<close>
  v_der :: "string \<Rightarrow> cert option"
  v_pem :: "string \<Rightarrow> cert option"
  v_open :: "string \<Rightarrow> string option"                                     \<comment> \<open>the error of \<^verbatim>\<open>fopen\<close>\<close>
  v_pem_error :: string

record ca_result = result +
  saved :: "(string \<times> string) option"

definition arrow :: string where "arrow = [CHR 0xE2, CHR 0x86, CHR 0x92]"
definition dots :: string where "dots = [CHR 0xE2, CHR 0x80, CHR 0xA6]"
definition tick :: string where "tick = [CHR 0xE2, CHR 0x9C, CHR 0x93]"
definition rule_line :: string where "rule_line = concat (replicate 70 [CHR 0xE2, CHR 0x94, CHR 0x80]) @ NL"

definition present_chain :: "ca_env \<Rightarrow> cert list" where
  "present_chain e =
     (let chain = (case v_chain e of None \<Rightarrow> [] | Some cs \<Rightarrow> cs)
      in case v_leaf e of None \<Rightarrow> chain
         | Some l \<Rightarrow> l # (if chain \<noteq> [] \<and> v_same e (hd chain) l then tl chain else chain))"

definition cert_report :: "nat \<Rightarrow> cert \<Rightarrow> string" where
  "cert_report i c =
     ''  ['' @ dec_nat i @ ''] '' @ pad_right 16 (cert_role c i) @ '' CN='' @ pad_right 40 (short_cn (name_cn (x_subject c) 512))
     @ '' IsCA='' @ (if x_ca c then ''true'' else ''false'') @ NL
     @ ''       Issuer : '' @ short_cn (name_cn (x_issuer c) 512) @ NL
     @ ''       Expires: '' @ not_after c @ NL
     @ (case aia_ca_issuer c of None \<Rightarrow> '''' | Some u \<Rightarrow> ''       AIA    : '' @ u @ NL) @ NL"

definition chain_report :: "cert list \<Rightarrow> string" where
  "chain_report cs =
     ''Chain received: '' @ dec_nat (length cs) @ '' certificate(s)'' @ NL @ rule_line
     @ concat (map (\<lambda>(i, c). cert_report i c) (enumerate 0 cs)) @ rule_line"

definition certs_to_save :: "bool \<Rightarrow> cert list \<Rightarrow> cert list" where
  "certs_to_save save_all cs = map snd (filter (\<lambda>(i, c). save_all \<or> i > 0 \<or> x_ca c) (enumerate 0 cs))"

definition quit :: "string \<Rightarrow> string \<Rightarrow> ca_result" where
  "quit so se = \<lparr>stdout = so, stderr = se, status = 1, saved = None\<rparr>"

text \<open>The root by its URL: what is printed, the warnings, and the certificate.\<close>

definition fetch_root :: "ca_env \<Rightarrow> ca_opts \<Rightarrow> cert \<Rightarrow> (string \<times> string \<times> cert option) outcome" where
  "fetch_root e a c0 =
     (if \<not> a_root a then Inr ('''', '''', None)
      else case aia_ca_issuer c0 of
        None \<Rightarrow> Inr ('''', ''warning: no AIA URL found in topmost certificate'' @ NL, None)
      | Some aia \<Rightarrow>
          and_then (fetch_der_cert (v_der e) (v_pem e) (a_timeout a) (v_net e) aia '''') (\<lambda>r.
            let head = NL @ ''Fetching root CA via AIA: '' @ aia @ NL
            in case r of Inl err \<Rightarrow> Inr (head, ''warning: AIA fetch failed: '' @ err @ NL, None)
               | Inr c \<Rightarrow> Inr (head @ ''  Root: CN='' @ short_cn (name_cn (x_subject c) 512) @ ''  Expires: '' @ not_after c @ NL, '''', Some c)))"

text \<open>The PEM blocks up to the first certificate that cannot be written, and whether there is one.\<close>

fun pem_blocks :: "cert list \<Rightarrow> string \<times> bool" where
  "pem_blocks [] = ('''', True)"
| "pem_blocks (c # cs) = (case x_pem c of None \<Rightarrow> ('''', False) | Some s \<Rightarrow> (let (t, ok) = pem_blocks cs in (s @ t, ok)))"

definition write_certs :: "ca_env \<Rightarrow> string \<Rightarrow> cert list \<Rightarrow> string \<Rightarrow> string \<Rightarrow> ca_result" where
  "write_certs e path cs so se =
     (let (t, ok) = pem_blocks cs; err = ''error writing PEM: '' @ v_pem_error e @ NL
      in if path = ''-'' then
           (if ok then \<lparr>stdout = so @ t, stderr = se, status = 0, saved = None\<rparr> else quit (so @ t) (se @ err))
         else case v_open e path of
           Some m \<Rightarrow> quit so (se @ ''error: '' @ m @ NL)
         | None \<Rightarrow>
             if ok then
               \<lparr>stdout = so @ NL @ tick @ '' Saved '' @ dec_nat (length cs) @ '' CA certificate(s) '' @ arrow @ '' '' @ path @ NL
                  @ ''  Verified: '' @ dec_nat (length cs) @ '' PEM block(s) readable in output file'' @ NL, stderr = se, status = 0, saved = Some (path, t)\<rparr>
             else (quit so (se @ err))\<lparr>saved := Some (path, t)\<rparr>)"

definition save_chain :: "ca_env \<Rightarrow> ca_opts \<Rightarrow> string \<Rightarrow> cert list \<Rightarrow> string \<Rightarrow> ca_result outcome" where
  "save_chain e a host cs so =
     and_then (fetch_root e a (last cs)) (\<lambda>(out, warn, root).
       let keep = certs_to_save (a_all a) cs @ (case root of None \<Rightarrow> [] | Some c \<Rightarrow> [c])
       in if keep = [] then
            Inr (quit (so @ out) (warn @ NL @ ''warning: no CA certificates found in chain'' @ NL
              @ (case aia_ca_issuer (hd cs) of None \<Rightarrow> '''' | Some u \<Rightarrow> ''  Try -fetch-root. AIA URL: '' @ u @ NL)))
          else Inr (write_certs e (if a_output a = '''' then snprintf_s 512 (host @ ''-ca.pem'') else a_output a) keep (so @ out) warn))"

definition ca_connect :: "ca_env \<Rightarrow> ca_opts \<Rightarrow> string \<Rightarrow> ca_result outcome" where
  "ca_connect e a host =
     (let so = arrow @ '' Connecting to '' @ host @ '':'' @ dec_int (a_port a) @ '' '' @ dots @ NL @ NL
      in and_then (dial (a_timeout a) (v_net e) host (a_port a) '''') (\<lambda>(up, err).
        if \<not> up then Inr (quit so (''error: '' @ err @ NL))
        else case v_context e of Some m \<Rightarrow> Inr (quit so (''error: '' @ m @ NL))
        | None \<Rightarrow>
          case v_handshake e (a_insecure a) host (a_port a) of
            Some (verify, other) \<Rightarrow>
              Inr (quit so (case (if a_insecure a then None else verify) of Some m \<Rightarrow> ''error: tls: '' @ m @ NL | None \<Rightarrow> ''error: '' @ other @ NL))
          | None \<Rightarrow>
              let cs = present_chain e
              in if cs = [] then Inr (quit so (''error: server sent no certificates'' @ NL))
                 else save_chain e a host cs (so @ chain_report cs)))"

definition port_arg :: "string \<Rightarrow> int option" where
  "port_arg s = (let (v, rest, _) = strtol10 s in if rest = s \<or> rest \<noteq> '''' \<or> v < 1 \<or> v > 65535 then None else Some v)"

definition ca_main :: "ca_env \<Rightarrow> string list \<Rightarrow> ca_result outcome" where
  "ca_main e args =
     (case ca_parse args ca_initial [] of
        Inl msg \<Rightarrow> Inr (quit '''' msg)
      | Inr (a, ps) \<Rightarrow>
          if a_version a then Inr \<lparr>stdout = ''tls-ca-fetch v1.0.0'' @ NL, stderr = '''', status = 0, saved = None\<rparr>
          else case ps of
            [] \<Rightarrow> Inr (quit '''' ca_usage)
          | [host] \<Rightarrow> ca_connect e a host
          | host # p # _ \<Rightarrow>
              (case port_arg p of None \<Rightarrow> Inr (quit '''' (''invalid port: '' @ p @ NL))
               | Some v \<Rightarrow> ca_connect e (a\<lparr>a_port := v\<rparr>) host))"

section \<open>Flags among the positional arguments\<close>

datatype opt_form = Bare | Joined string | Apart string

datatype item = Pos string | Opt bool string opt_form \<comment> \<open>with two dashes, name, value\<close>

fun item_args :: "item \<Rightarrow> string list" where
  "item_args (Pos w) = [w]"
| "item_args (Opt dd nm Bare) = [(if dd then ''--'' else ''-'') @ nm]"
| "item_args (Opt dd nm (Joined v)) = [(if dd then ''--'' else ''-'') @ nm @ ''='' @ v]"
| "item_args (Opt dd nm (Apart v)) = [(if dd then ''--'' else ''-'') @ nm, v]"

fun form_value :: "opt_form \<Rightarrow> string" where
  "form_value Bare = ''''"
| "form_value (Joined v) = v"
| "form_value (Apart v) = v"

fun takes_next :: "opt_form \<Rightarrow> bool" where
  "takes_next (Apart v) = True"
| "takes_next f = False"

definition form_ok :: "flag_kind \<Rightarrow> opt_form \<Rightarrow> bool" where
  "form_ok k f = (case f of Bare \<Rightarrow> is_kbool k | Joined v \<Rightarrow> True | Apart v \<Rightarrow> \<not> is_kbool k)"

fun item_ok :: "item \<Rightarrow> bool" where
  "item_ok (Pos w) = (w = '''' \<or> hd w \<noteq> CHR ''-'' \<or> tl w = '''')"
| "item_ok (Opt dd nm f) = (case map_of ca_flags nm of None \<Rightarrow> False | Some k \<Rightarrow> form_ok k f)"

fun positionals :: "item list \<Rightarrow> string list" where
  "positionals [] = []"
| "positionals (Pos w # is) = w # positionals is"
| "positionals (Opt dd nm f # is) = positionals is"

fun apply_flags :: "item list \<Rightarrow> ca_opts \<Rightarrow> string + ca_opts" where
  "apply_flags [] a = Inr a"
| "apply_flags (Pos w # is) a = apply_flags is a"
| "apply_flags (Opt dd nm f # is) a =
     (case set_flag nm (the (map_of ca_flags nm)) (form_value f) a of Inl e \<Rightarrow> Inl e | Inr a' \<Rightarrow> apply_flags is a')"

lemma flag_cases:
  "map_of ca_flags nm = Some k \<Longrightarrow>
    (\<And>n k'. (n, k') \<in> set ca_flags \<Longrightarrow> nm = n \<Longrightarrow> k = k' \<Longrightarrow> P) \<Longrightarrow> P"
  by (blast dest: map_of_SomeD)

lemma match_other:
  "n \<noteq> '''' \<Longrightarrow> hd n \<noteq> CHR ''-'' \<Longrightarrow> \<not> prefix n (nm @ s) \<Longrightarrow> nm \<noteq> '''' \<Longrightarrow> hd nm \<noteq> CHR ''-''
    \<Longrightarrow> match_flag ((if dd then ''--'' else ''-'') @ nm @ s) rest n b = NoMatch"
proof (cases nm)
  case (Cons c cs)
  moreover assume "\<not> prefix n (nm @ s)" "hd nm \<noteq> CHR ''-''"
  moreover from this(1) have "take (length n) (nm @ s) \<noteq> n" by (metis take_is_prefix)
  ultimately show ?thesis by (auto simp: match_flag_def Let_def)
qed simp

lemma match_bare:
  "nm \<noteq> '''' \<Longrightarrow> hd nm \<noteq> CHR ''-'' \<Longrightarrow> match_flag ((if dd then ''--'' else ''-'') @ nm) rest nm b
     = (if b then MBool '''' else case rest of [] \<Rightarrow> MMissing | v # _ \<Rightarrow> MNext v)"
  by (cases nm) (auto simp: match_flag_def Let_def)

lemma match_joined:
  "nm \<noteq> '''' \<Longrightarrow> hd nm \<noteq> CHR ''-'' \<Longrightarrow> match_flag ((if dd then ''--'' else ''-'') @ nm @ ''='' @ v) rest nm b
     = (if b then MBool v else MValue v)"
  by (cases nm) (auto simp: match_flag_def Let_def)

lemma names_apart:
  "\<forall>n \<in> set (map fst ca_flags). n \<noteq> '''' \<and> hd n \<noteq> CHR ''-'' \<and> (\<forall>m \<in> set (map fst ca_flags). n = m \<or> \<not> prefix n m \<and> \<not> prefix (m @ ''='') n)"
  by (simp add: ca_flags_def)

lemma try_named:
  "\<lbrakk>map_of fs nm = Some k; \<forall>(n, k') \<in> set fs. n \<noteq> nm \<longrightarrow> match_flag w rest n (is_kbool k') = NoMatch; match_flag w rest nm (is_kbool k) \<noteq> NoMatch\<rbrakk>
    \<Longrightarrow> try_flags fs w rest a = try_flags [(nm, k)] w rest a"
proof (induction fs)
  case (Cons x fs)
  then show ?case by (cases x; cases "fst x = nm") (auto split: matched.splits)
qed simp

lemma not_prefix_value: "\<not> prefix n m \<Longrightarrow> \<not> prefix (m @ ''='') n \<Longrightarrow> \<not> prefix n (m @ ''='' @ v)"
  using prefix_same_cases [of n "m @ ''='' @ v" "m @ ''=''"] by (auto simp: prefix_append prefix_Cons)

lemma other_names:
  assumes "map_of ca_flags nm = Some k" "s = '''' \<or> (\<exists>v. s = ''='' @ v)"
  shows "\<forall>(n, k') \<in> set ca_flags. n \<noteq> nm \<longrightarrow> match_flag ((if dd then ''--'' else ''-'') @ nm @ s) rest n (is_kbool k') = NoMatch"
proof (intro ballI, clarify)
  fix n k'
  assume n: "(n, k') \<in> set ca_flags" "n \<noteq> nm"
  have m: "nm \<in> set (map fst ca_flags)" "n \<in> set (map fst ca_flags)" using n map_of_SomeD [OF assms(1)] by force+
  then have "\<not> prefix n nm" "\<not> prefix (nm @ ''='') n" using names_apart n(2) by blast+
  then have "\<not> prefix n (nm @ s)" using assms(2) not_prefix_value by auto
  then show "match_flag ((if dd then ''--'' else ''-'') @ nm @ s) rest n (is_kbool k') = NoMatch"
    using m names_apart by (intro match_other) blast+
qed

lemma try_opt:
  assumes "item_ok (Opt dd nm f)"
  shows "try_flags ca_flags (hd (item_args (Opt dd nm f))) (tl (item_args (Opt dd nm f)) @ rest) a =
    Some (case set_flag nm (the (map_of ca_flags nm)) (form_value f) a of Inl e \<Rightarrow> Inl e | Inr a' \<Rightarrow> Inr (a', takes_next f))"
proof -
  obtain k where k: "map_of ca_flags nm = Some k" "form_ok k f" using assms by (auto split: option.splits)
  have "nm \<in> set (map fst ca_flags)" using map_of_SomeD [OF k(1)] by force
  then have nm: "nm \<noteq> ''''" "hd nm \<noteq> CHR ''-''" using names_apart by blast+
  show ?thesis
  proof (cases f)
    case Bare
    then show ?thesis using k(2) match_bare [OF nm, of dd rest True] other_names [OF k(1), of "''''" dd rest]
      by (subst try_named [OF k(1)]) (auto simp: form_ok_def k(1) split: sum.splits)
  next
    case (Apart v)
    then show ?thesis using k(2) match_bare [OF nm, of dd "v # rest" False] other_names [OF k(1), of "''''" dd "v # rest"]
      by (subst try_named [OF k(1)]) (auto simp: form_ok_def k(1) split: sum.splits)
  next
    case (Joined v)
    then show ?thesis using match_joined [OF nm, of dd v rest "is_kbool k"] other_names [OF k(1), of "''='' @ v" dd rest]
      by (subst try_named [OF k(1)]) (auto simp: k(1) split: if_splits sum.splits)
  qed
qed

lemma try_pos: "item_ok (Pos w) \<Longrightarrow> try_flags ca_flags w rest a = None"
proof -
  assume "item_ok (Pos w)"
  then consider "w = ''''" | "w \<noteq> ''''" "hd w \<noteq> CHR ''-''" | "w = ''-''" by (cases w) auto
  then show ?thesis by cases (simp_all add: ca_flags_def match_flag_def)
qed

lemma ca_parse_items:
  "\<forall>i \<in> set is. item_ok i \<Longrightarrow> length ps \<le> 4 \<Longrightarrow>
    ca_parse (concat (map item_args is)) a ps =
      (case apply_flags is a of Inl e \<Rightarrow> Inl e | Inr a' \<Rightarrow> Inr (a', take 4 (ps @ positionals is)))"
proof (induction "is" arbitrary: a ps)
  case (Cons i "is")
  show ?case
  proof (cases i)
    case (Pos w)
    then have "try_flags ca_flags w rest a = None" "\<not> (w \<noteq> '''' \<and> hd w = CHR ''-'' \<and> tl w \<noteq> '''')" for rest using Cons.prems try_pos by auto
    then show ?thesis using Cons Pos by (auto split: sum.splits)
  next
    case (Opt dd nm f)
    obtain u us where u: "item_args i = u # us" using Opt by (cases f) auto
    have "(if takes_next f then tl (us @ r) else us @ r) = r" for r using u Opt by (cases f) auto
    then show ?thesis using try_opt [of dd nm f "concat (map item_args is)" a] Cons u Opt by (auto split: sum.splits)
  qed
qed simp


section \<open>The certificates saved\<close>

lemma filter_later: "map snd (filter (\<lambda>(i, c). q \<or> i > 0 \<or> P c) (enumerate (Suc k) xs)) = xs"
  by (induction xs arbitrary: k) auto

lemma certs_to_save_Cons: "certs_to_save q (c # cs) = (if q \<or> x_ca c then c # cs else cs)"
  using filter_later [of q x_ca 0 cs] filter_later [of False x_ca 0 cs] by (simp add: certs_to_save_def)

lemma pem_blocks_all: "\<forall>c \<in> set cs. x_pem c \<noteq> None \<Longrightarrow> pem_blocks cs = (concat (map (\<lambda>c. the (x_pem c)) cs), True)"
  by (induction cs) auto

definition out_path :: "ca_opts \<Rightarrow> string \<Rightarrow> string" where
  "out_path a host = (if a_output a = '''' then take 511 (host @ ''-ca.pem'') else a_output a)"

text \<open>What is to be saved of a chain: all of it, or all but a leaf that is no CA; and the root that was fetched.\<close>

definition kept :: "ca_opts \<Rightarrow> cert list \<Rightarrow> cert option \<Rightarrow> cert list" where
  "kept a cs root = (if a_all a \<or> x_ca (hd cs) then cs else tl cs) @ (case root of None \<Rightarrow> [] | Some c \<Rightarrow> [c])"

lemma save_chain_saved:
  assumes "fetch_root e a (last cs) = Inr (msg, warn, root)" "cs \<noteq> []" "kept a cs root \<noteq> []"
    and "out_path a host \<noteq> ''-''" "v_open e (out_path a host) = None" "\<forall>c \<in> set (kept a cs root). x_pem c \<noteq> None"
  shows "\<exists>r. save_chain e a host cs so = Inr r \<and> saved r = Some (out_path a host, concat (map (\<lambda>c. the (x_pem c)) (kept a cs root))) \<and> status r = 0"
proof -
  have k: "certs_to_save (a_all a) cs @ (case root of None \<Rightarrow> [] | Some c \<Rightarrow> [c]) = kept a cs root"
    using assms(2) by (cases cs) (simp_all add: kept_def certs_to_save_Cons)
  have p: "(if a_output a = '''' then snprintf_s 512 (host @ ''-ca.pem'') else a_output a) = out_path a host"
    by (simp add: out_path_def snprintf_s_def)
  show ?thesis
    unfolding save_chain_def assms(1) and_then_Inr prod.case Let_def k p if_not_P [OF assms(3)]
    by (simp add: assms(4,5) write_certs_def pem_blocks_all [OF assms(6)])
qed

lemma fetch_root_found:
  assumes "a_root a" "aia_ca_issuer c0 = Some url" "trail gs" "length gs \<le> 10"
    and "\<forall>g \<in> set gs. page_ok g \<and> served (a_timeout a) (v_net e) g" "url \<in> set (url_forms (g_url (hd gs)))" "g_body (last gs) \<noteq> ''''"
    and "(case v_der e (g_body (last gs)) of Some c \<Rightarrow> Some c | None \<Rightarrow> v_pem e (g_body (last gs))) = Some c"
  shows "\<exists>msg. fetch_root e a c0 = Inr (msg, '''', Some c)"
proof -
  have "fetch_der_cert (v_der e) (v_pem e) (a_timeout a) (v_net e) url '''' = Inr (Inr c)"
    using assms(3-8) by (rule fetch_der_trail)
  then show ?thesis using assms(1,2) by (simp add: fetch_root_def Let_def)
qed

lemma ca_main_saves:
  assumes "\<forall>i \<in> set is. item_ok i" "apply_flags is ca_initial = Inr a" "positionals is = [host]" "\<not> a_version a"
    and "dial (a_timeout a) (v_net e) host (a_port a) '''' = Inr (True, buf)" "v_context e = None" "v_handshake e (a_insecure a) host (a_port a) = None"
    and "present_chain e \<noteq> []" "fetch_root e a (last (present_chain e)) = Inr (msg, warn, root)" "kept a (present_chain e) root \<noteq> []"
    and "out_path a host \<noteq> ''-''" "v_open e (out_path a host) = None" "\<forall>c \<in> set (kept a (present_chain e) root). x_pem c \<noteq> None"
  shows "\<exists>r. ca_main e (concat (map item_args is)) = Inr r
     \<and> saved r = Some (out_path a host, concat (map (\<lambda>c. the (x_pem c)) (kept a (present_chain e) root))) \<and> status r = 0"
proof -
  have parsed: "ca_parse (concat (map item_args is)) ca_initial [] = Inr (a, [host])"
    using ca_parse_items [OF assms(1), of "[]" ca_initial] assms(2,3) by simp
  have "\<exists>so. ca_main e (concat (map item_args is)) = save_chain e a host (present_chain e) so"
    unfolding ca_main_def parsed using assms(4-8) by (auto simp: ca_connect_def Let_def)
  then show ?thesis using save_chain_saved [OF assms(9,8,10-13)] by metis
qed

section \<open>What is claimed\<close>

text \<open>
  C35. Flags may stand before, between and after the positional arguments, with one or two dashes and their
  value joined or apart: the scan gives what setting the flags in order and collecting the first four
  positional arguments give, or the message on the first value that is not one.
\<close>

theorem ca_flags_anywhere:
  "\<forall>i \<in> set is. item_ok i \<Longrightarrow>
    ca_parse (concat (map item_args is)) ca_initial [] =
      (case apply_flags is ca_initial of Inl e \<Rightarrow> Inl e | Inr a \<Rightarrow> Inr (a, take 4 (positionals is)))"
  by (simp add: ca_parse_items split: sum.splits)

theorem ca_flags_anywhere_witness:
  "ca_parse [''-all'', ''a.org'', ''--timeout=5'', ''-'', ''-o'', ''x'', ''-insecure=F''] ca_initial []
     = Inr (ca_initial\<lparr>a_all := True, a_timeout := 5, a_output := ''x''\<rparr>, [''a.org'', ''-''])"
  using ca_flags_anywhere [of "[Opt False ''all'' Bare, Pos ''a.org'', Opt True ''timeout'' (Joined ''5''), Pos ''-'', Opt False ''o'' (Apart ''x''), Opt False ''insecure'' (Joined ''F'')]"]
  by (simp add: ca_flags_def form_ok_def is_kbool_def set_flag_def parse_bool_def parse_int_def strtol10_def isspace_def isdigit_def
      num_of_def dec_val_def long_max_def ca_initial_def Let_def)

text \<open>
  C14. A run that connects, completes the handshake and can write its file saves, in order and as PEM,
  exactly the chain the server presents without a leaf that is no CA (unless \<^verbatim>\<open>-all\<close> is given), followed by the root
  that was fetched, and exits with status 0.
\<close>

theorem ca_saves_chain:
  assumes "\<forall>i \<in> set is. item_ok i" "apply_flags is ca_initial = Inr a" "positionals is = [host]" "\<not> a_version a"
    and "dial (a_timeout a) (v_net e) host (a_port a) '''' = Inr (True, buf)" "v_context e = None" "v_handshake e (a_insecure a) host (a_port a) = None"
    and "present_chain e \<noteq> []" "fetch_root e a (last (present_chain e)) = Inr (msg, warn, root)" "kept a (present_chain e) root \<noteq> []"
    and "out_path a host \<noteq> ''-''" "v_open e (out_path a host) = None" "\<forall>c \<in> set (kept a (present_chain e) root). x_pem c \<noteq> None"
  shows "\<exists>r. ca_main e (concat (map item_args is)) = Inr r
     \<and> saved r = Some (out_path a host, concat (map (\<lambda>c. the (x_pem c)) (kept a (present_chain e) root))) \<and> status r = 0"
  using assms by (rule ca_main_saves)

definition a_cert :: "bool \<Rightarrow> string \<Rightarrow> (bool \<times> bool \<times> string) list \<Rightarrow> cert" where
  "a_cert ca name acc = \<lparr>x_ca = ca, x_self = False, x_subject = Some name, x_issuer = None, x_until = None, x_access = acc, x_pem = Some (''<'' @ name @ ''>'')\<rparr>"

definition an_env :: ca_env where
  "an_env =
     \<lparr>v_net = page_net three_pages, v_context = None, v_handshake = (\<lambda>i h p. None),
      v_leaf = Some (a_cert False ''leaf'' []),
      v_chain = Some [a_cert False ''leaf'' [], a_cert True ''mid'' [(False, True, ''ocsp''), (True, True, ''http://a.org/r'')]],
      v_same = (=), v_der = (\<lambda>b. None), v_pem = (\<lambda>b. if b = ''pem'' then Some (a_cert True ''root'' []) else None),
      v_open = (\<lambda>f. None), v_pem_error = ''''\<rparr>"

lemma an_env_root:
  "\<lbrakk>a_root a; a_timeout a = 10\<rbrakk> \<Longrightarrow> \<exists>msg. fetch_root an_env a (a_cert True ''mid'' [(False, True, ''ocsp''), (True, True, ''http://a.org/r'')])
     = Inr (msg, '''', Some (a_cert True ''root'' []))"
  by (rule fetch_root_found [OF _ _ three_pages_trail _ _ three_pages_url])
    (use three_pages_served in \<open>simp_all add: aia_ca_issuer_def a_cert_def an_env_def\<close>, simp_all add: three_pages_def)

lemma an_env_chain: "present_chain an_env
   = [a_cert False ''leaf'' [], a_cert True ''mid'' [(False, True, ''ocsp''), (True, True, ''http://a.org/r'')]]"
  by (simp add: present_chain_def an_env_def)

theorem ca_saves_chain_witness:
  "\<exists>r. ca_main an_env [''a.org'', ''-fetch-root''] = Inr r \<and> saved r = Some (''a.org-ca.pem'', ''<mid><root>'') \<and> status r = 0"
proof -
  let ?is = "[Pos ''a.org'', Opt False ''fetch-root'' Bare]" and ?a = "ca_initial\<lparr>a_root := True\<rparr>"
  obtain msg where m: "fetch_root an_env ?a (last (present_chain an_env)) = Inr (msg, '''', Some (a_cert True ''root'' []))"
    using an_env_root [of ?a] by (auto simp: an_env_chain ca_initial_def)
  have k: "kept ?a (present_chain an_env) (Some (a_cert True ''root'' []))
      = [a_cert True ''mid'' [(False, True, ''ocsp''), (True, True, ''http://a.org/r'')], a_cert True ''root'' []]"
    by (simp add: an_env_chain kept_def ca_initial_def a_cert_def)
  have p: "out_path ?a ''a.org'' = ''a.org-ca.pem''" by (simp add: out_path_def ca_initial_def)
  have f: "\<forall>i \<in> set ?is. item_ok i" by (simp add: ca_flags_def form_ok_def is_kbool_def)
  have a: "apply_flags ?is ca_initial = Inr ?a" by (simp add: ca_flags_def set_flag_def parse_bool_def)
  obtain buf where "dial_each 10 ''a.org'' (a_port ?a) [Pending [(0, PollReady (Some ''refused''))], NoSocket, Pending [(1, PollIntr), (3, PollReady None)]] ''''
      = Inr (Some Up, buf)" using dial_connects [OF page_net_connects] by blast
  then have d: "dial (a_timeout ?a) (v_net an_env) ''a.org'' (a_port ?a) '''' = Inr (True, buf)"
    by (simp add: dial_def an_env_def page_net_def three_pages_def ca_initial_def)
  have kept: "kept ?a (present_chain an_env) (Some (a_cert True ''root'' [])) \<noteq> []"
    "\<forall>c \<in> set (kept ?a (present_chain an_env) (Some (a_cert True ''root'' []))). x_pem c \<noteq> None"
    unfolding k by (simp_all add: a_cert_def)
  have path: "out_path ?a ''a.org'' \<noteq> ''-''" unfolding p by simp
  have version: "\<not> a_version ?a" by (simp add: ca_initial_def)
  have n: "present_chain an_env \<noteq> []" by (simp add: an_env_chain)
  have env: "v_context an_env = None" "v_handshake an_env q h z = None" "v_open an_env w = None" for q h z w by (simp_all add: an_env_def)
  have "\<exists>r. ca_main an_env (concat (map item_args ?is)) = Inr r
      \<and> saved r = Some (out_path ?a ''a.org'', concat (map (\<lambda>c. the (x_pem c)) (kept ?a (present_chain an_env) (Some (a_cert True ''root'' []))))) \<and> status r = 0"
    by (rule ca_saves_chain [OF f a _ version d env(1,2) n m kept(1) path env(3) kept(2)]) simp
  then show ?thesis unfolding k p by (simp add: a_cert_def)
qed

end
