(* ===== verification/Usage.thy ===== *)
theory Usage
  imports Usage_Text Exec_Main Net_Main Net_Mac Dns_Main Tls_Main
begin

text \<open>
  How the tracers leave while they read their flags: with the message of an error or with their help text
  (\<^verbatim>\<open>Usage_Text\<close>), and that the help texts name the flags that are accepted.
\<close>

section \<open>Definitions\<close>

datatype tracer = Exec platform | Net platform | Dns bool | Tls \<comment> \<open>of \<open>Dns\<close>: are colours on\<close>

fun help_text :: "tracer \<Rightarrow> string \<Rightarrow> string" where
  "help_text (Exec Linux) version = exec_usage version"
| "help_text (Exec Darwin) version = exec_mac_usage version"
| "help_text (Net Linux) version = net_usage version"
| "help_text (Net Darwin) version = net_mac_usage version"
| "help_text (Dns colors) version = dns_usage colors version"
| "help_text Tls version = tls_usage version"

fun error_text :: "tracer \<Rightarrow> string \<Rightarrow> string" where
  "error_text (Exec pf) msg = fatal_text pf msg"
| "error_text (Net Linux) msg = net_fatal_text msg"
| "error_text (Net Darwin) msg = mac_net_fatal_text msg"
| "error_text (Dns colors) msg = dns_die_text msg"
| "error_text Tls msg = tls_fatal_text msg"

text \<open>The error stream and the exit status.\<close>

definition leave_text :: "tracer \<Rightarrow> string \<Rightarrow> leave \<Rightarrow> string \<times> nat" where
  "leave_text t version l =
     (case l of Fatal msg \<Rightarrow> (error_text t msg, 1)
      | UsageText \<Rightarrow> (help_text t version, (case t of Dns _ \<Rightarrow> 0 | _ \<Rightarrow> 1)))"

text \<open>The answer to the arguments \<open>ws\<close>, when it is to leave.\<close>

fun flags_answer :: "tracer \<Rightarrow> string list \<Rightarrow> leave option" where
  "flags_answer (Exec pf) ws = (case parse_args pf (\<lambda>_. False) ws initial_args of Inl l \<Rightarrow> Some l | Inr _ \<Rightarrow> None)"
| "flags_answer (Net Linux) ws = (case net_parse_args (\<lambda>_. False) ws net_initial of Inl l \<Rightarrow> Some l | Inr _ \<Rightarrow> None)"
| "flags_answer (Net Darwin) ws = (case mac_net_parse (\<lambda>_. False) ws mac_net_initial of Inl l \<Rightarrow> Some l | Inr _ \<Rightarrow> None)"
| "flags_answer (Dns colors) ws = (case dns_parse ws dns_initial of Inl l \<Rightarrow> Some l | Inr _ \<Rightarrow> None)"
| "flags_answer Tls ws = (case tls_parse ws tls_initial of Inl l \<Rightarrow> Some l | Inr _ \<Rightarrow> None)"

section \<open>The help texts name the flags\<close>

text \<open>A flag that is not accepted.\<close>

definition refused :: "tracer \<Rightarrow> char \<Rightarrow> bool" where
  "refused t ch \<longleftrightarrow> flags_answer t [''-'' @ [ch], ''1''] =
     Some (Fatal ((case t of Dns _ \<Rightarrow> ''flag provided but not defined: -'' | _ \<Rightarrow> ''unknown flag -'') @ [ch]))"

fun letters :: "tracer \<Rightarrow> string" where
  "letters (Exec Linux) = ''cdeflqQtupoh''"
| "letters (Exec Darwin) = ''cdeflqQtupohi''"
| "letters (Net Linux) = ''ctUur46OQpoh''"
| "letters (Net Darwin) = ''cuQtUr46Opoih''"
| "letters (Dns colors) = ''cfjqQthnpdoT-''"
| "letters Tls = ''cqQRsvhlop''"

lemma refused_exec: "\<not> refused (Exec pf) ch \<Longrightarrow> ch \<in> set (letters (Exec pf))"
  by (cases pf) (auto simp: refused_def parse_flag_def simple_flag_def split: if_splits)

lemma refused_net: "\<not> refused (Net Linux) ch \<Longrightarrow> ch \<in> set (letters (Net Linux))"
  by (auto simp: refused_def net_flag_def split: if_splits)

lemma refused_mac_net: "\<not> refused (Net Darwin) ch \<Longrightarrow> ch \<in> set (letters (Net Darwin))"
  by (auto simp: refused_def mac_net_flag_def split: if_splits)

lemma refused_dns: "\<not> refused (Dns c) ch \<Longrightarrow> ch \<in> set (letters (Dns c))"
  by (auto simp: refused_def dns_flag_def Let_def split: if_splits)

lemma refused_tls: "\<not> refused Tls ch \<Longrightarrow> ch \<in> set (letters Tls)"
  by (auto simp: refused_def tls_flag_def split: if_splits)

lemma accepted_letters: "\<not> refused t ch \<Longrightarrow> ch \<in> set (letters t)"
  by (cases t rule: letters.cases) (blast dest: refused_exec refused_net refused_mac_net refused_dns refused_tls)+

definition rows_name :: "string list \<Rightarrow> string \<Rightarrow> bool" where
  "rows_name rows chs \<longleftrightarrow> list_all (\<lambda>ch. list_ex (\<lambda>r. strstr r (''-'' @ [ch]) \<noteq> None) rows) chs"

lemma strstr_sublist: "strstr s p \<noteq> None \<Longrightarrow> sublist p s"
  by (induction s) (auto split: if_splits simp: sublist_Cons_right)

lemma rows_name_sublist:
  assumes "rows_name rows chs" "ch \<in> set chs"
  shows "sublist (''-'' @ [ch]) (s @ concat rows)"
proof -
  obtain r where r: "r \<in> set rows" "sublist (''-'' @ [ch]) r"
    using assms strstr_sublist unfolding rows_name_def list_all_iff list_ex_iff by blast
  then obtain as bs where "rows = as @ r # bs" by (auto dest: split_list)
  then have "sublist r (s @ concat rows)" unfolding sublist_def by (metis append.assoc concat.simps(2) concat_append)
  then show ?thesis using r(2) sublist_order.order_trans by blast
qed

lemma exec_rows: "rows_name exec_usage_rows ''cdeflqQtupo''" by code_simp
lemma exec_mac_rows: "rows_name exec_mac_usage_rows ''cdeflqQtupoi''" by code_simp
lemma net_rows: "rows_name net_usage_rows ''ctUur46OQpo''" by code_simp
lemma net_mac_rows: "rows_name net_mac_usage_rows ''cuQtUr46Opoi''" by code_simp
lemma tls_rows: "rows_name tls_usage_rows ''cqQRsvlop''" by code_simp
lemma dns_rows: "rows_name (dns_usage_rows (\<lambda>s. s)) ''cfjqQtnpdoT-''" by code_simp
lemma dns_plain_rows: "rows_name (dns_usage_rows (\<lambda>s. '''')) ''cfjqQtnpdoT-''" by code_simp

lemma help_names:
  assumes "ch \<in> set (letters t)" "ch \<noteq> CHR ''h''"
  shows "sublist (''-'' @ [ch]) (help_text t version)"
proof -
  have cut: "rows_name rows chs \<Longrightarrow> set (letters t) \<subseteq> set (CHR ''h'' # chs) \<Longrightarrow> \<exists>s. help_text t version = s @ concat rows \<Longrightarrow> ?thesis" for rows chs
    using assms rows_name_sublist [of rows chs ch] by auto
  consider "t = Exec Linux" | "t = Exec Darwin" | "t = Net Linux" | "t = Net Darwin" | "t = Dns True" | "t = Dns False" | "t = Tls"
    by (cases t) (metis platform.exhaust)+
  then show ?thesis
  proof cases
    case 1
    show ?thesis by (rule cut [OF exec_rows]) (unfold 1 help_text.simps exec_usage_def if_True if_False Let_def, (simp; fail), blast)
  next
    case 2
    show ?thesis by (rule cut [OF exec_mac_rows]) (unfold 2 help_text.simps exec_mac_usage_def if_True if_False Let_def, (simp; fail), blast)
  next
    case 3
    show ?thesis by (rule cut [OF net_rows]) (unfold 3 help_text.simps net_usage_def if_True if_False Let_def, (simp; fail), blast)
  next
    case 4
    show ?thesis by (rule cut [OF net_mac_rows]) (unfold 4 help_text.simps net_mac_usage_def if_True if_False Let_def, (simp; fail), blast)
  next
    case 5
    show ?thesis by (rule cut [OF dns_rows]) (unfold 5 help_text.simps dns_usage_def if_True if_False Let_def, (simp; fail), blast)
  next
    case 6
    show ?thesis by (rule cut [OF dns_plain_rows]) (unfold 6 help_text.simps dns_usage_def if_True if_False Let_def, (simp; fail), blast)
  next
    case 7
    show ?thesis by (rule cut [OF tls_rows]) (unfold 7 help_text.simps tls_usage_def if_True if_False Let_def, (simp; fail), blast)
  qed
qed

section \<open>What is claimed\<close>

text \<open>
  Every flag a tracer accepts, \<^verbatim>\<open>-h\<close> apart, is named in the help text it prints, in colours and without.
\<close>

theorem flags_documented:
  "\<not> refused t ch \<Longrightarrow> ch \<noteq> CHR ''h'' \<Longrightarrow> sublist (''-'' @ [ch]) (help_text t version)"
  by (rule help_names [OF accepted_letters])

theorem flags_documented_witness: "sublist (''-'' @ ''U'') (help_text (Net Linux) ''1.0'')"
  by (rule flags_documented) (simp_all add: refused_def net_flag_def)

end
