(* ===== verification/Cmd_Mode.thy ===== *)
theory Cmd_Mode
  imports Exec_Main Net_Mac
begin

text \<open>
  Command mode: a tracer starts a command, traces it and ends when the command has ended. What happens
  between is an interleaving of the program, of its signal handlers and of its children, so it is an
  inductive step relation. A child that ends becomes a zombie until it is waited for; \<^verbatim>\<open>SIGCHLD\<close> is discarded
  as long as there is no handler, and does not queue. Handlers are installed with \<^verbatim>\<open>SA_RESTART\<close>, so they do
  not wake up a program that waits.

  The tracers of \<^verbatim>\<open>src/c/exec.c\<close> (both systems) and of \<^verbatim>\<open>src/c/net.c\<close> (macOS) take down the process id of the command
  and compare it in the handler; they differ in the order of their set-up. \<^verbatim>\<open>src/c/dns.c\<close> starts a timer in
  the handler, and \<^verbatim>\<open>src/c/net.c\<close> on Linux has a thread that waits.
\<close>

section \<open>Definitions\<close>

subsection \<open>A flag set by the handler\<close>

datatype cmd_prep = Install | Fork | Record

datatype stage = Checking | Waiting | Ended

record cmd_conf =
  c_setup :: "cmd_prep list"
  c_first :: stage
  c_helpers :: bool  \<comment> \<open>the loop starts programs of its own\<close>

definition exec_conf :: cmd_conf where
  "exec_conf = \<lparr>c_setup = [Install, Fork, Record], c_first = Checking, c_helpers = False\<rparr>"

definition net_mac_conf :: cmd_conf where
  "net_mac_conf = \<lparr>c_setup = [Fork, Record, Install], c_first = Waiting, c_helpers = True\<rparr>"

record cmd_st =
  todo :: "cmd_prep list"
  stage :: stage
  installed :: bool
  child :: i32          \<comment> \<open>0 until it is taken down\<close>
  noticed :: bool
  running :: "i32 set"
  zombies :: "i32 list"
  pending :: bool       \<comment> \<open>a \<^verbatim>\<open>SIGCHLD\<close> has not been handled\<close>

definition cmd_start :: "cmd_conf \<Rightarrow> cmd_st" where
  "cmd_start c = \<lparr>todo = c_setup c, stage = c_first c, installed = False, child = 0, noticed = False, running = {}, zombies = [], pending = False\<rparr>"

text \<open>The handler of \<^verbatim>\<open>src/c/net.c\<close>, \<open>net_on_sigchld\<close>, is the same function (\<open>net_handler\<close>).\<close>

definition handle_sigchld :: "cmd_st \<Rightarrow> cmd_st" where
  "handle_sigchld s = s\<lparr>noticed := on_child (child s) (zombies s) (noticed s), zombies := [], pending := False\<rparr>"

inductive cmd_step :: "cmd_conf \<Rightarrow> i32 \<Rightarrow> cmd_st \<Rightarrow> cmd_st \<Rightarrow> bool" for c p where
  install: "todo s = Install # r \<Longrightarrow> cmd_step c p s (s\<lparr>todo := r, installed := True\<rparr>)"
| fork: "todo s = Fork # r \<Longrightarrow> cmd_step c p s (s\<lparr>todo := r, running := insert p (running s)\<rparr>)"
| takes_down: "todo s = Record # r \<Longrightarrow> cmd_step c p s (s\<lparr>todo := r, child := p\<rparr>)"
| child_ends: "\<lbrakk>stage s \<noteq> Ended; q \<in> running s\<rbrakk>
    \<Longrightarrow> cmd_step c p s (s\<lparr>running := running s - {q}, zombies := zombies s @ [q], pending := pending s \<or> installed s\<rparr>)"
| handler: "\<lbrakk>stage s \<noteq> Ended; pending s\<rbrakk> \<Longrightarrow> cmd_step c p s (handle_sigchld s)"
| helper: "\<lbrakk>c_helpers c; todo s = []; stage s = Waiting; q \<noteq> p; q \<noteq> 0\<rbrakk> \<Longrightarrow> cmd_step c p s (s\<lparr>running := insert q (running s)\<rparr>)"
| collect: "\<lbrakk>c_helpers c; todo s = []; stage s = Waiting; q \<noteq> p\<rbrakk> \<Longrightarrow> cmd_step c p s (s\<lparr>zombies := removeAll q (zombies s)\<rparr>)"
| stops: "\<lbrakk>todo s = []; stage s = Checking; noticed s\<rbrakk> \<Longrightarrow> cmd_step c p s (s\<lparr>stage := Ended\<rparr>)"
| waits: "\<lbrakk>todo s = []; stage s = Checking; \<not> noticed s\<rbrakk> \<Longrightarrow> cmd_step c p s (s\<lparr>stage := Waiting\<rparr>)"
| wakes: "\<lbrakk>todo s = []; stage s = Waiting\<rbrakk> \<Longrightarrow> cmd_step c p s (s\<lparr>stage := Checking\<rparr>)"

abbreviation cmd_steps :: "cmd_conf \<Rightarrow> i32 \<Rightarrow> cmd_st \<Rightarrow> cmd_st \<Rightarrow> bool" where
  "cmd_steps c p \<equiv> (cmd_step c p)\<^sup>*\<^sup>*"

abbreviation cmd_reach :: "cmd_conf \<Rightarrow> i32 \<Rightarrow> cmd_st \<Rightarrow> bool" where
  "cmd_reach c p \<equiv> cmd_steps c p (cmd_start c)"

subsection \<open>A timer started by the handler\<close>

datatype ending = Alarm | Stopped

record dns_cmd =
  d_forked :: bool
  d_running :: "i32 set"
  d_pending :: bool
  d_timer :: bool
  d_stop :: bool
  d_over :: "ending option"

definition dns_cmd_start :: dns_cmd where
  "dns_cmd_start = \<lparr>d_forked = False, d_running = {}, d_pending = False, d_timer = False, d_stop = False, d_over = None\<rparr>"

text \<open>The helpers are those of the macOS tracer, which runs \<^verbatim>\<open>lsof\<close> to attribute a query.\<close>

inductive dns_cmd_step :: "bool \<Rightarrow> i32 \<Rightarrow> dns_cmd \<Rightarrow> dns_cmd \<Rightarrow> bool" for helpers p where
  start: "\<lbrakk>d_over s = None; \<not> d_forked s\<rbrakk> \<Longrightarrow> dns_cmd_step helpers p s (s\<lparr>d_forked := True, d_running := insert p (d_running s)\<rparr>)"
| lookup: "\<lbrakk>d_over s = None; helpers; d_forked s; \<not> d_stop s; q \<noteq> p\<rbrakk> \<Longrightarrow> dns_cmd_step helpers p s (s\<lparr>d_running := insert q (d_running s)\<rparr>)"
| ends: "\<lbrakk>d_over s = None; q \<in> d_running s\<rbrakk> \<Longrightarrow> dns_cmd_step helpers p s (s\<lparr>d_running := d_running s - {q}, d_pending := True\<rparr>)"
| on_chld: "\<lbrakk>d_over s = None; d_pending s\<rbrakk> \<Longrightarrow> dns_cmd_step helpers p s (s\<lparr>d_pending := False, d_timer := True\<rparr>)"
| on_alrm: "\<lbrakk>d_over s = None; d_timer s\<rbrakk> \<Longrightarrow> dns_cmd_step helpers p s (s\<lparr>d_over := Some Alarm\<rparr>)"
| on_int: "d_over s = None \<Longrightarrow> dns_cmd_step helpers p s (s\<lparr>d_stop := True\<rparr>)"
| leaves: "\<lbrakk>d_over s = None; d_forked s; d_stop s\<rbrakk> \<Longrightarrow> dns_cmd_step helpers p s (s\<lparr>d_over := Some Stopped\<rparr>)"

abbreviation dns_cmd_reach :: "bool \<Rightarrow> i32 \<Rightarrow> dns_cmd \<Rightarrow> bool" where
  "dns_cmd_reach helpers p \<equiv> (dns_cmd_step helpers p)\<^sup>*\<^sup>* dns_cmd_start"

subsection \<open>A thread that waits\<close>

datatype waiter = NoThread | InWait | Asleep

record net_cmd =
  w_forked :: bool
  w_running :: bool
  w_thread :: waiter
  w_over :: bool

definition net_cmd_start :: net_cmd where
  "net_cmd_start = \<lparr>w_forked = False, w_running = False, w_thread = NoThread, w_over = False\<rparr>"

text \<open>\<^verbatim>\<open>waitpid\<close> returns for the command only; when \<^verbatim>\<open>pthread_create\<close> fails there is no thread.\<close>

inductive net_cmd_step :: "net_cmd \<Rightarrow> net_cmd \<Rightarrow> bool" where
  start: "\<not> w_forked s \<Longrightarrow> net_cmd_step s (s\<lparr>w_forked := True, w_running := True\<rparr>)"
| create: "\<lbrakk>w_forked s; w_thread s = NoThread; \<not> w_over s\<rbrakk> \<Longrightarrow> net_cmd_step s (s\<lparr>w_thread := InWait\<rparr>)"
| ends: "w_running s \<Longrightarrow> net_cmd_step s (s\<lparr>w_running := False\<rparr>)"
| waited: "\<lbrakk>w_thread s = InWait; \<not> w_running s\<rbrakk> \<Longrightarrow> net_cmd_step s (s\<lparr>w_thread := Asleep\<rparr>)"
| slept: "w_thread s = Asleep \<Longrightarrow> net_cmd_step s (s\<lparr>w_over := True\<rparr>)"

inductive_cases cmd_stepE: "cmd_step c p s s'"
inductive_cases dns_cmd_stepE: "dns_cmd_step helpers p s s'"
inductive_cases net_cmd_stepE: "net_cmd_step s s'"

section \<open>Invariants\<close>

lemma rtranclp_invariant:
  assumes "r\<^sup>*\<^sup>* s t" "I s" "\<And>x y. r x y \<Longrightarrow> I x \<Longrightarrow> I y"
  shows "I t"
  using assms(1) by induction (use assms(2,3) in auto)

lemma net_handler: "net_on_sigchld = on_child"
  by (intro ext) (simp add: net_on_sigchld_def on_child_def)

text \<open>In every state: what the flag, the zombies and the process id that was taken down say of the command.\<close>

definition cmd_inv :: "i32 \<Rightarrow> cmd_st \<Rightarrow> bool" where
  "cmd_inv p s \<longleftrightarrow>
     distinct (todo s) \<and> (child s = 0 \<or> child s = p) \<and> 0 \<notin> running s \<union> set (zombies s)
     \<and> (noticed s \<or> p \<in> set (zombies s) \<longrightarrow> Fork \<notin> set (todo s) \<and> p \<notin> running s)
     \<and> (Fork \<in> set (todo s) \<longrightarrow> p \<notin> running s) \<and> (stage s = Ended \<longrightarrow> noticed s \<and> todo s = [])
     \<and> (Record \<in> set (todo s) \<longrightarrow> child s = 0 \<and> \<not> noticed s)"

lemma cmd_inv_start: "distinct (c_setup c) \<Longrightarrow> c_first c \<noteq> Ended \<Longrightarrow> cmd_inv p (cmd_start c)"
  by (simp add: cmd_inv_def cmd_start_def)

lemma cmd_inv_step: "cmd_step c p s s' \<Longrightarrow> p \<noteq> 0 \<Longrightarrow> cmd_inv p s \<Longrightarrow> cmd_inv p s'"
  by (induction rule: cmd_step.induct) (auto simp: cmd_inv_def handle_sigchld_def on_child_iff)

lemma cmd_inv_reach: "cmd_reach c p s \<Longrightarrow> distinct (c_setup c) \<Longrightarrow> c_first c \<noteq> Ended \<Longrightarrow> p \<noteq> 0 \<Longrightarrow> cmd_inv p s"
  by (erule rtranclp_invariant) (auto intro: cmd_inv_start cmd_inv_step)

text \<open>The command is gone, and the handler that waited for it did not know it.\<close>

definition lost :: "i32 \<Rightarrow> cmd_st \<Rightarrow> bool" where
  "lost p s \<longleftrightarrow> Fork \<notin> set (todo s) \<and> p \<notin> running s \<and> p \<notin> set (zombies s) \<and> \<not> noticed s"

lemma lost_step: "cmd_step c p s s' \<Longrightarrow> p \<noteq> 0 \<Longrightarrow> cmd_inv p s \<and> lost p s \<Longrightarrow> cmd_inv p s' \<and> lost p s'"
proof (intro conjI)
  assume "cmd_step c p s s'" "p \<noteq> 0" "cmd_inv p s \<and> lost p s"
  then show "lost p s'"
    by (induction rule: cmd_step.induct) (auto simp: cmd_inv_def lost_def handle_sigchld_def on_child_iff)
qed (blast intro: cmd_inv_step)

lemma lost_for_ever: "cmd_steps c p s s' \<Longrightarrow> p \<noteq> 0 \<Longrightarrow> cmd_inv p s \<Longrightarrow> lost p s \<Longrightarrow> stage s' \<noteq> Ended"
  using rtranclp_invariant [of "cmd_step c p" s s' "\<lambda>s. cmd_inv p s \<and> lost p s"] lost_step
  by (auto simp: cmd_inv_def lost_def)

text \<open>Once the process id is taken down and the handler is there, the end of the command is not lost.\<close>

definition watched :: "i32 \<Rightarrow> cmd_st \<Rightarrow> bool" where
  "watched p s \<longleftrightarrow> Fork \<notin> set (todo s) \<and> child s = p \<and> installed s \<and> (p \<in> running s \<or> noticed s \<or> p \<in> set (zombies s) \<and> pending s)"

lemma watched_step: "cmd_step c p s s' \<Longrightarrow> watched p s \<Longrightarrow> watched p s'"
  by (induction rule: cmd_step.induct) (auto simp: watched_def handle_sigchld_def on_child_iff)

lemma watched_for_ever: "cmd_steps c p s s' \<Longrightarrow> watched p s \<Longrightarrow> watched p s'"
  using rtranclp_invariant [of "cmd_step c p" s s' "watched p"] watched_step by blast

text \<open>On macOS the network tracer installs its handler last, so that nothing waits for the command before.\<close>

definition kept_zombie :: "i32 \<Rightarrow> cmd_st \<Rightarrow> bool" where
  "kept_zombie p s \<longleftrightarrow>
     todo s \<in> {[Fork, Record, Install], [Record, Install], [Install], []} \<and> (todo s \<noteq> [] \<longrightarrow> \<not> installed s \<and> \<not> pending s)
     \<and> (Record \<notin> set (todo s) \<longrightarrow> child s = p) \<and> (Fork \<notin> set (todo s) \<longrightarrow> p \<in> running s \<or> noticed s \<or> p \<in> set (zombies s))"

lemma kept_zombie_step: "cmd_step c p s s' \<Longrightarrow> kept_zombie p s \<Longrightarrow> kept_zombie p s'"
  by (induction rule: cmd_step.induct) (auto simp: kept_zombie_def handle_sigchld_def on_child_iff)

lemma kept_zombie_reach: "cmd_reach net_mac_conf p s \<Longrightarrow> kept_zombie p s"
  by (erule rtranclp_invariant) (auto simp: kept_zombie_def cmd_start_def net_mac_conf_def dest: kept_zombie_step [unfolded kept_zombie_def])

lemma net_mac_never_lost:
  "cmd_reach net_mac_conf p s \<Longrightarrow> todo s = [] \<Longrightarrow> p \<notin> running s \<Longrightarrow> noticed (handle_sigchld s)"
  using kept_zombie_reach [of p s] by (auto simp: kept_zombie_def handle_sigchld_def on_child_iff)

lemma exec_set_up: "cmd_reach exec_conf p s \<Longrightarrow> todo s = [] \<Longrightarrow> child s = p \<and> installed s"
proof -
  assume "cmd_reach exec_conf p s"
  then have "todo s \<in> {[Install, Fork, Record], [Fork, Record], [Record], []} \<and> (Install \<notin> set (todo s) \<longrightarrow> installed s)
    \<and> (Record \<notin> set (todo s) \<longrightarrow> child s = p)"
    by (rule rtranclp_invariant) (auto simp: cmd_start_def exec_conf_def handle_sigchld_def elim!: cmd_stepE)
  then show "todo s = [] \<Longrightarrow> ?thesis" by simp
qed

subsection \<open>The other two\<close>

lemma dns_linux_inv:
  "dns_cmd_reach False p s \<Longrightarrow> d_running s \<subseteq> {p} \<and> (\<not> d_forked s \<longrightarrow> d_running s = {} \<and> \<not> d_pending s)
     \<and> (d_pending s \<or> d_timer s \<or> d_over s = Some Alarm \<longrightarrow> d_forked s \<and> p \<notin> d_running s)"
  by (erule rtranclp_invariant) (auto simp: dns_cmd_start_def elim!: dns_cmd_stepE)

lemma dns_linux_outlives: "dns_cmd_reach False p s \<Longrightarrow> d_over s = Some Alarm \<Longrightarrow> d_forked s \<and> p \<notin> d_running s"
  using dns_linux_inv by blast

lemma net_cmd_inv:
  "net_cmd_step\<^sup>*\<^sup>* net_cmd_start s \<Longrightarrow> (w_thread s \<noteq> NoThread \<longrightarrow> w_forked s) \<and> (w_running s \<longrightarrow> w_forked s)
     \<and> (w_thread s = Asleep \<or> w_over s \<longrightarrow> w_forked s \<and> \<not> w_running s)"
  by (erule rtranclp_invariant) (auto simp: net_cmd_start_def elim!: net_cmd_stepE)

lemma net_linux_outlives: "net_cmd_step\<^sup>*\<^sup>* net_cmd_start s \<Longrightarrow> w_over s \<Longrightarrow> w_forked s \<and> \<not> w_running s"
  using net_cmd_inv by blast

lemma dns_mac_early:
  fixes p q :: i32
  assumes "q \<noteq> p"
  shows "\<exists>s. dns_cmd_reach True p s \<and> d_over s = Some Alarm \<and> p \<in> d_running s"
proof -
  define s1 where "s1 = dns_cmd_start\<lparr>d_forked := True, d_running := {p}\<rparr>"
  define s2 where "s2 = s1\<lparr>d_running := {q, p}\<rparr>"
  define s3 where "s3 = s2\<lparr>d_running := {p}, d_pending := True\<rparr>"
  define s4 where "s4 = s3\<lparr>d_pending := False, d_timer := True\<rparr>"
  have "dns_cmd_reach True p s1" using dns_cmd_step.start [of dns_cmd_start True p] by (simp add: s1_def dns_cmd_start_def r_into_rtranclp)
  also have "dns_cmd_step True p s1 s2" using dns_cmd_step.lookup [of s1 True q p] assms by (simp add: s2_def s1_def dns_cmd_start_def)
  also have "dns_cmd_step True p s2 s3" using dns_cmd_step.ends [of s2 q True p] assms by (simp add: s3_def s2_def s1_def dns_cmd_start_def insert_Diff_if)
  also have "dns_cmd_step True p s3 s4" using dns_cmd_step.on_chld [of s3 True p] by (simp add: s4_def s3_def s2_def s1_def dns_cmd_start_def)
  also have "dns_cmd_step True p s4 (s4\<lparr>d_over := Some Alarm\<rparr>)" using dns_cmd_step.on_alrm [of s4 True p] by (simp add: s4_def s3_def s2_def s1_def dns_cmd_start_def)
  finally have "dns_cmd_reach True p (s4\<lparr>d_over := Some Alarm\<rparr>)" .
  then show ?thesis by (rule_tac x = "s4\<lparr>d_over := Some Alarm\<rparr>" in exI) (simp add: s4_def s3_def)
qed

section \<open>What is claimed\<close>


text \<open>A run of the process tracer: the command, process 7, ends before or after its process id is taken down.\<close>

definition run_forked :: cmd_st where
  "run_forked = (cmd_start exec_conf)\<lparr>todo := [Record], installed := True, running := {7}\<rparr>"

definition run_early :: cmd_st where
  "run_early = run_forked\<lparr>running := {}\<rparr>"

definition run_recorded :: cmd_st where
  "run_recorded = run_forked\<lparr>todo := [], child := 7\<rparr>"

definition run_noticed :: cmd_st where
  "run_noticed = run_recorded\<lparr>running := {}, noticed := True\<rparr>"

lemmas run_defs = run_forked_def run_early_def run_recorded_def run_noticed_def cmd_start_def exec_conf_def

lemma run_reach_forked: "cmd_reach exec_conf 7 run_forked"
proof -
  let ?s = "(cmd_start exec_conf)\<lparr>todo := [Fork, Record], installed := True\<rparr>"
  have "cmd_reach exec_conf 7 ?s" using cmd_step.install [of "cmd_start exec_conf" "[Fork, Record]" exec_conf 7]
    by (simp add: run_defs r_into_rtranclp)
  also have "cmd_step exec_conf 7 ?s run_forked" using cmd_step.fork [of ?s "[Record]" exec_conf 7] by (simp add: run_defs)
  finally show ?thesis .
qed

lemma run_reach_early: "cmd_reach exec_conf 7 run_early"
proof -
  let ?s = "run_forked\<lparr>running := {}, zombies := [7], pending := True\<rparr>"
  note run_reach_forked
  also have "cmd_step exec_conf 7 run_forked ?s" using cmd_step.child_ends [of run_forked 7 exec_conf 7] by (simp add: run_defs)
  also have "cmd_step exec_conf 7 ?s run_early" using cmd_step.handler [of ?s exec_conf 7] by (simp add: run_defs handle_sigchld_def on_child_def)
  finally show ?thesis .
qed

lemma run_reach_recorded: "cmd_reach exec_conf 7 run_recorded"
proof -
  note run_reach_forked
  also have "cmd_step exec_conf 7 run_forked run_recorded" using cmd_step.takes_down [of run_forked "[]" exec_conf 7] by (simp add: run_defs)
  finally show ?thesis .
qed

lemma run_steps_noticed: "cmd_steps exec_conf 7 run_recorded run_noticed"
proof -
  let ?s = "run_recorded\<lparr>running := {}, zombies := [7], pending := True\<rparr>"
  have "cmd_steps exec_conf 7 run_recorded ?s" using cmd_step.child_ends [of run_recorded 7 exec_conf 7] by (simp add: run_defs r_into_rtranclp)
  also have "cmd_step exec_conf 7 ?s run_noticed" using cmd_step.handler [of ?s exec_conf 7] by (simp add: run_defs handle_sigchld_def on_child_def)
  finally show ?thesis .
qed

lemma run_reach_ended: "cmd_reach exec_conf 7 (run_noticed\<lparr>stage := Ended\<rparr>)"
proof -
  note run_reach_recorded
  also note run_steps_noticed
  also have "cmd_step exec_conf 7 run_noticed (run_noticed\<lparr>stage := Ended\<rparr>)" using cmd_step.stops [of run_noticed exec_conf 7] by (simp add: run_defs)
  finally show ?thesis .
qed




text \<open>
  C31. Once the process tracer has taken down the process id of the running command, its end is noticed: when it has ended
  and no signal is left to be handled, the flag is set, and the next turn of the loop ends the tracer.
\<close>

theorem later_exit_noticed:
  assumes "cmd_reach exec_conf p s" "todo s = []" "p \<in> running s" "cmd_steps exec_conf p s s'" "p \<notin> running s'" "\<not> pending s'"
  shows "noticed s'"
proof -
  have "watched p s' "
    by (rule watched_for_ever [OF assms(4)]) (use exec_set_up [OF assms(1,2)] assms(2,3) in \<open>simp add: watched_def\<close>)
  then show ?thesis using assms(5,6) by (simp add: watched_def)
qed

theorem later_exit_noticed_witness: "noticed run_noticed"
  by (rule later_exit_noticed [OF run_reach_recorded _ _ run_steps_noticed]) (simp_all add: run_defs)

text \<open>
  C33. On macOS the DNS tracer can end in command mode while the command is still running: its handler
  takes the end of every child for that of the command, also that of the \<^verbatim>\<open>lsof\<close> it runs for each query.
\<close>

theorem dns_mac_ends_early:
  fixes p q :: i32
  assumes "q \<noteq> p"
  shows "\<exists>s. dns_cmd_reach True p s \<and> d_over s = Some Alarm \<and> p \<in> d_running s"
  using assms by (rule dns_mac_early)

theorem dns_mac_ends_early_witness: "\<exists>s. dns_cmd_reach True 7 s \<and> d_over s = Some Alarm \<and> 7 \<in> d_running s"
  by (rule dns_mac_ends_early [of 8]) simp

end
