(* ===== verification/Mains.thy ===== *)
theory Mains
  imports Usage Exec_Mac
begin

text \<open>
  The main programs of the tracers from their arguments to their end: reading the flags, opening what they
  read from, starting the command, and the loop. The theories of the components model the parts; here they
  are put together in the order of \<^verbatim>\<open>exec_main\<close>, \<^verbatim>\<open>net_main\<close> and \<^verbatim>\<open>dns_main\<close>. Every system call that can fail is
  an argument: \<open>None\<close> is success, \<open>Some e\<close> its error.
\<close>

section \<open>Definitions\<close>

text \<open>A run: its exit status (\<open>None\<close> while it is running), the error stream, the messages sent to the
  kernel, and the state of the tracer once it traces.\<close>

record 'st run =
  r_exit :: "nat option"
  r_err :: string
  r_sent :: "byte list list"
  r_st :: "'st option"

definition left :: "tracer \<Rightarrow> string \<Rightarrow> leave \<Rightarrow> byte list list \<Rightarrow> 'st run" where
  "left t version l sent = (let (msg, k) = leave_text t version l in \<lparr>r_exit = Some k, r_err = msg, r_sent = sent, r_st = None\<rparr>)"

subsection \<open>Processes\<close>

record conn_errors =
  e_socket :: "string option"
  e_bind :: "string option"
  e_subscribe :: "string option"
  e_fork :: "string option"
  e_child :: i32  \<comment> \<open>what a \<^verbatim>\<open>fork\<close> that succeeds returns\<close>

definition exec_connect :: "conn_errors \<Rightarrow> string option" where
  "exec_connect e =
     (case e_socket e of Some m \<Rightarrow> Some (''socket: '' @ m)
      | None \<Rightarrow> (case e_bind e of Some m \<Rightarrow> Some (''bind: '' @ m)
        | None \<Rightarrow> map_option (\<lambda>m. ''subscribe: '' @ m) (e_subscribe e)))"

definition exec_spawn :: "conn_errors \<Rightarrow> string list \<Rightarrow> string option" where
  "exec_spawn e cmd = (if cmd = [] then None else map_option (\<lambda>m. ''exec '' @ hd cmd @ '': '' @ m) (e_fork e))"

text \<open>The process id the handler compares with, when a command was started (\<^verbatim>\<open>g_child\<close>, \<^verbatim>\<open>g_macChild\<close>).\<close>

definition started :: "conn_errors \<Rightarrow> string list \<Rightarrow> i32 option" where
  "started e cmd = (if cmd = [] then None else Some (e_child e))"

definition exec_first :: exec_st where
  "exec_first = \<lparr>pdb = empty_piddb, outs = '''', errs = ''''\<rparr>"

text \<open>What is left of the loop: its status, its messages behind \<open>sent\<close>, and the error it ended with.\<close>

definition exec_end :: "byte list list \<Rightarrow> loop_end \<times> byte list list \<times> exec_st \<Rightarrow> exec_st run" where
  "exec_end sent over =
     (case over of (how, loop_sent, st) \<Rightarrow>
        (case how of
           Running \<Rightarrow> \<lparr>r_exit = None, r_err = errs st, r_sent = sent @ loop_sent, r_st = Some st\<rparr>
         | Exited k m \<Rightarrow>
             \<lparr>r_exit = Some k, r_err = errs st @ (if m = '''' then '''' else fatal_text Linux m), r_sent = sent @ loop_sent, r_st = Some st\<rparr>))"

definition exec_run ::
  "string \<Rightarrow> exec_host \<Rightarrow> conn_errors \<Rightarrow> string list \<Rightarrow> nat \<Rightarrow> (i32 list \<times> procfs \<times> recv) list \<Rightarrow> exec_st run outcome" where
  "exec_run version h e args fuel turns =
     (case exec_setup Linux h args of
        Inl l \<Rightarrow> Inr (left (Exec Linux) version l [])
      | Inr a \<Rightarrow>
          let op = sendMcastOp_buf (h_getpid h)
          in case exec_connect e of
            Some m \<Rightarrow> Inr (left (Exec Linux) version (Fatal m) [])
          | None \<Rightarrow>
              (case exec_spawn e (x_cmd a) of
                 Some m \<Rightarrow> Inr (left (Exec Linux) version (Fatal m) [op LISTEN])
               | None \<Rightarrow>
                   and_then (exec_loop (x_opts a) fuel (h_getpid h) (started e (x_cmd a)) False turns exec_first)
                     (\<lambda>over. Inr (exec_end [op LISTEN] over))))"

text \<open>On macOS: \<open>seen\<close> is the world of the first scan, \<open>root\<close> whether the effective user is root.\<close>

definition exec_mac_run ::
  "string \<Rightarrow> exec_host \<Rightarrow> conn_errors \<Rightarrow> bool \<Rightarrow> mac_host \<Rightarrow> string list \<Rightarrow> nat \<Rightarrow> (i32 list \<times> mac_host) list \<Rightarrow> mac_st run outcome" where
  "exec_mac_run version h e root world args fuel turns =
     (case mac_setup h args of
        Inl l \<Rightarrow> Inr (left (Exec Darwin) version l [])
      | Inr a \<Rightarrow>
          (case exec_spawn e (x_cmd a) of
             Some m \<Rightarrow> Inr (left (Exec Darwin) version (Fatal m) [])
           | None \<Rightarrow>
               and_then (seedMacDB world empty_macdb) (\<lambda>db.
                 and_then (mac_loop (x_opts a) fuel (started e (x_cmd a)) False turns \<lparr>mdb = db, mouts = ''''\<rparr>) (\<lambda>(how, st).
                   Inr \<lparr>r_exit = (case how of Running \<Rightarrow> None | Exited k _ \<Rightarrow> Some k), r_err = mac_banner a root, r_sent = [], r_st = Some st\<rparr>))))"

subsection \<open>Connections\<close>

definition net_connect :: "conn_errors \<Rightarrow> string option" where
  "net_connect e =
     (case e_socket e of Some m \<Rightarrow> Some (''socket: '' @ m @ NL @ ''hint: requires CAP_NET_ADMIN (run as root)'')
      | None \<Rightarrow> map_option (\<lambda>m. ''bind: '' @ m @ NL @ ''hint: is nf_conntrack loaded? try: modprobe nf_conntrack'') (e_bind e))"

definition net_run :: "string \<Rightarrow> exec_host \<Rightarrow> conn_errors \<Rightarrow> i32 \<Rightarrow> string list \<Rightarrow> nat \<Rightarrow> (netfs \<times> recv) list \<Rightarrow> net_st run outcome" where
  "net_run version h e command args fuel turns =
     (case net_setup h command args of
        Inl l \<Rightarrow> Inr (left (Net Linux) version l [])
      | Inr a \<Rightarrow>
          (case net_connect e of
             Some m \<Rightarrow> Inr (left (Net Linux) version (Fatal m) [])
           | None \<Rightarrow>
               (case exec_spawn e (n_cmd a) of
                  Some m \<Rightarrow> Inr (left (Net Linux) version (Fatal m) [])
                | None \<Rightarrow>
                    and_then (net_loop (n_opts a) fuel turns (net_start, '''')) (\<lambda>(st, err).
                      Inr \<lparr>r_exit = None, r_err = err, r_sent = [], r_st = Some st\<rparr>))))"

definition net_mac_banner :: "mac_net \<Rightarrow> bool \<Rightarrow> string" where
  "net_mac_banner cfg root =
     (if \<not> mn_errors cfg then ''''
      else ''tracep net: polling at '' @ dec_int (mn_poll cfg) @ ''ms on darwin '' @ g_em_dash @ '' short-lived connections may be missed''
        @ (if root then '''' else ''; non-root sees sockets only for own-user processes'') @ NL)"

definition net_mac_run ::
  "string \<Rightarrow> exec_host \<Rightarrow> conn_errors \<Rightarrow> bool \<Rightarrow> (u32 \<Rightarrow> string option) \<Rightarrow> i32 \<Rightarrow> string list \<Rightarrow> string list \<Rightarrow> (string list \<times> string list option) list
    \<Rightarrow> (net_seen \<times> string) run" where
  "net_mac_run version h e root users command args first_scan turns =
     (case mac_net_setup h command args of
        Inl l \<Rightarrow> left (Net Darwin) version l []
      | Inr a \<Rightarrow>
          (case exec_spawn e (mn_cmd a) of
             Some m \<Rightarrow> left (Net Darwin) version (Fatal m) []
           | None \<Rightarrow>
               let (over, st) = mac_net_run users (mn_opts a) first_scan turns
               in \<lparr>r_exit = (if over then Some 0 else None), r_err = net_mac_banner (mn_opts a) root, r_sent = [], r_st = Some st\<rparr>))"

subsection \<open>Names\<close>

text \<open>\<open>cap\<close> is the error of opening the capture, \<open>command\<close> what \<^verbatim>\<open>fork\<close> returns; \<open>how\<close> is whether a signal or the
  timer ended the loop after these turns.\<close>

definition dns_run ::
  "string \<Rightarrow> bool \<Rightarrow> exec_host \<Rightarrow> string option \<Rightarrow> (string + i32) \<Rightarrow> string list \<Rightarrow> nat \<Rightarrow> (dns_host \<times> recv) list \<Rightarrow> bool \<Rightarrow> dns_st run outcome" where
  "dns_run version colors h cap command args fuel turns how =
     (case dns_setup h (linux_cap_open cap) command args of
        Inl l \<Rightarrow> Inr (left (Dns colors) version l [])
      | Inr cfg \<Rightarrow>
          and_then (dns_loop OsLinux cfg fuel turns (dns_start, '''')) (\<lambda>(st, err).
            Inr \<lparr>r_exit = (if how then Some 0 else None), r_err = err, r_sent = [], r_st = Some st\<rparr>))"

text \<open>On any other system no capture opens.\<close>

definition other_cap_open :: "string option" where
  "other_cap_open = Some ''dns capture is only supported on Linux and macOS''"

lemma dns_other_leaves: "\<exists>l. dns_setup h other_cap_open command args = Inl l"
  by (simp add: dns_setup_def other_cap_open_def Let_def split: sum.splits)

section \<open>How the process tracer ends\<close>

lemma child_flag_iff: "child_flag child reaped flag \<longleftrightarrow> flag \<or> (\<exists>c. child = Some c \<and> c \<in> set reaped)"
  by (auto simp: child_flag_def on_child_iff split: option.splits)

definition reported :: "i32 option \<Rightarrow> (i32 list \<times> 'a) list \<Rightarrow> bool" where
  "reported child turns \<longleftrightarrow> (\<exists>c. child = Some c \<and> (\<exists>t \<in> set turns. c \<in> set (fst t)))"

lemma reported_Cons: "reported child (t # turns) \<longleftrightarrow> child_flag child (fst t) False \<or> reported child turns"
  by (auto simp: reported_def child_flag_iff)

lemma exec_loop_end:
  assumes "exec_loop cfg fuel self child False turns st = Inr (how, sent, st')"
  shows "(how = Running \<and> sent = [] \<and> \<not> reported child turns) \<or> (\<exists>m. how = Exited 1 m \<and> sent = [])
    \<or> (how = Exited 0 '''' \<and> sent = [sendMcastOp_buf self IGNORE] \<and> reported child turns)"
  using assms
proof (induction turns arbitrary: st)
  case Nil
  then show ?case by (simp add: reported_def)
next
  case (Cons t turns)
  obtain reaped fs r where t: "t = (reaped, fs, r)" by (cases t)
  show ?case
  proof (cases "child_flag child reaped False")
    case True
    then show ?thesis using Cons.prems t by (auto simp: reported_Cons)
  next
    case False
    then have rep: "reported child (t # turns) \<longleftrightarrow> reported child turns" using t by (simp add: reported_Cons)
    show ?thesis
      unfolding rep using Cons.prems Cons.IH t False by (cases r) (auto simp: Let_def and_then_eq_Inr)
  qed
qed

lemma left_end: "r_exit (left (Exec pf) version l sent) = Some 1" "r_sent (left t version l sent) = sent"
  by (simp_all add: left_def leave_text_def split: leave.splits prod.splits)

lemma exec_run_cases:
  assumes "exec_run version h e args fuel turns = Inr r"
  obtains (left) l sent where "r = left (Exec Linux) version l sent" "set sent \<subseteq> {sendMcastOp_buf (h_getpid h) LISTEN}"
    | (traced) a over where "exec_setup Linux h args = Inr a"
        "exec_loop (x_opts a) fuel (h_getpid h) (started e (x_cmd a)) False turns exec_first = Inr over"
        "r = exec_end [sendMcastOp_buf (h_getpid h) LISTEN] over"
proof (cases "exec_setup Linux h args")
  case (Inl l)
  then show ?thesis using assms left [of l "[]"] by (simp add: exec_run_def)
next
  case (Inr a)
  show ?thesis
  proof (cases "exec_connect e")
    case None
    show ?thesis
    proof (cases "exec_spawn e (x_cmd a)")
      case (Some m)
      then show ?thesis using assms Inr None left [of "Fatal m" "[sendMcastOp_buf (h_getpid h) LISTEN]"] by (simp add: exec_run_def)
    qed (use assms Inr None traced in \<open>auto simp: exec_run_def and_then_eq_Inr Let_def\<close>)
  qed (use assms Inr left [of "Fatal _" "[]"] in \<open>auto simp: exec_run_def\<close>)
qed

text \<open>The command was started and is among the children reported in some turn.\<close>

definition command_over :: "exec_host \<Rightarrow> conn_errors \<Rightarrow> string list \<Rightarrow> (i32 list \<times> 'a) list \<Rightarrow> bool" where
  "command_over h e args turns \<longleftrightarrow>
     (\<exists>a. exec_setup Linux h args = Inr a \<and> x_cmd a \<noteq> [] \<and> (\<exists>t \<in> set turns. e_child e \<in> set (fst t)))"

lemma reported_command_over:
  "exec_setup Linux h args = Inr a \<Longrightarrow> reported (started e (x_cmd a)) turns \<longleftrightarrow> command_over h e args turns"
  by (auto simp: reported_def started_def command_over_def)

lemma exec_run_end:
  assumes "exec_run version h e args fuel turns = Inr r"
  shows "(r_exit r = None \<and> \<not> command_over h e args turns \<or> r_exit r = Some 1 \<or> r_exit r = Some 0 \<and> command_over h e args turns)
    \<and> (sendMcastOp_buf (h_getpid h) IGNORE \<in> set (r_sent r) \<longleftrightarrow> r_exit r = Some 0)"
proof -
  have op: "sendMcastOp_buf q IGNORE \<noteq> sendMcastOp_buf q LISTEN" for q
    by (simp add: sendMcastOp_buf_def IGNORE_def LISTEN_def put32_def)
  from assms show ?thesis
  proof (cases rule: exec_run_cases)
    case (left l sent)
    then show ?thesis using op [of "h_getpid h"] by (auto simp: left_end)
  next
    case (traced a over)
    obtain how sent st where over: "over = (how, sent, st)" by (cases over)
    note rep = reported_command_over [OF traced(1), of e turns]
    from exec_loop_end [OF traced(2) [unfolded over]]
    consider "how = Running" "sent = []" "\<not> command_over h e args turns" | m where "how = Exited 1 m" "sent = []"
      | "how = Exited 0 ''''" "sent = [sendMcastOp_buf (h_getpid h) IGNORE]" "command_over h e args turns"
      unfolding rep by blast
    then show ?thesis
      by cases (use traced(3) over op [of "h_getpid h"] not_sym [OF op [of "h_getpid h"]] in \<open>simp_all add: exec_end_def\<close>)
  qed
qed

section \<open>What is claimed\<close>


definition a_host :: exec_host where
  "a_host = \<lparr>h_esrch = (\<lambda>_. False), h_opens = (\<lambda>_. True), h_strerror = '''', h_tty = None, h_no_color = None, h_getpid = 5\<rparr>"

definition no_errors :: conn_errors where
  "no_errors = \<lparr>e_socket = None, e_bind = None, e_subscribe = None, e_fork = None, e_child = 6\<rparr>"

text \<open>The turns of a run: another child is reported first, then the command.\<close>

definition two_turns :: "(i32 list \<times> procfs \<times> recv) list" where
  "two_turns = [([9], sample_fs, Interrupted), ([7, 6], sample_fs, Interrupted)]"

lemma sample_run:
  "(\<exists>r. exec_run ''1.0'' a_host no_errors [''-q'', ''ls''] 1 two_turns = Inr r \<and> r_exit r = Some 0)
    \<and> (\<exists>r. exec_run ''1.0'' a_host no_errors [''-q''] 1 two_turns = Inr r \<and> r_exit r = None)"
  by (simp add: exec_run_def exec_setup_def a_host_def no_errors_def parse_flag_def simple_flag_def exec_connect_def exec_spawn_def exec_end_def Let_def
      on_opts_def default_watch_def initial_args_def initial_opts_def started_def two_turns_def child_flag_iff)


end
