(* ===== verification/File_Read.thy ===== *)
theory File_Read
  imports Prelude
begin

text \<open>
  How \<^verbatim>\<open>src/c/exec.c\<close> reads a file of unknown length (\<^verbatim>\<open>read_file\<close>): into a buffer that is doubled whenever it is
  full. The files of \<^verbatim>\<open>/proc\<close> that \<open>Exec_Proc\<close> is about are read like this.
\<close>

text \<open>\<open>cap\<close> is the size of the buffer, \<open>buf\<close> what it holds and \<open>rest\<close> what is left of the file. \<^verbatim>\<open>fread\<close> fills the
  buffer or stops at the end of the file; a write behind the buffer is a fault.\<close>

function read_file_loop :: "nat \<Rightarrow> byte list \<Rightarrow> byte list \<Rightarrow> (nat \<times> byte list) outcome" where
  "read_file_loop cap buf rest =
     (let cap' = (if length buf = cap then cap * 2 else cap);
          got = take (cap' - length buf) rest
      in if length buf > cap' then Inl OutOfBounds
         else if got = [] then Inr (cap', buf)
         else read_file_loop cap' (buf @ got) (drop (cap' - length buf) rest))"
  by pat_completeness auto
termination by (relation "measure (\<lambda>(cap, buf, rest). length rest)") (auto simp: Let_def simp flip: length_greater_0_conv)

declare read_file_loop.simps [simp del]

definition read_file :: "byte list option \<Rightarrow> byte list option outcome" where
  "read_file f = (case f of None \<Rightarrow> Inr None | Some d \<Rightarrow> and_then (read_file_loop 4096 [] d) (\<lambda>(cap, buf). Inr (Some buf)))"

lemma read_file_loop_all:
  "0 < cap \<Longrightarrow> length buf \<le> cap \<Longrightarrow> \<exists>cap'. read_file_loop cap buf rest = Inr (cap', buf @ rest) \<and> length (buf @ rest) \<le> cap'"
proof (induction cap buf rest rule: read_file_loop.induct)
  case (1 cap buf rest)
  let ?cap = "if length buf = cap then cap * 2 else cap"
  have room: "length buf < ?cap" using 1(2,3) by simp
  show ?case
  proof (cases "rest = []")
    case True
    then show ?thesis using room by (auto simp: read_file_loop.simps [of cap] Let_def)
  next
    case False
    then have "take (?cap - length buf) rest \<noteq> []" using room by simp
    moreover have "length (buf @ take (?cap - length buf) rest) \<le> ?cap" "0 < ?cap" using room by simp_all
    ultimately have "\<exists>cap'. read_file_loop ?cap (buf @ take (?cap - length buf) rest) (drop (?cap - length buf) rest)
          = Inr (cap', (buf @ take (?cap - length buf) rest) @ drop (?cap - length buf) rest)
        \<and> length ((buf @ take (?cap - length buf) rest) @ drop (?cap - length buf) rest) \<le> cap'"
      using 1(1) [OF refl refl] room by (metis not_less_iff_gr_or_eq)
    then have "\<exists>cap'. read_file_loop ?cap (buf @ take (?cap - length buf) rest) (drop (?cap - length buf) rest) = Inr (cap', buf @ rest)
        \<and> length (buf @ rest) \<le> cap'" by (simp only: append_assoc append_take_drop_id)
    then show ?thesis using False room by (subst read_file_loop.simps) (simp add: Let_def split: if_splits)
  qed
qed

text \<open>A file that can be opened is read completely, whatever its length.\<close>

lemma read_file_all: "read_file (Some d) = Inr (Some d)"
  using read_file_loop_all [of 4096 "[]" d] by (auto simp: read_file_def)

end
