(* ===== verification/Spec2Isabelle.thy ===== *)
theory Spec2Isabelle
  imports Dispatch Exec_Mac Net_Mac Dns_Main Tls_Main Tls_Time Ca_Main Usage Cmd_Mode Mains File_Read
begin

text \<open>
  Verification library of \<^verbatim>\<open>tracep\<close>, the C sources under \<^verbatim>\<open>src/c\<close>: one program with five subcommands that
  report what processes do. \<^verbatim>\<open>exec\<close> reports the processes that are started, \<^verbatim>\<open>net\<close> their connections, \<^verbatim>\<open>dns\<close> their
  queries, \<^verbatim>\<open>tls\<close> their use of the TLS library, and \<^verbatim>\<open>ca\<close> fetches the certificate chain of a server.

  \<^bold>\<open>The parts and how they interact.\<close> \<^verbatim>\<open>main\<close> (\<^verbatim>\<open>tracep.c\<close>) looks up the subcommand and calls its entry point. Each of the first four
  tracers reads its flags, opens a source of events (a netlink socket, a packet socket, the trace pipe; on
  macOS a timer and \<^verbatim>\<open>libproc\<close> or \<^verbatim>\<open>lsof\<close>), optionally starts a command, and then loops: it decodes an event, updates its tables,
  looks up what it needs about the process in \<^verbatim>\<open>/proc\<close>, and prints a line with the helpers of \<^verbatim>\<open>common.c\<close>.
  Models follow that: a state record, one function per handler that takes the
  world of that moment (files of \<^verbatim>\<open>/proc\<close>, interfaces, answers of the resolver) as an argument, a loop over
  the events, and the reachable states.

  \<^bold>\<open>Faults.\<close> A C function that can leave a buffer, follow a null pointer, overflow or go on for ever is in
  \<open>'a outcome\<close> (\<open>Prelude\<close>): \<open>Inl\<close> is the fault, and reads and writes of buffers are checked. A theorem that a
  function gives \<open>Inr\<close> says that it returns and is free of faults.

  \<^bold>\<open>Theories and sources.\<close>
  \<^item> Shared: \<open>Prelude\<close> (machine integers, outcomes, byte buffers), \<open>CLib\<close> and \<open>Scan\<close> (the C library's string functions, \<^verbatim>\<open>sscanf\<close>),
    \<open>Regex\<close> (POSIX matching of the patterns of \<^verbatim>\<open>tls.c\<close>), \<open>Double\<close> and \<open>Rounding\<close> (floating point as fractions rounded to 53
    bits, and the error of that), \<open>Common\<close> (\<^verbatim>\<open>common.c\<close>: colours, shell quoting, the pool of static buffers).
  \<^item> Tables, each as an interface with laws (locale) and its implementations (interpretations): \<open>Probe\<close> (linear probing
    with deletion; interpreted by the two process tables in \<open>Exec_Tables\<close>), \<open>Chained\<close> (hash chains; interpreted by the
    connection table and the lookup cache in \<open>Net_Linux\<close>), \<open>Seen_Set\<close> (sets that only grow; interpreted in \<open>Net_Mac\<close> and \<open>Tls_Events\<close>).
  \<^item> \<^verbatim>\<open>tracep.c\<close>: \<open>Dispatch\<close>.
  \<^item> \<^verbatim>\<open>exec.c\<close>: \<open>Exec_Tables\<close> (\<^verbatim>\<open>pidDB\<close>, \<^verbatim>\<open>macDB\<close>), \<open>File_Read\<close> and \<open>Exec_Proc\<close> (readers of \<^verbatim>\<open>/proc\<close>), \<open>Exec_Linux\<close> (ancestry, handlers, walk over a
    datagram), \<open>Exec_Events\<close> (what the kernel sends, reachable states), \<open>Exec_Main\<close> (flags, loop), \<open>Exec_Mac\<close> (polling on macOS).
  \<^item> \<^verbatim>\<open>net.c\<close>: \<open>Net_Wire\<close> (netlink attributes, conntrack tuples), \<open>Net_Proc\<close> (socket tables, owner, direction, ancestry),
    \<open>Net_Linux\<close> (tables, handlers, lookups), \<open>Net_Events\<close> (datagrams, reachable states), \<open>Net_Main\<close> (flags, loop), \<open>Net_Mac\<close> (\<^verbatim>\<open>lsof\<close> on macOS).
  \<^item> \<^verbatim>\<open>dns.c\<close>: \<open>Dns_Wire\<close> (parser), \<open>Dns_Codec\<close> and \<open>Dns_Frames\<close> (encoders and round trips), \<open>Dns_Proc\<close> (attribution, capture on macOS),
    \<open>Dns_Events\<close> (queries, responses, output), \<open>Dns_Main\<close> (flags, capture, loop).
  \<^item> \<^verbatim>\<open>tls.c\<close>: \<open>Tls_Host\<close> (library, remote host, server names), \<open>Tls_Probe\<close> (symbols, uprobes), \<open>Tls_Events\<close> (trace lines, output),
    \<open>Tls_Lines\<close> (what the kernel prints, the loop), \<open>Tls_Time\<close> (printed time), \<open>Tls_Main\<close> (flags, main program).
  \<^item> \<^verbatim>\<open>ca.c\<close>: \<open>Ca_Http\<close> (connecting, URLs, requests, redirects), \<open>Ca_Main\<close> (flags, report, what is saved).
  \<^item> All tracers: \<open>Usage_Text\<close> and \<open>Usage\<close> (help texts and how a tracer leaves), \<open>Cmd_Mode\<close> (the command that is traced: children, signals and
    threads as a step relation), \<open>Mains\<close> (the main programs from the arguments to the end).

  \<^bold>\<open>What is shown.\<close>
  \<^item> Decoders: memory safety for every input (DNS, conntrack), refinement of what the formats say, and round trips with
    encoders written from the formats (DNS messages and frames, netlink and connector messages, lines of \<^verbatim>\<open>/proc/net\<close>, trace lines,
    JSON, URLs, HTTP replies, shell words).
  \<^item> Tables: they implement finite maps or sets, also after deletions, up to their capacities; what happens
    when they are full is stated too.
  \<^item> Handlers and loops: every event of a datagram reaches its handler once and in order; invariants of the
    reachable states; handling ends (a measure, or fuel and a lemma that it is enough).
  \<^item> Ends of runs: when a tracer ends and with which status, that no probe is left in the kernel, and that
    in command mode the tracers outlive the command, with the interleavings in which that fails.
  \<^item> Behaviour that is not what the code or its comments intend is stated as a theorem about the model like
    the others (a name that points to itself, lost children, addresses printed in the wrong order, a buffer that is
    too small for a URL).

  \<^bold>\<open>Bounds and fuel.\<close> Loops whose end depends on the input take fuel: \<open>read_name\<close> needs one more than the length of the message
  (\<open>read_name_fuel_enough\<close>: with less, not returning proves nothing; with more, nothing changes); the ancestry walk needs the rank of a process in an acyclic
  tree of parents; the walks over datagrams need the number of messages, at most 65536 for the buffer of \<^verbatim>\<open>net.c\<close> (\<open>Net_Main\<close>, for arbitrary bytes with
  sane lengths; \<open>huge_length_passes\<close> in \<open>Net_Events\<close> is what the other lengths do). Capacities are those of the code: 16384 slots of the process and socket tables, 4096
  pairs and 1024 names of the TLS tracer, 256 watched processes, 64 entries of a DNS filter, ten requests of a
  download. Integers that wrap are words of their width; \<^verbatim>\<open>long\<close> values read by \<^verbatim>\<open>strtol\<close> saturate as the library does.

  \<^bold>\<open>Parameters.\<close> What is not under \<^verbatim>\<open>src/\<close> is an argument: the kernel and its files, the resolver, \<^verbatim>\<open>libproc\<close>, the output of \<^verbatim>\<open>lsof\<close>,
  \<^verbatim>\<open>nm\<close> and \<^verbatim>\<open>objdump\<close>, OpenSSL (a certificate is what its functions answer about it), clocks and terminals. What the theorems ask of
  them is named: \<open>kernel_rules\<close> (\<open>Tls_Probe\<close>: when the kernel refuses a write to its probes), \<open>kernel_line\<close> (\<open>Net_Proc\<close>, \<open>Tls_Lines\<close>: how the
  kernel prints sockets and events), \<open>calm_reach\<close> (\<open>Exec_Events\<close>: nobody is given another parent), \<open>served\<close> (\<open>Ca_Http\<close>: what a server answers).

  \<^bold>\<open>Not modelled.\<close> Allocation does not fail and memory is not released (\<^verbatim>\<open>freeArgv\<close>, \<^verbatim>\<open>free_msg\<close>); the buffer
  of \<^verbatim>\<open>buf_append\<close> is the text it holds; buffering of streams; the text of a system error; the C preprocessor's choice of a system, each
  variant being its own definition; include lines and declarations. Data races between the lookup
  threads of \<^verbatim>\<open>net.c\<close> and its loop are not modelled beyond the order of their steps, as the code takes its lock around each.
\<close>

end
